(* ===== verification/Prelude.thy ===== *)
theory Prelude
  imports Main "HOL-Library.Word" "HOL-Library.List_Lexorder" "HOL-Library.Multiset"
begin

text \<open>
  Shared vocabulary of the development: bytes and machine integers, Rust's \<open>Result\<close> and the
  \<open>?\<close> operator, string literals as byte strings, big-endian byte encodings, slices, and the
  generic list lemmas that the component theories use.

  Rust's \<open>Result<T, E>\<close> is the sum \<open>'e + 'a\<close> with \<open>Inl\<close> the error.  A byte string (a
  \<open>Vec<u8>\<close>, a slice or the bytes of a \<open>String\<close>) is a list of \<open>8 word\<close>; its order is the
  lexicographic one, which is Rust's order on slices.
\<close>

section \<open>Types\<close>

type_synonym u8 = "8 word"
type_synonym u64 = "64 word"
type_synonym bytes = "8 word list"

section \<open>Result and the question-mark operator\<close>

named_theorems result_simps \<open>inversion of results built with the question-mark operator\<close>

definition and_then :: "'e + 'a \<Rightarrow> ('a \<Rightarrow> 'e + 'b) \<Rightarrow> 'e + 'b" where
  "and_then r f = (case r of Inl e \<Rightarrow> Inl e | Inr x \<Rightarrow> f x)"

definition ok_or :: "'a option \<Rightarrow> 'e \<Rightarrow> 'e + 'a" where
  "ok_or x e = (case x of None \<Rightarrow> Inl e | Some y \<Rightarrow> Inr y)"

fun try_map :: "('a \<Rightarrow> 'e + 'b) \<Rightarrow> 'a list \<Rightarrow> 'e + 'b list" where
  "try_map f [] = Inr []"
| "try_map f (x # xs) =
     and_then (f x) (\<lambda>y. and_then (try_map f xs) (\<lambda>ys. Inr (y # ys)))"

definition is_ok :: "'e + 'a \<Rightarrow> bool" where
  "is_ok r = (case r of Inl _ \<Rightarrow> False | Inr _ \<Rightarrow> True)"

lemma and_then_simps [simp]:
  "and_then (Inl e) f = Inl e"
  "and_then (Inr x) f = f x"
  by (simp_all add: and_then_def)

lemma and_then_cong [fundef_cong]:
  "\<lbrakk>r = r'; \<And>x. r' = Inr x \<Longrightarrow> f x = f' x\<rbrakk> \<Longrightarrow> and_then r f = and_then r' f'"
  by (cases r') simp_all

lemma and_then_eq_Inr [result_simps]:
  "and_then r f = Inr y \<longleftrightarrow> (\<exists>x. r = Inr x \<and> f x = Inr y)"
  by (cases r) simp_all

lemma and_then_eq_Inl [result_simps]:
  "and_then r f = Inl e \<longleftrightarrow> r = Inl e \<or> (\<exists>x. r = Inr x \<and> f x = Inl e)"
  by (cases r) simp_all

lemma ok_or_simps [simp]:
  "ok_or None e = Inl e"
  "ok_or (Some y) e = Inr y"
  by (simp_all add: ok_or_def)

lemma ok_or_eq_Inr [result_simps]: "ok_or x e = Inr y \<longleftrightarrow> x = Some y"
  by (cases x) simp_all

lemma ok_or_eq_Inl [result_simps]: "ok_or x e = Inl e' \<longleftrightarrow> x = None \<and> e' = e"
  by (cases x) auto

lemma is_ok_simps [simp]: "is_ok (Inl e) = False" "is_ok (Inr x) = True"
  by (simp_all add: is_ok_def)

lemma is_ok_iff: "is_ok r \<longleftrightarrow> (\<exists>x. r = Inr x)"
  by (cases r) simp_all

lemma try_map_eq_Inr [result_simps]:
  "try_map f xs = Inr ys \<longleftrightarrow> list_all2 (\<lambda>x y. f x = Inr y) xs ys"
  by (induction xs arbitrary: ys) (auto simp: result_simps list_all2_Cons1)

lemma try_map_cong [fundef_cong]:
  "\<lbrakk>xs = ys; \<And>x. x \<in> set ys \<Longrightarrow> f x = g x\<rbrakk> \<Longrightarrow> try_map f xs = try_map g ys"
  by (induction ys arbitrary: xs) auto

lemma try_map_Inl_member: "try_map f xs = Inl e \<Longrightarrow> \<exists>x\<in>set xs. f x = Inl e"
  by (induction xs) (auto simp: result_simps)

lemma try_map_Inr_map:
  "(\<And>x. x \<in> set xs \<Longrightarrow> f (h x) = Inr (g x)) \<Longrightarrow> try_map f (map h xs) = Inr (map g xs)"
  by (induction xs) simp_all

lemma try_map_length: "try_map f xs = Inr ys \<Longrightarrow> length ys = length xs"
  by (simp add: try_map_eq_Inr list_all2_lengthD)

section \<open>String literals\<close>

text \<open>A Rust literal such as \<open>"key"\<close> is its ASCII bytes; \<open>str ''key''\<close> is that byte string.\<close>

definition str :: "string \<Rightarrow> bytes" where
  "str s = map of_char s"

lemma of_char_word8_eq_iff: "(of_char c :: u8) = of_char d \<longleftrightarrow> c = d"
proof
  assume "(of_char c :: u8) = of_char d"
  then have "(word_of_nat (of_char c) :: u8) = word_of_nat (of_char d)"
    by (simp only: of_nat_of_char)
  then have "(of_char c :: nat) mod 256 = of_char d mod 256"
    by (simp add: word_of_nat_eq_iff take_bit_eq_mod)
  then show "c = d"
    by simp
qed simp

lemma str_eq_iff [simp]: "str s = str t \<longleftrightarrow> s = t"
  by (simp add: str_def inj_map_eq_map inj_def of_char_word8_eq_iff)

lemma str_Nil [simp]: "str [] = []" and str_eq_Nil [simp]: "str s = [] \<longleftrightarrow> s = []"
  by (simp_all add: str_def)

lemma length_str [simp]: "length (str s) = length s"
  by (simp add: str_def)

section \<open>Big-endian byte encodings\<close>

text \<open>
  \<open>be_bytes n k\<close> is what \<open>to_be_bytes\<close> returns for the \<open>n\<close>-byte truncation of \<open>k\<close>;
  \<open>be_nat\<close> is the number that \<open>from_be_bytes\<close> reads.
\<close>

fun be_bytes :: "nat \<Rightarrow> nat \<Rightarrow> bytes" where
  "be_bytes 0 k = []"
| "be_bytes (Suc n) k = be_bytes n (k div 256) @ [word_of_nat k]"

definition be_nat :: "bytes \<Rightarrow> nat" where
  "be_nat bs = foldl (\<lambda>a b. a * 256 + unat b) 0 bs"

lemma be_nat_simps [simp]:
  "be_nat [] = 0"
  "be_nat (bs @ [b]) = be_nat bs * 256 + unat b"
  by (simp_all add: be_nat_def)

lemma length_be_bytes [simp]: "length (be_bytes n k) = n"
  by (induction n arbitrary: k) simp_all

lemma unat_u8_less: "unat (b :: u8) < 256"
  using unsigned_less [of b, where ?'a = nat] by simp

lemma be_nat_less: "be_nat bs < 256 ^ length bs"
proof (induction bs rule: rev_induct)
  case Nil
  then show ?case by simp
next
  case (snoc b bs)
  then have "be_nat bs * 256 + unat b < (be_nat bs + 1) * 256"
    using unat_u8_less [of b] by simp
  also have "\<dots> \<le> 256 ^ length bs * 256"
    using snoc.IH by (intro mult_right_mono) simp_all
  finally show ?case by simp
qed

lemma be_nat_be_bytes: "k < 256 ^ n \<Longrightarrow> be_nat (be_bytes n k) = k"
proof (induction n arbitrary: k)
  case 0
  then show ?case by simp
next
  case (Suc n)
  then have "k div 256 < 256 ^ n"
    by (simp add: less_mult_imp_div_less mult.commute)
  then have "be_nat (be_bytes n (k div 256)) = k div 256"
    by (rule Suc.IH)
  moreover have "unat (word_of_nat k :: u8) = k mod 256"
    by (simp add: unsigned_of_nat take_bit_eq_mod)
  ultimately show ?case
    by (simp add: div_mult_mod_eq mult.commute)
qed

lemma be_bytes_be_nat: "be_bytes (length bs) (be_nat bs) = bs"
proof (induction bs rule: rev_induct)
  case Nil
  then show ?case by simp
next
  case (snoc b bs)
  have "(be_nat bs * 256 + unat b) div 256 = be_nat bs"
    using unat_u8_less [of b] by simp
  moreover have "(word_of_nat (be_nat bs * 256 + unat b) :: u8) = b"
    by (intro word_unat_eq_iff [THEN iffD2])
      (simp only: unsigned_of_nat take_bit_eq_mod, simp add: unat_u8_less)
  ultimately show ?case
    using snoc.IH by simp
qed

section \<open>Slices\<close>

definition slice :: "'a list \<Rightarrow> nat \<Rightarrow> nat \<Rightarrow> 'a list" where
  "slice xs i j = take (j - i) (drop i xs)"

lemma slice_refl [simp]: "slice xs i i = []"
  by (simp add: slice_def)

lemma length_slice: "j \<le> length xs \<Longrightarrow> length (slice xs i j) = j - i"
  by (simp add: slice_def)

lemma slice_append_split:
  "\<lbrakk>i \<le> j; j \<le> k\<rbrakk> \<Longrightarrow> slice xs i k = slice xs i j @ slice xs j k"
proof -
  assume ij: "i \<le> j" and jk: "j \<le> k"
  have "take (k - i) (drop i xs) = take (j - i) (drop i xs) @ take (k - i - (j - i)) (drop (j - i) (drop i xs))"
    using ij jk by (metis take_add le_add_diff_inverse diff_le_mono)
  then show ?thesis
    using ij jk by (simp add: slice_def)
qed

lemma slice_Suc: "i < length xs \<Longrightarrow> slice xs i (Suc i) = [xs ! i]"
  by (simp add: slice_def take_Suc_conv_app_nth)

lemma slice_mid [simp]: "slice (pre @ xs @ suf) (length pre) (length pre + length xs) = xs"
  by (simp add: slice_def)

lemma slice_full [simp]: "slice xs 0 (length xs) = xs"
  by (simp add: slice_def)

text \<open>\<open>occurs bs pos s\<close>: the bytes of \<open>bs\<close> from \<open>pos\<close> on start with \<open>s\<close>.\<close>

definition occurs :: "'a list \<Rightarrow> nat \<Rightarrow> 'a list \<Rightarrow> bool" where
  "occurs bs pos s \<longleftrightarrow> (\<exists>pre suf. bs = pre @ s @ suf \<and> length pre = pos)"

named_theorems occurs_simps \<open>splitting an occurrence into its parts\<close>

lemma occurs_append [occurs_simps]:
  "occurs bs pos (s @ t) \<longleftrightarrow> occurs bs pos s \<and> occurs bs (pos + length s) t"
proof
  assume "occurs bs pos (s @ t)"
  then obtain pre suf where "bs = pre @ (s @ t) @ suf" and "length pre = pos"
    by (auto simp: occurs_def)
  then have "bs = pre @ s @ (t @ suf)" and "bs = (pre @ s) @ t @ suf" and "length (pre @ s) = pos + length s"
    by simp_all
  with \<open>length pre = pos\<close> show "occurs bs pos s \<and> occurs bs (pos + length s) t"
    unfolding occurs_def by blast
next
  assume "occurs bs pos s \<and> occurs bs (pos + length s) t"
  then obtain pre suf where bs: "bs = pre @ s @ suf" "length pre = pos"
    by (auto simp: occurs_def)
  from \<open>occurs bs pos s \<and> occurs bs (pos + length s) t\<close>
  obtain pre' suf' where bs': "bs = pre' @ t @ suf'" "length pre' = pos + length s"
    by (auto simp: occurs_def)
  from bs bs' have "pre @ s = pre'"
    by (metis append.assoc append_eq_append_conv length_append)
  with bs' have "bs = pre @ (s @ t) @ suf'"
    by simp
  with bs(2) show "occurs bs pos (s @ t)"
    unfolding occurs_def by blast
qed

lemma occurs_Cons [occurs_simps]:
  "occurs bs pos (b # t) \<longleftrightarrow> pos < length bs \<and> bs ! pos = b \<and> occurs bs (pos + 1) t"
proof -
  have "occurs bs pos [b] \<longleftrightarrow> pos < length bs \<and> bs ! pos = b"
    using id_take_nth_drop [of pos bs]
    by (auto simp: occurs_def nth_append) (metis length_take min.absorb4)
  then show ?thesis
    using occurs_append [of bs pos "[b]" t] by simp
qed

lemma occurs_bound: "occurs bs pos s \<Longrightarrow> pos + length s \<le> length bs"
  by (auto simp: occurs_def)

lemma occurs_slice: "occurs bs pos s \<Longrightarrow> slice bs pos (pos + length s) = s"
  by (auto simp: occurs_def)

lemma occurs_self [simp]: "occurs bs 0 bs"
  by (auto simp: occurs_def)

lemma occurs_mid: "occurs (pre @ s @ suf) (length pre) s"
  by (auto simp: occurs_def)

end
