(* ===== verification/Utf8.thy ===== *)
theory Utf8
  imports Prelude
begin

text \<open>
  The validity check of Rust's \<open>core::str::from_utf8\<close>: well-formed UTF-8 in the sense of the
  Unicode standard (no overlong forms, no surrogates, nothing above U+10FFFF).  A Rust
  \<open>String\<close> is a byte string that passes it.
\<close>

definition cont_byte :: "u8 \<Rightarrow> bool" where
  "cont_byte b \<longleftrightarrow> 0x80 \<le> b \<and> b \<le> 0xBF"

definition utf8_second :: "u8 \<Rightarrow> u8 \<Rightarrow> bool" where
  "utf8_second b0 b1 \<longleftrightarrow>
     (if b0 = 0xE0 then 0xA0 \<le> b1 \<and> b1 \<le> 0xBF
      else if b0 = 0xED then 0x80 \<le> b1 \<and> b1 \<le> 0x9F
      else if b0 = 0xF0 then 0x90 \<le> b1 \<and> b1 \<le> 0xBF
      else if b0 = 0xF4 then 0x80 \<le> b1 \<and> b1 \<le> 0x8F
      else cont_byte b1)"

definition utf8_width :: "u8 \<Rightarrow> nat" where
  "utf8_width b0 =
     (if b0 \<le> 0x7F then 1
      else if 0xC2 \<le> b0 \<and> b0 \<le> 0xDF then 2
      else if 0xE0 \<le> b0 \<and> b0 \<le> 0xEF then 3
      else if 0xF0 \<le> b0 \<and> b0 \<le> 0xF4 then 4
      else 0)"

fun utf8_valid :: "bytes \<Rightarrow> bool" where
  "utf8_valid [] = True"
| "utf8_valid (b0 # r) =
     (if utf8_width b0 = 1 then utf8_valid r
      else if utf8_width b0 = 2 then
        (case r of b1 # r' \<Rightarrow> cont_byte b1 \<and> utf8_valid r' | _ \<Rightarrow> False)
      else if utf8_width b0 = 3 then
        (case r of b1 # b2 # r' \<Rightarrow> utf8_second b0 b1 \<and> cont_byte b2 \<and> utf8_valid r' | _ \<Rightarrow> False)
      else if utf8_width b0 = 4 then
        (case r of b1 # b2 # b3 # r' \<Rightarrow>
           utf8_second b0 b1 \<and> cont_byte b2 \<and> cont_byte b3 \<and> utf8_valid r' | _ \<Rightarrow> False)
      else False)"

definition ascii :: "bytes \<Rightarrow> bool" where
  "ascii bs \<longleftrightarrow> (\<forall>b\<in>set bs. b \<le> 0x7F)"

lemma utf8_valid_ascii: "ascii bs \<Longrightarrow> utf8_valid bs"
  by (induction bs) (auto simp: ascii_def utf8_width_def)

lemma utf8_valid_append: "utf8_valid xs \<Longrightarrow> utf8_valid (xs @ ys) \<longleftrightarrow> utf8_valid ys"
  by (induction xs rule: utf8_valid.induct) (auto split: if_splits list.splits)

lemma ascii_append [simp]: "ascii (xs @ ys) \<longleftrightarrow> ascii xs \<and> ascii ys"
  by (auto simp: ascii_def)

end
