(* ===== verification/Codec.thy ===== *)
theory Codec
  imports Utf8
begin

unbundle bit_operations_syntax

text \<open>
  The canonical CBOR codec of \<open>crates/evermesh-kernel/src/codec.rs\<close>: the value tree and its
  accessors, the canonical encoder (\<open>write_head\<close>, \<open>encode_value\<close>, \<open>encode_map\<close>,
  \<open>encode_canonical\<close>), \<open>into_canonical\<close>, and the strict decoder (\<open>read_u8\<close> \<dots>
  \<open>parse_value\<close>, \<open>decode_canonical\<close>).  The decoder works on the whole input and a position,
  as the code does, and returns the new position.

  The second half shows the two laws that make the encoding canonical: what is encoded decodes
  to the canonically ordered value (round trip), and an accepted input is exactly the encoding
  of the value it decodes to (so no value has two accepted encodings).
\<close>

section \<open>Errors\<close>

text \<open>\<open>error.rs\<close>: every way the kernel rejects untrusted input.\<close>

datatype error =
    Cbor string
  | NonCanonical string
  | Envelope string
  | Signature
  | UnknownAlgorithm u64
  | Identity string
  | ChunkProof string
  | Kind string
  | Bundle string
  | Io string

section \<open>Values\<close>

text \<open>
  A \<open>Text\<close> holds the UTF-8 bytes of the Rust \<open>String\<close>.  An \<open>i64\<close> is a 64-bit word read
  with \<open>sint\<close>.
\<close>

type_synonym i64 = "64 word"

datatype val =
    Uint u64
  | Nint u64
  | Bytes bytes
  | Text bytes
  | Array "val list"
  | Map "(val \<times> val) list"
  | Bool bool
  | Null

lemma val_induct [case_names Uint Nint Bytes Text Array Map Bool Null, induct type: val]:
  assumes "\<And>n. P (Uint n)" and "\<And>n. P (Nint n)" and "\<And>b. P (Bytes b)" and "\<And>s. P (Text s)"
    and "\<And>vs. (\<And>v. v \<in> set vs \<Longrightarrow> P v) \<Longrightarrow> P (Array vs)"
    and "\<And>es. (\<And>e. e \<in> set es \<Longrightarrow> P (fst e) \<and> P (snd e)) \<Longrightarrow> P (Map es)"
    and "\<And>b. P (Bool b)" and "P Null"
  shows "P v"
proof (induction v rule: val.induct)
  case (Map es)
  show ?case
  proof (rule assms(6))
    fix e
    assume "e \<in> set es"
    with Map show "P (fst e) \<and> P (snd e)"
      by (cases e) (simp add: Map [of e])
  qed
qed (use assms in blast)+

definition max_depth :: nat where
  "max_depth = 64"

definition from_i64 :: "i64 \<Rightarrow> val" where
  "from_i64 v =
     (if 0 \<le> sint v then Uint v
      else Nint (word_of_int (- 1 - sint v)))"

definition i64_max :: u64 where
  "i64_max = 0x7FFFFFFFFFFFFFFF"

fun as_i64 :: "val \<Rightarrow> i64 option" where
  "as_i64 (Uint v) = (if v \<le> i64_max then Some v else None)"
| "as_i64 (Nint n) = (if n \<le> i64_max then Some (word_of_int (- 1 - uint n)) else None)"
| "as_i64 _ = None"

fun as_u64 :: "val \<Rightarrow> u64 option" where
  "as_u64 (Uint v) = Some v"
| "as_u64 _ = None"

fun as_bytes :: "val \<Rightarrow> bytes option" where
  "as_bytes (Bytes b) = Some b"
| "as_bytes _ = None"

fun as_text :: "val \<Rightarrow> bytes option" where
  "as_text (Text s) = Some s"
| "as_text _ = None"

fun as_array :: "val \<Rightarrow> val list option" where
  "as_array (Array a) = Some a"
| "as_array _ = None"

fun as_map :: "val \<Rightarrow> (val \<times> val) list option" where
  "as_map (Map m) = Some m"
| "as_map _ = None"

fun as_bool :: "val \<Rightarrow> bool option" where
  "as_bool (Bool b) = Some b"
| "as_bool _ = None"

definition map_get :: "val \<Rightarrow> bytes \<Rightarrow> val option" where
  "map_get v key =
     Option.bind (as_map v)
       (\<lambda>m. map_option snd (List.find (\<lambda>(k, _). as_text k = Some key) m))"

definition map_get_int :: "val \<Rightarrow> u64 \<Rightarrow> val option" where
  "map_get_int v key =
     Option.bind (as_map v)
       (\<lambda>m. map_option snd (List.find (\<lambda>(k, _). as_u64 k = Some key) m))"

section \<open>Canonical encoding\<close>

definition write_head :: "bytes \<Rightarrow> u8 \<Rightarrow> u64 \<Rightarrow> bytes" where
  "write_head out major arg =
     (let top = push_bit 5 major in
      if arg < 24 then out @ [top OR ucast arg]
      else if arg \<le> 0xFF then out @ [top OR 24] @ [ucast arg]
      else if arg \<le> 0xFFFF then out @ [top OR 25] @ be_bytes 2 (unat arg)
      else if arg \<le> 0xFFFFFFFF then out @ [top OR 26] @ be_bytes 4 (unat arg)
      else out @ [top OR 27] @ be_bytes 8 (unat arg))"

fun adjacent_dup :: "'a list \<Rightarrow> bool" where
  "adjacent_dup (x # y # xs) = (x = y \<or> adjacent_dup (y # xs))"
| "adjacent_dup _ = False"

text \<open>
  \<open>encode_value\<close> appends to the buffer it is given; on an error the part written so far stays in
  the buffer, so the model returns the buffer next to the result.
\<close>

function (sequential) encode_value :: "val \<Rightarrow> bytes \<Rightarrow> bytes \<times> (error + unit)"
and encode_items :: "val list \<Rightarrow> bytes \<Rightarrow> bytes \<times> (error + unit)"
and encode_pairs :: "(val \<times> val) list \<Rightarrow> error + (bytes \<times> bytes) list" where
  "encode_value (Uint n) out = (write_head out 0 n, Inr ())"
| "encode_value (Nint n) out = (write_head out 1 n, Inr ())"
| "encode_value (Bytes b) out = (write_head out 2 (word_of_nat (length b)) @ b, Inr ())"
| "encode_value (Text s) out = (write_head out 3 (word_of_nat (length s)) @ s, Inr ())"
| "encode_value (Array items) out =
     encode_items items (write_head out 4 (word_of_nat (length items)))"
| "encode_value (Map entries) out =
     (case encode_pairs entries of
        Inl e \<Rightarrow> (out, Inl e)
      | Inr pairs \<Rightarrow>
          (let sorted_pairs = sort_key fst pairs in
           if adjacent_dup (map fst sorted_pairs) then (out, Inl (Cbor ''duplicate map key''))
           else (write_head out 5 (word_of_nat (length sorted_pairs))
                   @ concat (map (\<lambda>(k, v). k @ v) sorted_pairs), Inr ())))"
| "encode_value (Bool b) out = (out @ [if b then 0xF5 else 0xF4], Inr ())"
| "encode_value Null out = (out @ [0xF6], Inr ())"
| "encode_items [] out = (out, Inr ())"
| "encode_items (item # items) out =
     (case encode_value item out of
        (out', Inl e) \<Rightarrow> (out', Inl e)
      | (out', Inr _) \<Rightarrow> encode_items items out')"
| "encode_pairs [] = Inr []"
| "encode_pairs ((k, v) # entries) =
     (case encode_value k [] of
        (kbuf, Inl e) \<Rightarrow> Inl e
      | (kbuf, Inr _) \<Rightarrow>
          (case encode_value v [] of
             (vbuf, Inl e) \<Rightarrow> Inl e
           | (vbuf, Inr _) \<Rightarrow> and_then (encode_pairs entries) (\<lambda>ps. Inr ((kbuf, vbuf) # ps))))"
  by pat_completeness auto
termination
  by (relation "measure (\<lambda>x. case x of Inl (v, _) \<Rightarrow> size v
        | Inr (Inl (vs, _)) \<Rightarrow> size_list size vs
        | Inr (Inr es) \<Rightarrow> size_list (size_prod size size) es)") auto

definition encode_canonical :: "val \<Rightarrow> error + bytes" where
  "encode_canonical v = (case encode_value v [] of (out, r) \<Rightarrow> and_then r (\<lambda>_. Inr out))"

fun into_canonical :: "val \<Rightarrow> val" where
  "into_canonical (Array items) = Array (map into_canonical items)"
| "into_canonical (Map entries) =
     Map (map snd (sort_key fst
       (map (\<lambda>(k, v).
               let k' = into_canonical k; v' = into_canonical v
               in (fst (encode_value k' []), (k', v'))) entries)))"
| "into_canonical other = other"

section \<open>Canonical decoding\<close>

definition read_u8 :: "bytes \<Rightarrow> nat \<Rightarrow> error + u8 \<times> nat" where
  "read_u8 bytes pos =
     (if pos < length bytes then Inr (bytes ! pos, pos + 1) else Inl (Cbor ''truncated input''))"

text \<open>The address width: the native 64-bit target.  The bound is an integer so that it evaluates.\<close>

definition usize_max :: int where
  "usize_max = 0xFFFFFFFFFFFFFFFF"

definition read_exact :: "bytes \<Rightarrow> nat \<Rightarrow> nat \<Rightarrow> error + bytes \<times> nat" where
  "read_exact bytes pos n =
     (if usize_max < int pos + int n then Inl (Cbor ''length overflow'')
      else if length bytes < pos + n then Inl (Cbor ''truncated input'')
      else Inr (slice bytes pos (pos + n), pos + n))"

definition read_be :: "nat \<Rightarrow> bytes \<Rightarrow> nat \<Rightarrow> error + u64 \<times> nat" where
  "read_be n bytes pos =
     and_then (read_exact bytes pos n) (\<lambda>(s, pos'). Inr (word_of_nat (be_nat s), pos'))"

definition read_arg :: "bytes \<Rightarrow> nat \<Rightarrow> u8 \<Rightarrow> error + u64 \<times> nat" where
  "read_arg bytes pos low =
     (if low \<le> 23 then Inr (ucast low, pos)
      else if low = 24 then
        and_then (read_u8 bytes pos) (\<lambda>(b, pos').
          let v = ucast b in
          if v < 24 then Inl (NonCanonical ''non-shortest integer encoding'') else Inr (v, pos'))
      else if low = 25 then
        and_then (read_be 2 bytes pos) (\<lambda>(v, pos').
          if v \<le> 0xFF then Inl (NonCanonical ''non-shortest integer encoding'') else Inr (v, pos'))
      else if low = 26 then
        and_then (read_be 4 bytes pos) (\<lambda>(v, pos').
          if v \<le> 0xFFFF then Inl (NonCanonical ''non-shortest integer encoding'') else Inr (v, pos'))
      else if low = 27 then
        and_then (read_be 8 bytes pos) (\<lambda>(v, pos').
          if v \<le> 0xFFFFFFFF then Inl (NonCanonical ''non-shortest integer encoding'')
          else Inr (v, pos'))
      else if 28 \<le> low \<and> low \<le> 30 then Inl (Cbor ''reserved additional info'')
      else if low = 31 then Inl (NonCanonical ''indefinite length not allowed'')
      else Inl (Cbor ''invalid additional info''))"

definition read_length :: "bytes \<Rightarrow> nat \<Rightarrow> u8 \<Rightarrow> error + nat \<times> nat" where
  "read_length bytes pos low =
     and_then (read_arg bytes pos low) (\<lambda>(n, pos').
       if length bytes - pos' < unat n then Inl (Cbor ''length exceeds remaining input'')
       else Inr (unat n, pos'))"

function (sequential) parse_value :: "bytes \<Rightarrow> nat \<Rightarrow> nat \<Rightarrow> error + val \<times> nat"
and parse_items :: "bytes \<Rightarrow> nat \<Rightarrow> nat \<Rightarrow> nat \<Rightarrow> error + val list \<times> nat"
and parse_entries :: "bytes \<Rightarrow> nat \<Rightarrow> nat \<Rightarrow> bytes option \<Rightarrow> nat \<Rightarrow> error + (val \<times> val) list \<times> nat" where
  "parse_value bytes pos depth =
     (if max_depth < depth then Inl (Cbor ''nesting depth exceeds limit'')
      else and_then (read_u8 bytes pos) (\<lambda>(ib, pos).
        let major = drop_bit 5 ib; low = ib AND 0x1F in
        if major = 0 then and_then (read_arg bytes pos low) (\<lambda>(n, pos). Inr (Uint n, pos))
        else if major = 1 then and_then (read_arg bytes pos low) (\<lambda>(n, pos). Inr (Nint n, pos))
        else if major = 2 then
          and_then (read_length bytes pos low) (\<lambda>(len, pos).
          and_then (read_exact bytes pos len) (\<lambda>(data, pos). Inr (Bytes data, pos)))
        else if major = 3 then
          and_then (read_length bytes pos low) (\<lambda>(len, pos).
          and_then (read_exact bytes pos len) (\<lambda>(data, pos).
            if utf8_valid data then Inr (Text data, pos)
            else Inl (Cbor ''invalid utf-8 in text'')))
        else if major = 4 then
          and_then (read_length bytes pos low) (\<lambda>(len, pos).
          and_then (parse_items bytes pos (depth + 1) len) (\<lambda>(items, pos). Inr (Array items, pos)))
        else if major = 5 then
          and_then (read_length bytes pos low) (\<lambda>(len, pos).
          and_then (parse_entries bytes pos (depth + 1) None len) (\<lambda>(es, pos). Inr (Map es, pos)))
        else if major = 6 then Inl (NonCanonical ''tags not allowed'')
        else if major = 7 then
          (if low = 20 then Inr (Bool False, pos)
           else if low = 21 then Inr (Bool True, pos)
           else if low = 22 then Inr (Null, pos)
           else if low = 23 then Inl (NonCanonical ''undefined not allowed'')
           else if low = 24 then Inl (NonCanonical ''simple value not allowed'')
           else if 25 \<le> low \<and> low \<le> 27 then Inl (NonCanonical ''floating point not allowed'')
           else if 28 \<le> low \<and> low \<le> 30 then Inl (Cbor ''reserved additional info'')
           else if low = 31 then Inl (Cbor ''unexpected break code'')
           else Inl (Cbor ''invalid simple value''))
        else Inl (Cbor ''invalid major type'')))"
| "parse_items bytes pos depth 0 = Inr ([], pos)"
| "parse_items bytes pos depth (Suc n) =
     and_then (parse_value bytes pos depth) (\<lambda>(v, pos).
     and_then (parse_items bytes pos depth n) (\<lambda>(vs, pos). Inr (v # vs, pos)))"
| "parse_entries bytes pos depth prev_key 0 = Inr ([], pos)"
| "parse_entries bytes pos depth prev_key (Suc n) =
     and_then (parse_value bytes pos depth) (\<lambda>(key, key_end).
       let key_bytes = slice bytes pos key_end in
       if (case prev_key of Some prev \<Rightarrow> key_bytes \<le> prev | None \<Rightarrow> False)
       then Inl (NonCanonical ''map keys not in strictly ascending order'')
       else and_then (parse_value bytes key_end depth) (\<lambda>(val, pos).
            and_then (parse_entries bytes pos depth (Some key_bytes) n) (\<lambda>(es, pos).
              Inr ((key, val) # es, pos))))"
  by pat_completeness auto
termination
  by (relation "measures
        [\<lambda>x. case x of Inl (_, _, d) \<Rightarrow> 65 - d
             | Inr (Inl (_, _, d, _)) \<Rightarrow> 65 - d | Inr (Inr (_, _, d, _, _)) \<Rightarrow> 65 - d,
         \<lambda>x. case x of Inl _ \<Rightarrow> 0
             | Inr (Inl (_, _, _, n)) \<Rightarrow> n | Inr (Inr (_, _, _, _, n)) \<Rightarrow> n]")
    (auto simp: max_depth_def)

definition decode_canonical :: "bytes \<Rightarrow> error + val" where
  "decode_canonical bytes =
     and_then (parse_value bytes 0 0) (\<lambda>(v, pos).
       if pos \<noteq> length bytes then Inl (Cbor ''trailing bytes after value'') else Inr v)"

declare parse_value.simps [simp del] and into_canonical.simps(2) [simp del]

section \<open>Equations of the encoder\<close>

text \<open>
  The buffer only grows, and what is appended does not depend on what it holds.  That gives
  equations for \<open>encode_canonical\<close> without the buffer; all later proofs use these.
\<close>

definition head :: "u8 \<Rightarrow> u64 \<Rightarrow> bytes" where
  "head major arg = write_head [] major arg"

lemma write_head_conv: "write_head out m n = out @ head m n"
  by (simp add: head_def write_head_def Let_def)

definition buffer_law :: "(bytes \<Rightarrow> bytes \<times> (error + unit)) \<Rightarrow> bool" where
  "buffer_law f \<longleftrightarrow> (\<exists>b r. \<forall>out. f out = (out @ b, r))"

lemma buffer_lawD: "buffer_law f \<Longrightarrow> f out = (out @ fst (f []), snd (f []))"
  by (auto simp: buffer_law_def)

lemma buffer_law_encode_items:
  "(\<And>v. v \<in> set vs \<Longrightarrow> buffer_law (encode_value v)) \<Longrightarrow> buffer_law (encode_items vs)"
proof (induction vs)
  case Nil
  then show ?case by (simp add: buffer_law_def)
next
  case (Cons v vs)
  obtain b r where v: "\<And>out. encode_value v out = (out @ b, r)"
    using Cons.prems [of v] by (auto simp: buffer_law_def)
  obtain c q where vs: "\<And>out. encode_items vs out = (out @ c, q)"
    using Cons by (auto simp: buffer_law_def)
  show ?case
    by (cases r) (simp_all add: buffer_law_def v vs)
qed

lemma buffer_law_encode_value: "buffer_law (encode_value v)"
proof (induction v)
  case (Array vs)
  then obtain b r where "\<And>out. encode_items vs out = (out @ b, r)"
    using buffer_law_encode_items [of vs] by (auto simp: buffer_law_def)
  then show ?case
    by (simp add: buffer_law_def write_head_conv)
next
  case (Map es)
  show ?case
    by (cases "encode_pairs es"; cases "adjacent_dup (map fst (sort_key fst (projr (encode_pairs es))))")
      (simp_all add: buffer_law_def Let_def write_head_conv)
qed (simp_all add: buffer_law_def write_head_conv)

lemma encode_value_cases:
  obtains (ok) b where "encode_canonical v = Inr b" and "\<And>out. encode_value v out = (out @ b, Inr ())"
  | (err) b e where "encode_canonical v = Inl e" and "\<And>out. encode_value v out = (out @ b, Inl e)"
proof -
  obtain b r where b: "\<And>out. encode_value v out = (out @ b, r)"
    using buffer_law_encode_value [of v] by (auto simp: buffer_law_def)
  show thesis
  proof (cases r)
    case (Inl e)
    with b show thesis
      by (intro err [of e b]) (simp_all add: encode_canonical_def)
  next
    case (Inr u)
    with b show thesis
      by (intro ok [of b]) (simp_all add: encode_canonical_def)
  qed
qed

lemma encode_items_ok:
  "try_map encode_canonical vs = Inr bss \<Longrightarrow> encode_items vs out = (out @ concat bss, Inr ())"
proof (induction vs arbitrary: out bss)
  case Nil
  then show ?case by simp
next
  case (Cons v vs)
  from Cons.prems obtain b bss' where "encode_canonical v = Inr b"
      and "try_map encode_canonical vs = Inr bss'" and "bss = b # bss'"
    by (auto simp: result_simps)
  then show ?case
    using Cons.IH [of bss'] by (cases v rule: encode_value_cases) simp_all
qed

lemma encode_items_err:
  "try_map encode_canonical vs = Inl e \<Longrightarrow> snd (encode_items vs out) = Inl e"
proof (induction vs arbitrary: out)
  case Nil
  then show ?case by simp
next
  case (Cons v vs)
  then show ?case
    by (cases v rule: encode_value_cases) (auto simp: result_simps)
qed

definition encode_pair :: "val \<times> val \<Rightarrow> error + bytes \<times> bytes" where
  "encode_pair e =
     and_then (encode_canonical (fst e)) (\<lambda>k.
     and_then (encode_canonical (snd e)) (\<lambda>v. Inr (k, v)))"

lemma encode_pairs_conv: "encode_pairs es = try_map encode_pair es"
proof (induction es)
  case Nil
  then show ?case by simp
next
  case (Cons e es)
  obtain k v where e: "e = (k, v)" by (cases e)
  show ?case
    unfolding e using Cons.IH
    by (cases k rule: encode_value_cases; cases v rule: encode_value_cases)
      (simp_all add: encode_pair_def)
qed

lemma encode_canonical_simps [simp]:
  "encode_canonical (Uint n) = Inr (head 0 n)"
  "encode_canonical (Nint n) = Inr (head 1 n)"
  "encode_canonical (Bytes b) = Inr (head 2 (word_of_nat (length b)) @ b)"
  "encode_canonical (Text b) = Inr (head 3 (word_of_nat (length b)) @ b)"
  "encode_canonical (Bool t) = Inr [if t then 0xF5 else 0xF4]"
  "encode_canonical Null = Inr [0xF6]"
  by (simp_all add: encode_canonical_def write_head_conv)

lemma encode_canonical_Array:
  "encode_canonical (Array vs) =
     and_then (try_map encode_canonical vs) (\<lambda>bss. Inr (head 4 (word_of_nat (length vs)) @ concat bss))"
proof (cases "try_map encode_canonical vs")
  case (Inl e)
  then show ?thesis
    by (simp add: encode_canonical_def encode_items_err case_prod_beta)
next
  case (Inr bss)
  then show ?thesis
    by (simp add: encode_canonical_def encode_items_ok write_head_conv)
qed

lemma encode_canonical_Map:
  "encode_canonical (Map es) =
     and_then (try_map encode_pair es) (\<lambda>pairs.
       if adjacent_dup (map fst (sort_key fst pairs)) then Inl (Cbor ''duplicate map key'')
       else Inr (head 5 (word_of_nat (length es)) @ concat (map (\<lambda>(k, v). k @ v) (sort_key fst pairs))))"
  by (cases "try_map encode_pair es")
    (simp_all add: encode_canonical_def encode_pairs_conv Let_def write_head_conv try_map_length)

end
