(* ===== verification/CodecLaws.thy ===== *)
theory CodecLaws
  imports Codec
begin

unbundle bit_operations_syntax

text \<open>
  The laws of the canonical codec: heads are read back exactly and only in shortest form, the
  decoder inverts the encoder up to the canonical order of map entries, and an accepted input is
  the encoding of its value.
\<close>

section \<open>Heads\<close>

definition head_low :: "u64 \<Rightarrow> u8" where
  "head_low n =
     (if n < 24 then ucast n else if n \<le> 0xFF then 24 else if n \<le> 0xFFFF then 25
      else if n \<le> 0xFFFFFFFF then 26 else 27)"

definition head_tail :: "u64 \<Rightarrow> bytes" where
  "head_tail n =
     (if n < 24 then [] else if n \<le> 0xFF then [ucast n] else if n \<le> 0xFFFF then be_bytes 2 (unat n)
      else if n \<le> 0xFFFFFFFF then be_bytes 4 (unat n) else be_bytes 8 (unat n))"

lemma head_eq: "head m n = (push_bit 5 m OR head_low n) # head_tail n"
  by (simp add: head_def write_head_def head_low_def head_tail_def Let_def)

lemma head_nonempty [simp]: "head m n \<noteq> []"
  by (simp add: head_eq)

lemma head_low_less: "head_low n < 32"
proof (cases "n < 24")
  case True
  then have "unat n < 24"
    by (simp add: word_less_nat_alt)
  then have "unat (ucast n :: u8) < 24"
    by (simp add: unsigned_ucast_eq take_bit_nat_eq_self)
  with True show ?thesis
    by (simp add: head_low_def word_less_nat_alt)
qed (simp add: head_low_def)

lemma and_1F: "ib AND 0x1F = take_bit 5 (ib :: u8)"
  by (simp add: take_bit_eq_mask mask_eq_exp_minus_1)

lemma bit_less_exp:
  assumes "l < 2 ^ n" and "bit (l :: 'a::len word) k"
  shows "k < n"
proof -
  have "unat l < unat (2 ^ n :: 'a word)"
    using assms(1) by (simp add: word_less_nat_alt)
  also have "(2 ^ n :: 'a word) = word_of_nat (2 ^ n)"
    by (simp only: of_nat_power of_nat_numeral)
  also have "unat \<dots> = take_bit LENGTH('a) (2 ^ n)"
    by (simp only: unsigned_of_nat of_nat_id)
  also have "\<dots> \<le> 2 ^ n"
    by (rule take_bit_nat_less_eq_self)
  finally have "unat l < 2 ^ n" .
  then have "take_bit n (unat l) = unat l"
    by (rule take_bit_nat_eq_self)
  moreover have "bit (unat l) k"
    using assms(2) by (simp add: bit_unsigned_iff)
  ultimately have "bit (take_bit n (unat l)) k"
    by simp
  then show ?thesis
    by (simp add: bit_take_bit_iff)
qed

lemma initial_byte_split:
  assumes "m < 8" and "l < (32 :: u8)"
  shows "drop_bit 5 (push_bit 5 m OR l) = m" and "(push_bit 5 m OR l) AND 0x1F = l"
proof -
  have l: "k < 5" if "bit l k" for k
    using assms(2) that bit_less_exp [of l 5 k] by simp
  have m: "k < 3" if "bit m k" for k
    using assms(1) that bit_less_exp [of m 3 k] by simp
  show "drop_bit 5 (push_bit 5 m OR l) = m"
    using l m by (fastforce simp: bit_eq_iff bit_simps)
  show "(push_bit 5 m OR l) AND 0x1F = l"
    using l by (auto simp: and_1F bit_eq_iff bit_simps)
qed

lemma initial_byte_join: "push_bit 5 (drop_bit 5 ib) OR (ib AND 0x1F) = (ib :: u8)"
  by (auto simp: and_1F bit_eq_iff bit_simps)

lemma and_1F_less: "ib AND 0x1F < (32 :: u8)"
proof -
  have "unat (ib AND 0x1F) < 2 ^ 5"
    by (simp only: and_1F unsigned_take_bit_eq take_bit_nat_less_exp)
  then show ?thesis
    by (simp add: word_less_nat_alt)
qed


text \<open>A head read back: the argument is the one written, and no other form of it is accepted.\<close>

definition addressable :: "bytes \<Rightarrow> bool" where
  "addressable bs \<longleftrightarrow> int (length bs) \<le> usize_max"

lemma read_exact_ok:
  assumes "addressable bs" and "slice bs pos (pos + n) = s" and "pos + n \<le> length bs"
  shows "read_exact bs pos n = Inr (s, pos + n)"
  using assms by (simp add: read_exact_def addressable_def)

lemma read_exactD:
  assumes "read_exact bs pos n = Inr (s, pos')"
  shows "pos' = pos + n" and "pos' \<le> length bs" and "s = slice bs pos pos'" and "length s = n"
  using assms by (auto simp: read_exact_def length_slice split: if_splits)

lemma read_be_ok:
  assumes "addressable bs" and "slice bs pos (pos + n) = be_bytes n k" and "k < 256 ^ n"
    and "pos + n \<le> length bs"
  shows "read_be n bs pos = Inr (word_of_nat k, pos + n)"
  using assms by (simp add: read_be_def read_exact_ok be_nat_be_bytes)

lemma read_beD:
  assumes "read_be n bs pos = Inr (v, pos')" and "n \<le> 8"
  shows "pos' = pos + n" and "pos' \<le> length bs" and "slice bs pos pos' = be_bytes n (unat v)"
    and "unat v < 256 ^ n"
proof -
  from assms(1) obtain s where s: "read_exact bs pos n = Inr (s, pos')" and v: "v = word_of_nat (be_nat s)"
    by (auto simp: read_be_def result_simps)
  note r = read_exactD [OF s]
  show "pos' = pos + n" and "pos' \<le> length bs"
    using r by simp_all
  have "be_nat s < 256 ^ n"
    using be_nat_less [of s] r by simp
  also have "(256 :: nat) ^ n \<le> 256 ^ 8"
    using assms(2) by (intro power_increasing) simp_all
  finally have "unat v = be_nat s"
    by (simp add: v unsigned_of_nat take_bit_nat_eq_self)
  then show "slice bs pos pos' = be_bytes n (unat v)" and "unat v < 256 ^ n"
    using be_bytes_be_nat [of s] be_nat_less [of s] r by simp_all
qed

lemma read_u8_ok: "pos < length bs \<Longrightarrow> read_u8 bs pos = Inr (bs ! pos, pos + 1)"
  by (simp add: read_u8_def)

lemma read_u8D:
  assumes "read_u8 bs pos = Inr (b, pos')"
  shows "pos' = pos + 1" and "pos' \<le> length bs" and "slice bs pos pos' = [b]"
  using assms by (auto simp: read_u8_def slice_Suc split: if_splits)

lemma ucast_u8_u64_id: "n \<le> 0xFF \<Longrightarrow> ucast (ucast n :: u8) = (n :: u64)"
  by (rule word_unat_eq_iff [THEN iffD2])
    (simp add: unsigned_ucast_eq unsigned_take_bit_eq word_le_nat_alt take_bit_nat_eq_self)

lemma read_arg_ok:
  assumes "addressable bs" and "slice bs pos (pos + length (head_tail n)) = head_tail n"
    and "pos + length (head_tail n) \<le> length bs"
  shows "read_arg bs pos (head_low n) = Inr (n, pos + length (head_tail n))"
proof -
  consider "n < 24" | "24 \<le> n" "n \<le> 0xFF" | "0xFF < n" "n \<le> 0xFFFF"
    | "0xFFFF < n" "n \<le> 0xFFFFFFFF" | "0xFFFFFFFF < n"
    by (meson not_le)
  then show ?thesis
  proof cases
    case 1
    then have "unat n < 24"
      by (simp add: word_less_nat_alt)
    then have "(ucast n :: u8) \<le> 23"
      by (simp add: word_le_nat_alt unsigned_ucast_eq take_bit_nat_eq_self)
    moreover have "n \<le> 0xFF"
      using 1 by (simp add: word_le_nat_alt word_less_nat_alt)
    ultimately show ?thesis
      using 1 by (simp add: head_low_def head_tail_def read_arg_def ucast_u8_u64_id)
  next
    case 2
    then have n: "\<not> n < 24"
      by (simp add: not_less)
    with 2 have tail: "head_tail n = [ucast n]"
      by (simp add: head_tail_def)
    then have pos: "pos < length bs"
      using assms(3) by simp
    with assms(2) have "bs ! pos = ucast n"
      by (simp add: tail slice_Suc)
    with 2 n pos show ?thesis
      by (simp add: head_low_def head_tail_def read_arg_def read_u8_ok ucast_u8_u64_id)
  next
    case 3
    then have "read_be 2 bs pos = Inr (n, pos + 2)"
      using assms read_be_ok [of bs pos 2 "unat n"]
      by (simp add: head_tail_def word_le_nat_alt word_less_nat_alt)
    with 3 show ?thesis
      by (simp add: head_low_def head_tail_def read_arg_def word_le_nat_alt word_less_nat_alt)
  next
    case 4
    then have "read_be 4 bs pos = Inr (n, pos + 4)"
      using assms read_be_ok [of bs pos 4 "unat n"]
      by (simp add: head_tail_def word_le_nat_alt word_less_nat_alt)
    with 4 show ?thesis
      by (simp add: head_low_def head_tail_def read_arg_def word_le_nat_alt word_less_nat_alt)
  next
    case 5
    then have "read_be 8 bs pos = Inr (n, pos + 8)"
      using assms read_be_ok [of bs pos 8 "unat n"] unsigned_less [of n, where ?'a = nat]
      by (simp add: head_tail_def word_le_nat_alt word_less_nat_alt)
    with 5 show ?thesis
      by (simp add: head_low_def head_tail_def read_arg_def word_le_nat_alt word_less_nat_alt)
  qed
qed

lemma read_argD:
  assumes "read_arg bs pos low = Inr (n, pos')" and "pos \<le> length bs"
  shows "low = head_low n \<and> pos \<le> pos' \<and> pos' \<le> length bs \<and> slice bs pos pos' = head_tail n"
proof -
  consider (inl) "low \<le> 23" "n = ucast low" "pos' = pos"
    | (one) b where "low = 24" "read_u8 bs pos = Inr (b, pos')" "n = ucast b" "24 \<le> n"
    | (two) "low = 25" "read_be 2 bs pos = Inr (n, pos')" "0xFF < n"
    | (four) "low = 26" "read_be 4 bs pos = Inr (n, pos')" "0xFFFF < n"
    | (eight) "low = 27" "read_be 8 bs pos = Inr (n, pos')" "0xFFFFFFFF < n"
    using assms(1) by (auto simp: read_arg_def result_simps Let_def not_less not_le split: if_splits)
  then show ?thesis
  proof cases
    case inl
    then have "n < 24" and "ucast n = low"
      by (simp_all add: word_le_nat_alt word_less_nat_alt unsigned_ucast_eq word_unat_eq_iff
          take_bit_nat_eq_self)
    with inl assms(2) show ?thesis
      by (simp add: head_low_def head_tail_def)
  next
    case one
    then have "n \<le> 0xFF" and "ucast n = b"
      using unat_u8_less [of b]
      by (simp_all add: word_le_nat_alt unsigned_ucast_eq word_unat_eq_iff take_bit_nat_eq_self)
    moreover have "\<not> n < 24"
      using one by (simp add: not_less)
    ultimately show ?thesis
      using one read_u8D [OF one(2)] by (simp add: head_low_def head_tail_def)
  next
    case two
    note r = read_beD [OF two(2)]
    from r have "n \<le> 0xFFFF"
      by (simp add: word_le_nat_alt)
    with two r show ?thesis
      by (simp add: head_low_def head_tail_def word_le_nat_alt word_less_nat_alt)
  next
    case four
    note r = read_beD [OF four(2)]
    from r have "n \<le> 0xFFFFFFFF"
      by (simp add: word_le_nat_alt)
    with four r show ?thesis
      by (simp add: head_low_def head_tail_def word_le_nat_alt word_less_nat_alt)
  next
    case eight
    note r = read_beD [OF eight(2)]
    from eight r show ?thesis
      by (simp add: head_low_def head_tail_def word_le_nat_alt word_less_nat_alt)
  qed
qed


section \<open>Canonical values\<close>

text \<open>
  \<open>canonical v\<close>: every map of \<open>v\<close> has its entries in strictly ascending order of their encoded
  keys.  \<open>texts_valid v\<close> is the invariant of Rust's \<open>String\<close>.
\<close>

definition keybuf :: "val \<Rightarrow> bytes" where
  "keybuf v = fst (encode_value v [])"

fun canonical :: "val \<Rightarrow> bool" where
  "canonical (Array vs) = list_all canonical vs"
| "canonical (Map es) =
     (list_all (\<lambda>e. canonical (fst e) \<and> canonical (snd e)) es
      \<and> sorted_wrt (<) (map (\<lambda>e. keybuf (fst e)) es))"
| "canonical _ = True"

fun texts_valid :: "val \<Rightarrow> bool" where
  "texts_valid (Text s) = utf8_valid s"
| "texts_valid (Array vs) = list_all texts_valid vs"
| "texts_valid (Map es) = list_all (\<lambda>e. texts_valid (fst e) \<and> texts_valid (snd e)) es"
| "texts_valid _ = True"

fun vdepth :: "val \<Rightarrow> nat" where
  "vdepth (Array vs) = foldr max (map (\<lambda>v. Suc (vdepth v)) vs) 0"
| "vdepth (Map es) = foldr max (map (\<lambda>e. Suc (max (vdepth (fst e)) (vdepth (snd e)))) es) 0"
| "vdepth _ = 0"

lemma foldr_max_le: "foldr max xs 0 \<le> (d :: nat) \<longleftrightarrow> (\<forall>x\<in>set xs. x \<le> d)"
  by (induction xs) auto

lemma vdepth_Array_le: "vdepth (Array vs) \<le> d \<longleftrightarrow> (\<forall>v\<in>set vs. vdepth v < d)"
  by (auto simp: foldr_max_le Suc_le_eq)

lemma vdepth_Map_le:
  "vdepth (Map es) \<le> d \<longleftrightarrow> (\<forall>e\<in>set es. vdepth (fst e) < d \<and> vdepth (snd e) < d)"
  by (auto simp: foldr_max_le Suc_le_eq)

declare vdepth.simps(1,2) [simp del]

lemma adjacent_dup_sorted:
  "sorted xs \<Longrightarrow> \<not> adjacent_dup xs \<longleftrightarrow> sorted_wrt (<) (xs :: 'a::linorder list)"
  by (induction xs rule: adjacent_dup.induct) (auto simp: order.strict_iff_order)

lemma sort_key_sorted: "sorted (map f xs) \<Longrightarrow> sort_key f xs = xs"
  by (rule sort_key_id_if_sorted)

lemma encode_canonical_keybuf: "encode_canonical v = Inr b \<Longrightarrow> keybuf v = b"
  by (auto simp: keybuf_def encode_canonical_def result_simps split: prod.splits)

lemma list_all2_eq_map: "(\<And>x. x \<in> set xs \<Longrightarrow> f x = Inr (g x)) \<Longrightarrow> list_all2 (\<lambda>x y. f x = Inr y) xs (map g xs)"
  by (simp add: list_all2_conv_all_nth)

lemma canonical_encodes: "canonical v \<Longrightarrow> encode_canonical v = Inr (keybuf v)"
proof (induction v)
  case (Array vs)
  then have "try_map encode_canonical vs = Inr (map keybuf vs)"
    by (simp add: try_map_eq_Inr list_all2_eq_map list_all_iff)
  then have "encode_canonical (Array vs) = Inr (head 4 (word_of_nat (length vs)) @ concat (map keybuf vs))"
    by (simp add: encode_canonical_Array)
  then show ?case
    using encode_canonical_keybuf by metis
next
  case (Map es)
  define f where "f = (\<lambda>e. (keybuf (fst e), keybuf (snd e)))"
  have "encode_pair e = Inr (f e)" if "e \<in> set es" for e
    using that Map by (simp add: encode_pair_def f_def list_all_iff)
  then have pairs: "try_map encode_pair es = Inr (map f es)"
    by (simp add: try_map_eq_Inr list_all2_eq_map)
  have keys: "map fst (map f es) = map (\<lambda>e. keybuf (fst e)) es"
    by (simp add: f_def)
  have less: "sorted_wrt (<) (map fst (map f es))"
    unfolding keys using Map.prems by simp
  then have sorted: "sorted (map fst (map f es))"
    using sorted_wrt_mono_rel [of _ "(<)" "(\<le>)"] by (metis order.strict_implies_order)
  then have "sort_key fst (map f es) = map f es"
    by (rule sort_key_sorted)
  then have "\<exists>b. encode_canonical (Map es) = Inr b"
    using pairs less sorted adjacent_dup_sorted [OF sorted] by (simp add: encode_canonical_Map)
  then show ?case
    using encode_canonical_keybuf by metis
qed (simp_all add: encode_canonical_keybuf)

lemma keybuf_Array:
  assumes "canonical (Array vs)"
  shows "keybuf (Array vs) = head 4 (word_of_nat (length vs)) @ concat (map keybuf vs)"
proof -
  have "try_map encode_canonical vs = Inr (map keybuf vs)"
    using assms by (simp add: try_map_eq_Inr list_all2_eq_map list_all_iff canonical_encodes)
  then show ?thesis
    by (intro encode_canonical_keybuf) (simp add: encode_canonical_Array)
qed

abbreviation entry_buf :: "val \<times> val \<Rightarrow> bytes" where
  "entry_buf e \<equiv> keybuf (fst e) @ keybuf (snd e)"

lemma keybuf_Map:
  assumes "canonical (Map es)"
  shows "keybuf (Map es) = head 5 (word_of_nat (length es)) @ concat (map entry_buf es)"
proof -
  define f where "f = (\<lambda>e. (keybuf (fst e), keybuf (snd e)))"
  have pairs: "try_map encode_pair es = Inr (map f es)"
    using assms
    by (simp add: try_map_eq_Inr list_all2_eq_map list_all_iff canonical_encodes encode_pair_def f_def)
  have "sorted_wrt (<) (map fst (map f es))"
    using assms by (simp add: f_def comp_def)
  then have "sorted (map fst (map f es))"
    using sorted_wrt_mono_rel [of _ "(<)" "(\<le>)"] by (metis order.strict_implies_order)
  then have sorted: "sort_key fst (map f es) = map f es"
    by (rule sort_key_sorted)
  obtain b where b: "encode_canonical (Map es) = Inr b"
    using canonical_encodes [OF assms] by blast
  then have "b = head 5 (word_of_nat (length es)) @ concat (map (\<lambda>(k, v). k @ v) (map f es))"
    by (simp add: encode_canonical_Map pairs sorted split: if_splits)
  then show ?thesis
    using encode_canonical_keybuf [OF b] by (simp add: f_def comp_def)
qed

lemma keybuf_simps [simp]:
  "keybuf (Uint n) = head 0 n"
  "keybuf (Nint n) = head 1 n"
  "keybuf (Bytes b) = head 2 (word_of_nat (length b)) @ b"
  "keybuf (Text b) = head 3 (word_of_nat (length b)) @ b"
  "keybuf (Bool t) = [if t then 0xF5 else 0xF4]"
  "keybuf Null = [0xF6]"
  by (simp_all add: encode_canonical_keybuf)

lemma keybuf_nonempty: "canonical v \<Longrightarrow> keybuf v \<noteq> []"
  by (cases v) (simp_all add: keybuf_Array keybuf_Map del: canonical.simps)

lemma concat_length_ge: "(\<And>x. x \<in> set xs \<Longrightarrow> f x \<noteq> []) \<Longrightarrow> length xs \<le> length (concat (map f xs))"
proof (induction xs)
  case Nil
  then show ?case by simp
next
  case (Cons x xs)
  then have "f x \<noteq> []" and "length xs \<le> length (concat (map f xs))"
    by simp_all
  then show ?case
    by (cases "f x") simp_all
qed

section \<open>The decoder reads what the encoder writes\<close>

lemma unat_length:
  "n \<le> length bs \<Longrightarrow> addressable bs \<Longrightarrow> unat (word_of_nat n :: u64) = n"
  by (simp add: addressable_def usize_max_def unsigned_of_nat take_bit_nat_eq_self)

lemma read_arg_occurs:
  "\<lbrakk>addressable bs; occurs bs pos (head_tail n)\<rbrakk>
   \<Longrightarrow> read_arg bs pos (head_low n) = Inr (n, pos + length (head_tail n))"
  by (simp add: read_arg_ok occurs_slice occurs_bound)

lemma read_length_occurs:
  assumes "addressable bs" and "occurs bs pos (head_tail (word_of_nat n) @ s)" and "n \<le> length s"
  shows "read_length bs pos (head_low (word_of_nat n))
    = Inr (n, pos + length (head_tail (word_of_nat n)))"
proof -
  define t where "t = head_tail (word_of_nat n)"
  have bound: "pos + length t + length s \<le> length bs"
    using assms(2) occurs_bound [of bs "pos + length t" s] by (simp add: occurs_simps t_def)
  then have n: "unat (word_of_nat n :: u64) = n"
    using assms(1,3) by (intro unat_length) simp_all
  have "read_arg bs pos (head_low (word_of_nat n)) = Inr (word_of_nat n, pos + length t)"
    using assms(1,2) by (simp add: read_arg_occurs occurs_simps t_def)
  then show ?thesis
    using bound assms(3) by (simp add: read_length_def n t_def)
qed

lemma read_exact_occurs:
  "\<lbrakk>addressable bs; occurs bs pos s\<rbrakk> \<Longrightarrow> read_exact bs pos (length s) = Inr (s, pos + length s)"
  by (simp add: read_exact_ok occurs_slice occurs_bound)

text \<open>\<open>parses bs d v\<close>: wherever the encoding of \<open>v\<close> occurs in \<open>bs\<close>, it is parsed to \<open>v\<close>.\<close>

definition parses :: "bytes \<Rightarrow> nat \<Rightarrow> val \<Rightarrow> bool" where
  "parses bs d v \<longleftrightarrow>
     (\<forall>pos. occurs bs pos (keybuf v) \<longrightarrow> parse_value bs pos d = Inr (v, pos + length (keybuf v)))"

lemma parsesI:
  "(\<And>pos. occurs bs pos (keybuf v) \<Longrightarrow> parse_value bs pos d = Inr (v, pos + length (keybuf v)))
   \<Longrightarrow> parses bs d v"
  by (simp add: parses_def)

lemma parse_items_occurs:
  assumes "\<And>v. v \<in> set vs \<Longrightarrow> parses bs d v" and "occurs bs pos (concat (map keybuf vs))"
  shows "parse_items bs pos d (length vs) = Inr (vs, pos + length (concat (map keybuf vs)))"
  using assms
proof (induction vs arbitrary: pos)
  case Nil
  then show ?case by simp
next
  case (Cons v vs)
  then have "parse_value bs pos d = Inr (v, pos + length (keybuf v))"
    by (simp add: parses_def occurs_simps)
  then show ?case
    using Cons by (simp add: occurs_simps add.assoc)
qed

lemma parse_entries_occurs:
  assumes "\<And>e. e \<in> set es \<Longrightarrow> parses bs d (fst e) \<and> parses bs d (snd e)"
    and "occurs bs pos (concat (map entry_buf es))"
    and "sorted_wrt (<) (map (\<lambda>e. keybuf (fst e)) es)"
    and "\<And>p e. prev = Some p \<Longrightarrow> e \<in> set es \<Longrightarrow> p < keybuf (fst e)"
  shows "parse_entries bs pos d prev (length es) = Inr (es, pos + length (concat (map entry_buf es)))"
  using assms
proof (induction es arbitrary: pos prev)
  case Nil
  then show ?case by simp
next
  case (Cons e es)
  obtain k v where e: "e = (k, v)" by (cases e)
  have occ: "occurs bs pos (keybuf k)" "occurs bs (pos + length (keybuf k)) (keybuf v)"
      "occurs bs (pos + length (keybuf k) + length (keybuf v)) (concat (map entry_buf es))"
    using Cons.prems(2) by (simp_all add: e occurs_simps add.assoc)
  have k: "parse_value bs pos d = Inr (k, pos + length (keybuf k))"
    and v: "parse_value bs (pos + length (keybuf k)) d = Inr (v, pos + length (keybuf k) + length (keybuf v))"
    using Cons.prems(1) [of e] occ by (simp_all add: e parses_def)
  have prev: "\<not> (case prev of Some p \<Rightarrow> keybuf k \<le> p | None \<Rightarrow> False)"
    using Cons.prems(4) [of _ e] by (auto simp: e split: option.split)
  have "parse_entries bs (pos + length (keybuf k) + length (keybuf v)) d (Some (keybuf k)) (length es)
      = Inr (es, pos + length (keybuf k) + length (keybuf v) + length (concat (map entry_buf es)))"
    using Cons.prems by (intro Cons.IH) (auto simp: e occ(3))
  then show ?case
    using prev by (cases prev) (simp_all add: e k v Let_def occurs_slice [OF occ(1)] add.assoc)
qed

lemma parse_value_head:
  assumes "d \<le> 64" and "m < 8" and "occurs bs pos (head m n @ s)"
  shows "read_u8 bs pos = Inr (push_bit 5 m OR head_low n, pos + 1)"
    and "drop_bit 5 (push_bit 5 m OR head_low n) = m"
    and "(push_bit 5 m OR head_low n) AND 0x1F = head_low n"
    and "occurs bs (pos + 1) (head_tail n @ s)"
    and "\<not> max_depth < d"
  using assms initial_byte_split [of m "head_low n"] head_low_less [of n]
  by (simp_all add: head_eq occurs_simps read_u8_ok max_depth_def add.assoc)

lemma parses_canonical:
  assumes "addressable bs"
  shows "\<lbrakk>canonical v; texts_valid v; d + vdepth v \<le> 64\<rbrakk> \<Longrightarrow> parses bs d v"
proof (induction v arbitrary: d)
  case (Uint n)
  show ?case
  proof (rule parsesI)
    fix pos
    assume "occurs bs pos (keybuf (Uint n))"
    then have occ: "occurs bs pos (head 0 n @ [])" by simp
    note h = parse_value_head [OF _ _ occ, of d]
    show "parse_value bs pos d = Inr (Uint n, pos + length (keybuf (Uint n)))"
      using h Uint assms by (simp add: parse_value.simps read_arg_occurs head_eq)
  qed
next
  case (Nint n)
  show ?case
  proof (rule parsesI)
    fix pos
    assume "occurs bs pos (keybuf (Nint n))"
    then have occ: "occurs bs pos (head 1 n @ [])" by simp
    note h = parse_value_head [OF _ _ occ, of d]
    show "parse_value bs pos d = Inr (Nint n, pos + length (keybuf (Nint n)))"
      using h Nint assms by (simp add: parse_value.simps read_arg_occurs head_eq)
  qed
next
  case (Bytes b)
  show ?case
  proof (rule parsesI)
    fix pos
    assume "occurs bs pos (keybuf (Bytes b))"
    then have occ: "occurs bs pos (head 2 (word_of_nat (length b)) @ b)" by simp
    note h = parse_value_head [OF _ _ occ, of d]
    show "parse_value bs pos d = Inr (Bytes b, pos + length (keybuf (Bytes b)))"
      using h Bytes assms read_length_occurs [of bs "pos + 1" "length b" b]
      by (simp add: parse_value.simps head_eq occurs_simps read_exact_occurs)
  qed
next
  case (Text b)
  show ?case
  proof (rule parsesI)
    fix pos
    assume "occurs bs pos (keybuf (Text b))"
    then have occ: "occurs bs pos (head 3 (word_of_nat (length b)) @ b)" by simp
    note h = parse_value_head [OF _ _ occ, of d]
    show "parse_value bs pos d = Inr (Text b, pos + length (keybuf (Text b)))"
      using h Text assms read_length_occurs [of bs "pos + 1" "length b" b]
      by (simp add: parse_value.simps head_eq occurs_simps read_exact_occurs)
  qed
next
  case (Array vs)
  let ?s = "concat (map keybuf vs)"
  have buf: "keybuf (Array vs) = head 4 (word_of_nat (length vs)) @ ?s"
    using Array.prems(1) by (rule keybuf_Array)
  have len: "length vs \<le> length ?s"
    using Array.prems(1) by (intro concat_length_ge) (simp add: list_all_iff keybuf_nonempty)
  have items: "parses bs (d + 1) v" if "v \<in> set vs" for v
    using that Array.prems vdepth_Array_le [of vs "64 - d"]
    by (intro Array.IH) (auto simp: list_all_iff)
  show ?case
  proof (rule parsesI, unfold buf)
    fix pos
    assume occ: "occurs bs pos (head 4 (word_of_nat (length vs)) @ ?s)"
    note h = parse_value_head [OF _ _ occ, of d]
    show "parse_value bs pos d = Inr (Array vs, pos + length (head 4 (word_of_nat (length vs)) @ ?s))"
      using h Array.prems(3) assms read_length_occurs [of bs "pos + 1" "length vs" ?s]
        parse_items_occurs [OF items, of vs] len
      by (simp add: parse_value.simps head_eq occurs_simps)
  qed
next
  case (Map es)
  let ?s = "concat (map entry_buf es)"
  have buf: "keybuf (Map es) = head 5 (word_of_nat (length es)) @ ?s"
    using Map.prems(1) by (rule keybuf_Map)
  have len: "length es \<le> length ?s"
    using Map.prems(1) by (intro concat_length_ge) (simp add: list_all_iff keybuf_nonempty)
  have items: "parses bs (d + 1) (fst e) \<and> parses bs (d + 1) (snd e)" if "e \<in> set es" for e
    using that Map.prems vdepth_Map_le [of es "64 - d"] Map.IH [OF that]
    by (auto simp: list_all_iff)
  show ?case
  proof (rule parsesI, unfold buf)
    fix pos
    assume occ: "occurs bs pos (head 5 (word_of_nat (length es)) @ ?s)"
    note h = parse_value_head [OF _ _ occ, of d]
    show "parse_value bs pos d = Inr (Map es, pos + length (head 5 (word_of_nat (length es)) @ ?s))"
      using h Map.prems(1,3) assms read_length_occurs [of bs "pos + 1" "length es" ?s]
        parse_entries_occurs [OF items, of es _ None] len
      by (simp add: parse_value.simps head_eq occurs_simps)
  qed
next
  case (Bool b)
  then show ?case
    by (auto simp: parses_def parse_value.simps occurs_simps read_u8_ok max_depth_def)
next
  case Null
  then show ?case
    by (auto simp: parses_def parse_value.simps occurs_simps read_u8_ok max_depth_def)
qed

lemma decode_keybuf:
  assumes "canonical v" and "texts_valid v" and "vdepth v \<le> 64" and "addressable (keybuf v)"
  shows "decode_canonical (keybuf v) = Inr v"
  using parses_canonical [OF assms(4,1,2), of 0] assms(3)
  by (simp add: parses_def decode_canonical_def)

section \<open>What the decoder accepts is canonical\<close>

text \<open>
  \<open>parsed_as\<close> is what a successful run of the decoder guarantees: it moves forward inside the
  input, and the bytes it consumed are the canonical encoding of the value it returns.
\<close>

definition parsed_as :: "bytes \<Rightarrow> nat \<Rightarrow> nat \<Rightarrow> nat \<Rightarrow> val \<Rightarrow> bool" where
  "parsed_as bs d pos pos' v \<longleftrightarrow>
     canonical v \<and> texts_valid v \<and> d + vdepth v \<le> 64 \<and> pos < pos' \<and> pos' \<le> length bs
     \<and> slice bs pos pos' = keybuf v"

definition parsed_items :: "bytes \<Rightarrow> nat \<Rightarrow> nat \<Rightarrow> nat \<Rightarrow> val list \<Rightarrow> bool" where
  "parsed_items bs d pos pos' vs \<longleftrightarrow>
     (\<forall>v\<in>set vs. canonical v \<and> texts_valid v \<and> d + vdepth v \<le> 64)
     \<and> pos + length vs \<le> pos' \<and> pos' \<le> length bs \<and> slice bs pos pos' = concat (map keybuf vs)"

definition parsed_entries :: "bytes \<Rightarrow> nat \<Rightarrow> bytes option \<Rightarrow> nat \<Rightarrow> nat \<Rightarrow> (val \<times> val) list \<Rightarrow> bool" where
  "parsed_entries bs d prev pos pos' es \<longleftrightarrow>
     (\<forall>e\<in>set es. canonical (fst e) \<and> texts_valid (fst e) \<and> d + vdepth (fst e) \<le> 64
        \<and> canonical (snd e) \<and> texts_valid (snd e) \<and> d + vdepth (snd e) \<le> 64)
     \<and> sorted_wrt (<) (map (\<lambda>e. keybuf (fst e)) es)
     \<and> (\<forall>p e. prev = Some p \<longrightarrow> e \<in> set es \<longrightarrow> p < keybuf (fst e))
     \<and> pos + 2 * length es \<le> pos' \<and> pos' \<le> length bs \<and> slice bs pos pos' = concat (map entry_buf es)"

lemma parsed_items_Cons:
  "\<lbrakk>parsed_as bs d pos mid v; parsed_items bs d mid pos' vs\<rbrakk> \<Longrightarrow> parsed_items bs d pos pos' (v # vs)"
  by (auto simp: parsed_as_def parsed_items_def slice_append_split [of pos mid pos'])

lemma parsed_entries_Cons:
  assumes "parsed_as bs d pos kend k" and "parsed_as bs d kend mid v"
    and "parsed_entries bs d (Some (keybuf k)) mid pos' es"
    and "\<And>p. prev = Some p \<Longrightarrow> p < keybuf k"
  shows "parsed_entries bs d prev pos pos' ((k, v) # es)"
proof -
  have order: "pos < kend" "kend < mid" "mid + 2 * length es \<le> pos'" "pos' \<le> length bs"
    using assms(1-3) by (auto simp: parsed_as_def parsed_entries_def)
  then have "slice bs pos pos' = keybuf k @ keybuf v @ concat (map entry_buf es)"
    using assms(1-3) slice_append_split [of pos kend pos' bs] slice_append_split [of kend mid pos' bs]
    by (simp add: parsed_as_def parsed_entries_def)
  with assms order show ?thesis
    by (auto simp: parsed_as_def parsed_entries_def intro: less_trans)
qed

lemma head_parsed:
  assumes "pos < length bs" and "read_arg bs (pos + 1) (bs ! pos AND 0x1F) = Inr (n, pos')"
    and "drop_bit 5 (bs ! pos) = m"
  shows "pos < pos'" and "pos' \<le> length bs" and "slice bs pos pos' = head m n"
proof -
  have r: "bs ! pos AND 0x1F = head_low n" "pos + 1 \<le> pos'" "pos' \<le> length bs"
      "slice bs (pos + 1) pos' = head_tail n"
    using read_argD [OF assms(2)] assms(1) by simp_all
  then show "pos < pos'" and "pos' \<le> length bs"
    by simp_all
  have "slice bs pos pos' = bs ! pos # slice bs (pos + 1) pos'"
    using slice_append_split [of pos "pos + 1" pos' bs] slice_Suc [of pos bs] assms(1) r by simp
  moreover have "bs ! pos = push_bit 5 m OR head_low n"
    using initial_byte_join [of "bs ! pos"] assms(3) r(1) by simp
  ultimately show "slice bs pos pos' = head m n"
    using r by (simp add: head_eq)
qed

lemma length_parsed:
  assumes "pos < length bs" and "read_length bs (pos + 1) (bs ! pos AND 0x1F) = Inr (n, pos')"
    and "drop_bit 5 (bs ! pos) = m"
  shows "pos < pos'" and "pos' + n \<le> length bs" and "slice bs pos pos' = head m (word_of_nat n)"
proof -
  from assms(2) obtain w where w: "read_arg bs (pos + 1) (bs ! pos AND 0x1F) = Inr (w, pos')"
      and n: "n = unat w" "n \<le> length bs - pos'"
    by (auto simp: read_length_def result_simps split: if_splits)
  note h = head_parsed [OF assms(1) w assms(3)]
  show "pos < pos'" and "pos' + n \<le> length bs" and "slice bs pos pos' = head m (word_of_nat n)"
    using h n by simp_all
qed

lemma parsed_as_Array:
  assumes "pos < length bs" and "read_length bs (pos + 1) (bs ! pos AND 0x1F) = Inr (length vs, mid)"
    and "drop_bit 5 (bs ! pos) = 4" and "parsed_items bs (Suc d) mid pos' vs" and "d \<le> 64"
  shows "parsed_as bs d pos pos' (Array vs)"
proof -
  note h = length_parsed [OF assms(1-3)]
  have can: "canonical (Array vs)"
    using assms(4) by (simp add: parsed_items_def list_all_iff)
  have "vdepth (Array vs) \<le> 64 - d"
    using assms(4) by (auto simp: parsed_items_def vdepth_Array_le)
  moreover have "slice bs pos pos' = keybuf (Array vs)"
    using h assms(4) slice_append_split [of pos mid pos' bs]
    by (simp add: keybuf_Array [OF can] parsed_items_def)
  ultimately show ?thesis
    using h assms(4,5) can by (auto simp: parsed_as_def parsed_items_def list_all_iff)
qed

lemma parsed_as_Map:
  assumes "pos < length bs" and "read_length bs (pos + 1) (bs ! pos AND 0x1F) = Inr (length es, mid)"
    and "drop_bit 5 (bs ! pos) = 5" and "parsed_entries bs (Suc d) None mid pos' es" and "d \<le> 64"
  shows "parsed_as bs d pos pos' (Map es)"
proof -
  note h = length_parsed [OF assms(1-3)]
  have can: "canonical (Map es)"
    using assms(4) by (simp add: parsed_entries_def list_all_iff)
  have "vdepth (Map es) \<le> 64 - d"
    using assms(4) by (fastforce simp: parsed_entries_def vdepth_Map_le)
  moreover have "slice bs pos pos' = keybuf (Map es)"
    using h assms(4) slice_append_split [of pos mid pos' bs]
    by (simp add: keybuf_Map [OF can] parsed_entries_def)
  ultimately show ?thesis
    using h assms(4,5) can by (auto simp: parsed_as_def parsed_entries_def list_all_iff)
qed

lemma parse_items_length: "parse_items bs pos d n = Inr (vs, pos') \<Longrightarrow> length vs = n"
  by (induction n arbitrary: pos vs) (auto simp: result_simps)

lemma parse_entries_length: "parse_entries bs pos d prev n = Inr (es, pos') \<Longrightarrow> length es = n"
  by (induction n arbitrary: pos prev es) (auto simp: result_simps Let_def split: if_splits)

definition parse_sound_at :: "bytes \<Rightarrow> nat \<Rightarrow> bool" where
  "parse_sound_at bs d \<longleftrightarrow>
     (\<forall>pos v pos'. parse_value bs pos d = Inr (v, pos') \<longrightarrow> pos \<le> length bs \<longrightarrow> parsed_as bs d pos pos' v)"

lemma parse_items_sound:
  "\<lbrakk>parse_sound_at bs d; parse_items bs pos d n = Inr (vs, pos'); pos \<le> length bs\<rbrakk>
   \<Longrightarrow> parsed_items bs d pos pos' vs"
proof (induction n arbitrary: pos vs)
  case 0
  then show ?case by (simp add: parsed_items_def)
next
  case (Suc n)
  then obtain v mid vs' where v: "parse_value bs pos d = Inr (v, mid)"
      and rest: "parse_items bs mid d n = Inr (vs', pos')" and vs: "vs = v # vs'"
    by (auto simp: result_simps)
  have "parsed_as bs d pos mid v"
    using Suc.prems v by (simp add: parse_sound_at_def)
  moreover from this have "parsed_items bs d mid pos' vs'"
    using Suc.IH [OF Suc.prems(1) rest] by (simp add: parsed_as_def)
  ultimately show ?case
    unfolding vs by (rule parsed_items_Cons)
qed

lemma parse_entries_sound:
  "\<lbrakk>parse_sound_at bs d; parse_entries bs pos d prev n = Inr (es, pos'); pos \<le> length bs\<rbrakk>
   \<Longrightarrow> parsed_entries bs d prev pos pos' es"
proof (induction n arbitrary: pos prev es)
  case 0
  then show ?case by (simp add: parsed_entries_def)
next
  case (Suc n)
  then obtain k kend v mid es' where k: "parse_value bs pos d = Inr (k, kend)"
      and prev: "\<not> (case prev of Some p \<Rightarrow> slice bs pos kend \<le> p | None \<Rightarrow> False)"
      and v: "parse_value bs kend d = Inr (v, mid)"
      and rest: "parse_entries bs mid d (Some (slice bs pos kend)) n = Inr (es', pos')"
      and es: "es = (k, v) # es'"
    by (auto simp: result_simps Let_def split: if_splits)
  have pk: "parsed_as bs d pos kend k"
    using Suc.prems k by (simp add: parse_sound_at_def)
  then have pv: "parsed_as bs d kend mid v"
    using Suc.prems v by (simp add: parse_sound_at_def parsed_as_def)
  have key: "slice bs pos kend = keybuf k"
    using pk by (simp add: parsed_as_def)
  have "parsed_entries bs d (Some (keybuf k)) mid pos' es'"
    using Suc.IH [OF Suc.prems(1) rest] pv by (simp add: parsed_as_def key)
  moreover have "p < keybuf k" if "prev = Some p" for p
    using prev that by (simp add: key)
  ultimately show ?case
    unfolding es using pk pv by (intro parsed_entries_Cons)
qed

lemma parse_value_step_sound:
  assumes deeper: "parse_sound_at bs (Suc d)" and d: "d \<le> 64" and pos: "pos \<le> length bs"
    and run: "parse_value bs pos d = Inr (v, pos')"
  shows "parsed_as bs d pos pos' v"
proof -
  let ?ib = "bs ! pos" and ?low = "bs ! pos AND 0x1F"
  have lt: "pos < length bs"
    using run d by (auto simp: parse_value.simps read_u8_def split: if_splits)
  have nd: "\<not> max_depth < d"
    using d by (simp add: max_depth_def)
  consider (uint) n where "drop_bit 5 ?ib = 0" "read_arg bs (pos + 1) ?low = Inr (n, pos')" "v = Uint n"
    | (nint) n where "drop_bit 5 ?ib = 1" "read_arg bs (pos + 1) ?low = Inr (n, pos')" "v = Nint n"
    | (bytes) len mid data where "drop_bit 5 ?ib = 2" "read_length bs (pos + 1) ?low = Inr (len, mid)"
        "read_exact bs mid len = Inr (data, pos')" "v = Bytes data"
    | (utf) len mid data where "drop_bit 5 ?ib = 3" "read_length bs (pos + 1) ?low = Inr (len, mid)"
        "read_exact bs mid len = Inr (data, pos')" "utf8_valid data" "v = Text data"
    | (arr) len mid vs where "drop_bit 5 ?ib = 4" "read_length bs (pos + 1) ?low = Inr (len, mid)"
        "parse_items bs mid (d + 1) len = Inr (vs, pos')" "v = Array vs"
    | (map) len mid es where "drop_bit 5 ?ib = 5" "read_length bs (pos + 1) ?low = Inr (len, mid)"
        "parse_entries bs mid (d + 1) None len = Inr (es, pos')" "v = Map es"
    | (false) "drop_bit 5 ?ib = 7" "?low = 20" "v = Bool False" "pos' = pos + 1"
    | (true) "drop_bit 5 ?ib = 7" "?low = 21" "v = Bool True" "pos' = pos + 1"
    | (null) "drop_bit 5 ?ib = 7" "?low = 22" "v = Null" "pos' = pos + 1"
    using run lt nd
    by (auto simp: parse_value.simps read_u8_ok Let_def result_simps split: if_splits)
  then show ?thesis
  proof cases
    case uint
    with head_parsed [OF lt uint(2,1)] d show ?thesis
      by (simp add: parsed_as_def)
  next
    case nint
    with head_parsed [OF lt nint(2,1)] d show ?thesis
      by (simp add: parsed_as_def)
  next
    case bytes
    note h = length_parsed [OF lt bytes(2,1)] and r = read_exactD [OF bytes(3)]
    show ?thesis
      using h r bytes(4) d slice_append_split [of pos mid pos' bs] by (simp add: parsed_as_def)
  next
    case utf
    note h = length_parsed [OF lt utf(2,1)] and r = read_exactD [OF utf(3)]
    show ?thesis
      using h r utf(4,5) d slice_append_split [of pos mid pos' bs] by (simp add: parsed_as_def)
  next
    case arr
    have "parsed_items bs (Suc d) mid pos' vs"
      using parse_items_sound [OF deeper] arr(3) length_parsed [OF lt arr(2,1)] by simp
    with arr lt d show ?thesis
      using parse_items_length [OF arr(3)] parsed_as_Array by blast
  next
    case map
    have "parsed_entries bs (Suc d) None mid pos' es"
      using parse_entries_sound [OF deeper] map(3) length_parsed [OF lt map(2,1)] by simp
    with map lt d show ?thesis
      using parse_entries_length [OF map(3)] parsed_as_Map by blast
  next
    case false
    then show ?thesis
      using lt d initial_byte_join [of ?ib] by (simp add: parsed_as_def slice_Suc)
  next
    case true
    then show ?thesis
      using lt d initial_byte_join [of ?ib] by (simp add: parsed_as_def slice_Suc)
  next
    case null
    then show ?thesis
      using lt d initial_byte_join [of ?ib] by (simp add: parsed_as_def slice_Suc)
  qed
qed

lemma parse_value_sound: "parse_sound_at bs d"
proof (induction "65 - d" arbitrary: d)
  case 0
  then show ?case
    by (simp add: parse_sound_at_def parse_value.simps max_depth_def)
next
  case (Suc k)
  then have "parse_sound_at bs (Suc d)" and "d \<le> 64"
    by simp_all
  then show ?case
    by (auto simp: parse_sound_at_def [of bs d] intro: parse_value_step_sound)
qed

lemma decode_canonicalD:
  assumes "decode_canonical bs = Inr v"
  shows "canonical v" and "texts_valid v" and "vdepth v \<le> 64" and "keybuf v = bs"
proof -
  from assms have "parse_value bs 0 0 = Inr (v, length bs)"
    by (auto simp: decode_canonical_def result_simps split: if_splits)
  then have "parsed_as bs 0 0 (length bs) v"
    using parse_value_sound [of bs 0] by (simp add: parse_sound_at_def)
  then show "canonical v" and "texts_valid v" and "vdepth v \<le> 64" and "keybuf v = bs"
    by (simp_all add: parsed_as_def)
qed

section \<open>Reordering into canonical form\<close>

lemma insort_key_map:
  "(\<And>y. y \<in> insert x (set xs) \<Longrightarrow> f' (g y) = f y) \<Longrightarrow>
   map g (insort_key f x xs) = insort_key f' (g x) (map g xs)"
  by (induction xs) auto

lemma sort_key_map:
  "(\<And>y. y \<in> set xs \<Longrightarrow> f' (g y) = f y) \<Longrightarrow> map g (sort_key f xs) = sort_key f' (map g xs)"
proof (induction xs)
  case Nil
  then show ?case by simp
next
  case (Cons x xs)
  then have "map g (insort_key f x (sort_key f xs)) = insort_key f' (g x) (map g (sort_key f xs))"
    by (intro insort_key_map) auto
  with Cons show ?case by simp
qed

definition canon_entry :: "val \<times> val \<Rightarrow> val \<times> val" where
  "canon_entry e = (into_canonical (fst e), into_canonical (snd e))"

lemma into_canonical_Map:
  "into_canonical (Map es) = Map (sort_key (\<lambda>e. keybuf (fst e)) (map canon_entry es))"
proof -
  have tag: "(\<lambda>(k, v). let k' = into_canonical k; v' = into_canonical v
                        in (fst (encode_value k' []), (k', v')))
      = (\<lambda>e. (keybuf (fst (canon_entry e)), canon_entry e))"
    by (auto simp: fun_eq_iff canon_entry_def keybuf_def Let_def)
  have "map snd (sort_key fst (map (\<lambda>e. (keybuf (fst (canon_entry e)), canon_entry e)) es))
      = sort_key (\<lambda>e. keybuf (fst e)) (map snd (map (\<lambda>e. (keybuf (fst (canon_entry e)), canon_entry e)) es))"
    by (rule sort_key_map) auto
  then have "into_canonical (Map es)
      = Map (sort_key (\<lambda>e. keybuf (fst e)) (map snd (map (\<lambda>e. (keybuf (fst (canon_entry e)), canon_entry e)) es)))"
    by (simp only: into_canonical.simps tag)
  then show ?thesis
    by (simp add: comp_def)
qed

lemma encode_error_unique: "encode_canonical v = Inl e \<Longrightarrow> e = Cbor ''duplicate map key''"
proof (induction v)
  case (Array vs)
  then show ?case
    by (auto simp: encode_canonical_Array result_simps dest: try_map_Inl_member)
next
  case (Map es)
  then show ?case
    by (fastforce simp: encode_canonical_Map encode_pair_def result_simps
        split: if_splits dest: try_map_Inl_member)
qed simp_all

lemma try_map_all_ok: "(\<exists>ys. try_map f xs = Inr ys) \<longleftrightarrow> (\<forall>x\<in>set xs. is_ok (f x))"
proof (induction xs)
  case Nil
  then show ?case by simp
next
  case (Cons x xs)
  then show ?case by (auto simp: result_simps is_ok_iff)
qed

lemma try_map_fails_same:
  assumes "\<not> (\<forall>x\<in>set xs. is_ok (f x))" and "set ys = set xs" and "\<And>x e. f x = Inl e \<Longrightarrow> e = c"
  shows "try_map f xs = Inl c" and "try_map f ys = Inl c"
proof -
  have "try_map f zs = Inl c" if z: "set zs = set xs" for zs
  proof (cases "try_map f zs")
    case (Inl e)
    then show ?thesis
      using assms(3) by (auto dest: try_map_Inl_member)
  next
    case (Inr r)
    then show ?thesis
      using try_map_all_ok [of f zs] assms(1) z by auto
  qed
  then show "try_map f xs = Inl c" and "try_map f ys = Inl c"
    using assms(2) by simp_all
qed

lemma encode_pair_error: "encode_pair e = Inl err \<Longrightarrow> err = Cbor ''duplicate map key''"
  by (auto simp: encode_pair_def result_simps dest: encode_error_unique)

lemma encode_pair_ok:
  "is_ok (encode_pair e) \<Longrightarrow> encode_pair e = Inr (keybuf (fst e), keybuf (snd e))"
  by (auto simp: encode_pair_def result_simps is_ok_iff dest: encode_canonical_keybuf)

text \<open>The order in which a map's entries are given does not show in its encoding.\<close>

lemma encode_Map_sort:
  "encode_canonical (Map (sort_key (\<lambda>e. keybuf (fst e)) es)) = encode_canonical (Map es)"
proof (cases "\<forall>e\<in>set es. is_ok (encode_pair e)")
  case True
  let ?pair = "\<lambda>e. (keybuf (fst e), keybuf (snd e))" and ?key = "\<lambda>e. keybuf (fst e)"
  have pairs: "try_map encode_pair xs = Inr (map ?pair xs)" if "set xs = set es" for xs
    unfolding try_map_eq_Inr using True that by (intro list_all2_eq_map encode_pair_ok) auto
  have "map ?pair (sort_key ?key es) = sort_key fst (map ?pair es)"
    by (rule sort_key_map) simp
  moreover have "sort_key fst (sort_key fst (map ?pair es)) = sort_key fst (map ?pair es)"
    by (rule sort_key_sorted) simp
  ultimately show ?thesis
    by (simp add: encode_canonical_Map pairs)
next
  case False
  then show ?thesis
    using try_map_fails_same [OF False _ encode_pair_error, of "sort_key (\<lambda>e. keybuf (fst e)) es"]
    by (simp add: encode_canonical_Map)
qed

lemma try_map_map: "try_map f (map g xs) = try_map (\<lambda>x. f (g x)) xs"
  by (induction xs) simp_all

lemma encode_into_canonical: "encode_canonical (into_canonical v) = encode_canonical v"
proof (induction v)
  case (Array vs)
  then have "try_map encode_canonical (map into_canonical vs) = try_map encode_canonical vs"
    unfolding try_map_map by (intro try_map_cong) simp_all
  then show ?case
    by (simp add: encode_canonical_Array)
next
  case (Map es)
  then have "try_map encode_pair (map canon_entry es) = try_map encode_pair es"
    unfolding try_map_map by (intro try_map_cong) (simp_all add: encode_pair_def canon_entry_def)
  then show ?case
    by (simp only: into_canonical_Map encode_Map_sort) (simp add: encode_canonical_Map cong: if_cong)
qed simp_all

lemma canonical_into_canonical:
  "encode_canonical v = Inr b \<Longrightarrow> canonical (into_canonical v)"
proof (induction v arbitrary: b)
  case (Array vs)
  then show ?case
    by (fastforce simp: encode_canonical_Array result_simps list_all_iff list_all2_conv_all_nth in_set_conv_nth)
next
  case (Map es)
  let ?key = "\<lambda>e. keybuf (fst e)" and ?es = "sort_key (\<lambda>e. keybuf (fst e)) (map canon_entry es)"
  obtain pairs where pairs: "try_map encode_pair es = Inr pairs"
      and nodup: "\<not> adjacent_dup (map fst (sort_key fst pairs))"
    using Map.prems by (auto simp: encode_canonical_Map result_simps split: if_splits)
  have ok: "is_ok (encode_pair e)" if "e \<in> set es" for e
    using pairs that try_map_all_ok [of encode_pair es] by auto
  have entries: "canonical (fst (canon_entry e)) \<and> canonical (snd (canon_entry e))" if "e \<in> set es" for e
    using Map.IH [OF that] ok [OF that] by (auto simp: canon_entry_def encode_pair_def result_simps is_ok_iff)
  have keep: "keybuf (into_canonical k) = keybuf k" if "is_ok (encode_canonical k)" for k
    using that encode_into_canonical [of k] encode_canonical_keybuf unfolding is_ok_iff by metis
  have "try_map encode_pair es = Inr (map (\<lambda>e. (keybuf (fst e), keybuf (snd e))) es)"
    unfolding try_map_eq_Inr using ok by (intro list_all2_eq_map encode_pair_ok) auto
  moreover have "keybuf (fst (canon_entry e)) = keybuf (fst e) \<and> keybuf (snd (canon_entry e)) = keybuf (snd e)"
    if "e \<in> set es" for e
    using ok [OF that] keep by (auto simp: canon_entry_def encode_pair_def is_ok_iff result_simps)
  ultimately have "pairs = map (\<lambda>e. (keybuf (fst e), keybuf (snd e))) (map canon_entry es)"
    using pairs by simp
  then have "sort_key fst pairs = map (\<lambda>e. (keybuf (fst e), keybuf (snd e))) ?es"
    using sort_key_map [of "map canon_entry es" fst "\<lambda>e. (keybuf (fst e), keybuf (snd e))" ?key]
    by (simp only: fst_conv)
  then have "map fst (sort_key fst pairs) = map ?key ?es"
    by (simp add: comp_def)
  moreover have "sorted (map ?key ?es)"
    by (rule sorted_sort_key)
  ultimately have "sorted_wrt (<) (map ?key ?es)"
    using nodup adjacent_dup_sorted by metis
  then show ?case
    using entries by (simp add: into_canonical_Map list_all_iff)
qed simp_all

lemma into_canonical_id: "canonical v \<Longrightarrow> into_canonical v = v"
proof (induction v)
  case (Array vs)
  then show ?case by (simp add: list_all_iff map_idI)
next
  case (Map es)
  then have "map canon_entry es = es"
    by (intro map_idI) (simp add: canon_entry_def list_all_iff)
  moreover have "sorted (map (\<lambda>e. keybuf (fst e)) es)"
    using Map.prems sorted_wrt_mono_rel [of _ "(<)" "(\<le>)"] by (metis canonical.simps(2) order.strict_implies_order)
  ultimately show ?case
    by (simp add: into_canonical_Map sort_key_sorted)
qed simp_all

lemma texts_valid_into_canonical [simp]: "texts_valid (into_canonical v) = texts_valid v"
  by (induction v) (simp_all add: into_canonical_Map canon_entry_def list_all_iff)

lemma vdepth_cong_set:
  "set vs = set ws \<Longrightarrow> vdepth (Array vs) = vdepth (Array ws)"
  "set es = set fs \<Longrightarrow> vdepth (Map es) = vdepth (Map fs)"
  using vdepth_Array_le vdepth_Map_le by (metis order_antisym order_refl)+

lemma vdepth_into_canonical [simp]: "vdepth (into_canonical v) = vdepth v"
proof (induction v)
  case (Array vs)
  then show ?case by (simp add: vdepth.simps(1) comp_def cong: map_cong)
next
  case (Map es)
  have "vdepth (into_canonical (Map es)) = vdepth (Map (map canon_entry es))"
    unfolding into_canonical_Map by (rule vdepth_cong_set) simp
  also have "\<dots> = vdepth (Map es)"
    using Map by (simp add: vdepth.simps(2) comp_def canon_entry_def cong: map_cong)
  finally show ?case .
qed simp_all

end
