(* ===== verification/CodecSpec.thy ===== *)
theory CodecSpec
  imports CodecLaws
begin

text \<open>
  The contract of a canonical codec, as a locale, its consequences for a client that hashes or
  compares encodings, and its interpretation on the kernel's CBOR codec; then the properties of the
  codec: round trip, uniqueness of accepted bytes, resource bounds, errors, and the integer
  conversions.
\<close>

section \<open>The contract of a canonical codec\<close>

locale canonical_codec =
  fixes enc :: "'v \<Rightarrow> 'e + bytes"
    and dec :: "bytes \<Rightarrow> 'e + 'v"
    and norm :: "'v \<Rightarrow> 'v"
    and fits :: "'v \<Rightarrow> bool"
    and small :: "bytes \<Rightarrow> bool"
  assumes dec_enc: "\<lbrakk>enc v = Inr bs; fits v; small bs\<rbrakk> \<Longrightarrow> dec bs = Inr (norm v)"
    and enc_dec: "dec bs = Inr v \<Longrightarrow> enc v = Inr bs"
    and dec_fits: "dec bs = Inr v \<Longrightarrow> fits v"
    and dec_norm: "dec bs = Inr v \<Longrightarrow> norm v = v"
begin

lemma bytes_unique: "\<lbrakk>dec bs = Inr v; dec bs' = Inr v\<rbrakk> \<Longrightarrow> bs = bs'"
  by (metis enc_dec sum.inject(2))

lemma same_bytes_same_value:
  "\<lbrakk>enc v = Inr bs; enc w = Inr bs; fits v; fits w; small bs\<rbrakk> \<Longrightarrow> norm v = norm w"
  by (metis dec_enc sum.inject(2))

lemma norm_injective:
  "\<lbrakk>enc v = Inr bs; enc w = Inr bs; fits v; fits w; small bs; norm v = v; norm w = w\<rbrakk> \<Longrightarrow> v = w"
  using same_bytes_same_value by metis

lemma dec_image: "small bs \<Longrightarrow> dec bs = Inr v \<longleftrightarrow> enc v = Inr bs \<and> fits v \<and> norm v = v"
  using dec_enc enc_dec dec_fits dec_norm by metis

text \<open>A parser that accepts only what some value encodes to never accepts a second spelling.\<close>

lemma reencode: "dec bs = Inr v \<Longrightarrow> and_then (dec bs) enc = Inr bs"
  using enc_dec by simp

end

section \<open>The kernel codec keeps the contract\<close>

definition decodable :: "val \<Rightarrow> bool" where
  "decodable v \<longleftrightarrow> texts_valid v \<and> vdepth v \<le> max_depth"

lemma decode_encode:
  assumes "encode_canonical v = Inr bs" and "decodable v" and "addressable bs"
  shows "decode_canonical bs = Inr (into_canonical v)"
proof -
  have "canonical (into_canonical v)"
    using assms(1) by (rule canonical_into_canonical)
  moreover have "keybuf (into_canonical v) = bs"
    using assms(1) by (intro encode_canonical_keybuf) (simp add: encode_into_canonical)
  ultimately show ?thesis
    using assms decode_keybuf [of "into_canonical v"] by (simp add: decodable_def max_depth_def)
qed

interpretation kernel_codec:
  canonical_codec encode_canonical decode_canonical into_canonical decodable addressable
proof unfold_locales
  fix bs v
  assume d: "decode_canonical bs = Inr v"
  note r = decode_canonicalD [OF d]
  show "encode_canonical v = Inr bs"
    using r canonical_encodes by metis
  show "decodable v"
    using r by (simp add: decodable_def max_depth_def)
  show "into_canonical v = v"
    using r into_canonical_id by simp
qed (rule decode_encode)

text \<open>C1. Round trip. What \<open>encode_canonical\<close> writes for a value of Rust's type (its texts are UTF-8)
  within the depth limit is decoded to that value with the entries of every map in canonical order,
  whatever order they were given in.\<close>

theorem decode_canonical_encode_canonical:
  assumes "encode_canonical v = Inr bs" and "texts_valid v" and "vdepth v \<le> max_depth"
    and "addressable bs"
  shows "decode_canonical bs = Inr (into_canonical v)"
  using assms by (intro kernel_codec.dec_enc) (simp_all add: decodable_def)

lemma decode_canonical_encode_canonical_witness:
  "decode_canonical [0xA2, 0x01, 0xF6, 0x61, 0x61, 0x18, 0x18]
   = Inr (Map [(Uint 1, Null), (Text (str ''a''), Uint 24)])"
  using decode_canonical_encode_canonical
    [of "Map [(Text (str ''a''), Uint 24), (Uint 1, Null)]" "[0xA2, 0x01, 0xF6, 0x61, 0x61, 0x18, 0x18]"]
  by code_simp

text \<open>C2. Strictness. An accepted input is exactly the canonical encoding of the value it decodes to,
  and that value is in canonical form; so no value has two accepted spellings.\<close>

theorem decode_canonical_strict:
  assumes "decode_canonical bs = Inr v"
  shows "encode_canonical v = Inr bs \<and> into_canonical v = v
    \<and> (\<forall>bs'. decode_canonical bs' = Inr v \<longrightarrow> bs' = bs)"
  using assms kernel_codec.enc_dec kernel_codec.dec_norm kernel_codec.bytes_unique by blast

lemma decode_canonical_strict_witness:
  "encode_canonical (Array [Uint 500, Bool True]) = Inr [0x82, 0x19, 0x01, 0xF4, 0xF5]"
proof -
  have "decode_canonical [0x82, 0x19, 0x01, 0xF4, 0xF5] = Inr (Array [Uint 500, Bool True])"
    by code_simp
  then show ?thesis
    by (rule decode_canonical_strict [THEN conjunct1])
qed

text \<open>C3. Reordering with \<open>into_canonical\<close> never changes the encoding, nor whether there is one; doing
  it twice is doing it once on every value that encodes.\<close>

theorem into_canonical_keeps_encoding:
  "encode_canonical (into_canonical v) = encode_canonical v
   \<and> (is_ok (encode_canonical v) \<longrightarrow> into_canonical (into_canonical v) = into_canonical v)"
  using encode_into_canonical canonical_into_canonical into_canonical_id by (auto simp: is_ok_iff)

lemma into_canonical_keeps_encoding_witness:
  "into_canonical (into_canonical (Map [(Text (str ''b''), Null), (Uint 1, Null)]))
   = Map [(Uint 1, Null), (Text (str ''b''), Null)]"
  using into_canonical_keeps_encoding [of "Map [(Text (str ''b''), Null), (Uint 1, Null)]"]
  by code_simp

section \<open>Resource bounds\<close>

fun nodes :: "val \<Rightarrow> nat" where
  "nodes (Array vs) = Suc (sum_list (map nodes vs))"
| "nodes (Map es) = Suc (sum_list (map (\<lambda>e. nodes (fst e) + nodes (snd e)) es))"
| "nodes _ = 1"

lemma head_length_ge: "1 \<le> length (head m n)"
  by (simp add: head_eq)

lemma nodes_le_keybuf: "canonical v \<Longrightarrow> nodes v \<le> length (keybuf v)"
proof (induction v)
  case (Array vs)
  then have "sum_list (map nodes vs) \<le> sum_list (map (\<lambda>v. length (keybuf v)) vs)"
    by (intro sum_list_mono) (simp add: list_all_iff)
  then show ?case
    using Array.prems head_length_ge [of 4 "word_of_nat (length vs)"]
    by (simp add: keybuf_Array length_concat comp_def)
next
  case (Map es)
  then have "sum_list (map (\<lambda>e. nodes (fst e) + nodes (snd e)) es)
      \<le> sum_list (map (\<lambda>e. length (keybuf (fst e)) + length (keybuf (snd e))) es)"
    by (intro sum_list_mono add_mono) (simp_all add: list_all_iff)
  then show ?case
    using Map.prems head_length_ge [of 5 "word_of_nat (length es)"]
    by (simp add: keybuf_Map length_concat comp_def)
qed (simp_all add: keybuf_simps head_length_ge trans_le_add1 Suc_le_eq)

text \<open>C4. Bounded decoding. A decoded value is at most 64 levels deep and has no more nodes than the
  input has bytes: no length field makes the decoder build more than the input pays for.\<close>

theorem decode_canonical_bounded:
  assumes "decode_canonical bs = Inr v"
  shows "vdepth v \<le> 64 \<and> nodes v \<le> length bs"
  using decode_canonicalD [OF assms] nodes_le_keybuf by metis

lemma decode_canonical_bounded_witness:
  "vdepth (Array [Array [], Uint 0]) \<le> 64 \<and> nodes (Array [Array [], Uint 0]) \<le> 3"
  using decode_canonical_bounded [of "[0x82, 0x80, 0x00]" "Array [Array [], Uint 0]"] by code_simp

section \<open>Errors of the encoder\<close>

lemma adjacent_dup_iff: "sorted xs \<Longrightarrow> adjacent_dup xs \<longleftrightarrow> \<not> distinct (xs :: 'a::linorder list)"
  using adjacent_dup_sorted [of xs] strict_sorted_iff [of xs] by blast

lemma encode_Map_ok_iff:
  "is_ok (encode_canonical (Map es)) \<longleftrightarrow>
   (\<forall>e\<in>set es. is_ok (encode_canonical (fst e)) \<and> is_ok (encode_canonical (snd e)))
   \<and> distinct (map (\<lambda>e. encode_canonical (fst e)) es)"
proof (cases "\<forall>e\<in>set es. is_ok (encode_canonical (fst e)) \<and> is_ok (encode_canonical (snd e))")
  case True
  then have "encode_pair e = Inr (keybuf (fst e), keybuf (snd e))" if "e \<in> set es" for e
    using that by (intro encode_pair_ok) (auto simp: encode_pair_def is_ok_iff)
  then have pairs: "try_map encode_pair es = Inr (map (\<lambda>e. (keybuf (fst e), keybuf (snd e))) es)"
    by (simp add: try_map_eq_Inr list_all2_eq_map)
  have "map fst (sort_key fst ps) = sort (map fst ps)" for ps :: "(bytes \<times> bytes) list"
    by (rule sort_key_map) simp
  then have "is_ok (encode_canonical (Map es)) \<longleftrightarrow> distinct (map (\<lambda>e. keybuf (fst e)) es)"
    by (simp add: encode_canonical_Map pairs adjacent_dup_iff comp_def)
  moreover have "map (\<lambda>e. encode_canonical (fst e)) es = map Inr (map (\<lambda>e. keybuf (fst e)) es)"
    using True encode_canonical_keybuf by (fastforce simp: is_ok_iff)
  then have "distinct (map (\<lambda>e. encode_canonical (fst e)) es) \<longleftrightarrow> distinct (map (\<lambda>e. keybuf (fst e)) es)"
    by (simp only: distinct_map [of Inr]) (simp add: inj_on_def)
  ultimately show ?thesis
    using True by blast
next
  case False
  then obtain e where "e \<in> set es" and "\<not> is_ok (encode_pair e)"
    by (auto simp: encode_pair_def is_ok_iff result_simps)
  then have "try_map encode_pair es \<noteq> Inr ps" for ps
    using try_map_all_ok [of encode_pair es] by blast
  then have "\<not> is_ok (encode_canonical (Map es))"
    by (cases "try_map encode_pair es") (auto simp: encode_canonical_Map)
  with False show ?thesis by blast
qed



section \<open>Signed integers\<close>

lemma i64_range: "- (2 ^ 63) \<le> sint (x :: i64)" "sint (x :: i64) < 2 ^ 63"
  using sint_ge [of x] sint_less [of x] by simp_all

lemma i64_nonneg: "0 \<le> sint (x :: i64) \<Longrightarrow> uint x = sint x"
  using sint_less [of x] by (simp add: uint_sint take_bit_int_eq_self)

lemma i64_max_iff: "x \<le> i64_max \<longleftrightarrow> uint (x :: i64) < 2 ^ 63"
  by (auto simp: i64_max_def word_le_def)

lemma sint_word_of_int_i64: "\<lbrakk>- (2 ^ 63) \<le> i; i < 2 ^ 63\<rbrakk> \<Longrightarrow> sint (word_of_int i :: i64) = i"
  by (simp add: signed_of_int signed_take_bit_int_eq_self)

lemma uint_word_of_int_i64: "\<lbrakk>0 \<le> i; i < 2 ^ 63\<rbrakk> \<Longrightarrow> uint (word_of_int i :: i64) = i"
  by (simp add: unsigned_of_int take_bit_int_eq_self)

lemma as_i64_of_from_i64: "as_i64 (from_i64 x) = Some x"
proof (cases "0 \<le> sint x")
  case True
  then show ?thesis
    using i64_range [of x] i64_nonneg [of x] by (simp add: from_i64_def i64_max_iff)
next
  case False
  then have "uint (word_of_int (- 1 - sint x) :: i64) = - 1 - sint x"
    using i64_range [of x] by (intro uint_word_of_int_i64) simp_all
  with False show ?thesis
    using i64_range [of x] by (simp add: from_i64_def i64_max_iff del: of_int_diff)
qed

lemma from_i64_of_as_i64: "as_i64 v = Some x \<Longrightarrow> from_i64 x = v"
proof (cases v)
  case (Uint n)
  assume "as_i64 v = Some x"
  then have "x = n" and "uint n < 2 ^ 63"
    using Uint by (auto simp: i64_max_iff split: if_splits)
  moreover have "sint n = uint n"
    using \<open>uint n < 2 ^ 63\<close> sint_word_of_int_i64 [OF order_trans [OF _ uint_ge_0 [of n]]] by simp
  ultimately show ?thesis
    using Uint by (simp add: from_i64_def)
next
  case (Nint n)
  assume "as_i64 v = Some x"
  then have x: "x = word_of_int (- 1 - uint n)" and n: "uint n < 2 ^ 63"
    using Nint by (auto simp: i64_max_iff split: if_splits)
  then have "sint x = - 1 - uint n"
    unfolding x by (intro sint_word_of_int_i64) (use uint_ge_0 [of n] in linarith)+
  moreover from this have "\<not> 0 \<le> sint x"
    using uint_ge_0 [of n] by linarith
  ultimately show ?thesis
    using Nint by (simp add: from_i64_def)
qed simp_all

text \<open>\<open>from_i64\<close> and \<open>as_i64\<close> are inverse over the whole range of \<open>i64\<close>, its minimum included: every
  integer is read back, and a value that reads as an integer is the one built from it.\<close>

theorem as_i64_from_i64: "as_i64 v = Some x \<longleftrightarrow> v = from_i64 x"
  using as_i64_of_from_i64 from_i64_of_as_i64 by blast

end
