(* ===== verification/Ids.thy ===== *)
theory Ids
  imports Codec
begin

unbundle bit_operations_syntax

text \<open>
  The identifier newtypes of \<open>crates/evermesh-kernel/src/ids.rs\<close> and their text forms: lowercase
  hex and the blob URI \<open>b3-256:<hex>\<close>.  The Rust types hold \<open>[u8; 32]\<close>; here the bytes are a list and
  \<open>id32\<close> states its length.
\<close>

section \<open>The newtypes\<close>

datatype record_id = RecordId (record_id_bytes: bytes)
datatype blob_id = BlobId (blob_id_bytes: bytes)
datatype identity_id = IdentityId (identity_id_bytes: bytes)

definition id32 :: "bytes \<Rightarrow> bool" where
  "id32 bs \<longleftrightarrow> length bs = 32"

text \<open>The derived order of a record id is the order of its bytes.\<close>

instantiation record_id :: linorder
begin

definition less_eq_record_id :: "record_id \<Rightarrow> record_id \<Rightarrow> bool" where
  "less_eq_record_id a b \<longleftrightarrow> record_id_bytes a \<le> record_id_bytes b"

definition less_record_id :: "record_id \<Rightarrow> record_id \<Rightarrow> bool" where
  "less_record_id a b \<longleftrightarrow> record_id_bytes a < record_id_bytes b"

instance
  by standard (auto simp: less_eq_record_id_def less_record_id_def intro: record_id.expand)

end

definition identity_zero :: identity_id where
  "identity_zero = IdentityId (replicate 32 0)"

section \<open>Hexadecimal\<close>

definition hex_char :: "u8 \<Rightarrow> u8" where
  "hex_char n = (if n < 10 then 0x30 + n else 0x57 + n)"

definition id_to_hex :: "bytes \<Rightarrow> bytes" where
  "id_to_hex bs = concat (map (\<lambda>b. [hex_char (drop_bit 4 b), hex_char (b AND 0x0F)]) bs)"

definition to_digit16 :: "u8 \<Rightarrow> u8 option" where
  "to_digit16 b =
     (if 0x30 \<le> b \<and> b \<le> 0x39 then Some (b - 0x30)
      else if 0x61 \<le> b \<and> b \<le> 0x66 then Some (b - 0x57)
      else if 0x41 \<le> b \<and> b \<le> 0x46 then Some (b - 0x37)
      else None)"

fun from_hex_pairs :: "bytes \<Rightarrow> bytes option" where
  "from_hex_pairs (h # l # rest) =
     Option.bind (to_digit16 h) (\<lambda>hi.
     Option.bind (to_digit16 l) (\<lambda>lo.
     Option.bind (from_hex_pairs rest) (\<lambda>out. Some ((push_bit 4 hi OR lo) # out))))"
| "from_hex_pairs _ = Some []"

definition id_from_hex :: "bytes \<Rightarrow> bytes option" where
  "id_from_hex hex = (if length hex \<noteq> 64 then None else from_hex_pairs hex)"

definition strip_prefix :: "bytes \<Rightarrow> bytes \<Rightarrow> bytes option" where
  "strip_prefix p s = (if take (length p) s = p then Some (drop (length p) s) else None)"

definition blob_to_uri :: "blob_id \<Rightarrow> bytes" where
  "blob_to_uri b = str ''b3-256:'' @ id_to_hex (blob_id_bytes b)"

definition blob_from_uri :: "bytes \<Rightarrow> blob_id option" where
  "blob_from_uri s =
     Option.bind (strip_prefix (str ''b3-256:'') s) (\<lambda>h. map_option BlobId (id_from_hex h))"

section \<open>Round trips\<close>

lemma strip_prefix_append [simp]: "strip_prefix p (p @ s) = Some s"
  by (simp add: strip_prefix_def)

lemma strip_prefix_eq_Some: "strip_prefix p s = Some r \<longleftrightarrow> s = p @ r"
  by (auto simp: strip_prefix_def) (metis append_take_drop_id)

text \<open>The ASCII lower-casing of a hex string: what \<open>id_to_hex\<close> gives back of an accepted text.\<close>

definition ascii_lower :: "u8 \<Rightarrow> u8" where
  "ascii_lower b = (if 0x41 \<le> b \<and> b \<le> 0x5A then b + 0x20 else b)"

text \<open>Facts about all nibbles or all digits, by evaluation on the sixteen or twenty-two of them.\<close>

lemma word_upto:
  assumes "list_all P (map word_of_nat [m..<n])" and "m \<le> unat b" and "unat b < n"
  shows "P (b :: u8)"
proof -
  have "b = word_of_nat (unat b)"
    by simp
  with assms show ?thesis
    by (simp only: list_all_iff set_map set_upt) (metis atLeastLessThan_iff image_eqI)
qed

lemma nibble_digit: "n < 16 \<Longrightarrow> to_digit16 (hex_char n) = Some n"
  by (rule word_upto [where m = 0 and n = 16]) (code_simp, simp_all add: word_less_nat_alt)

lemma and_0F: "x AND 0x0F = take_bit 4 (x :: u8)"
  by (simp add: take_bit_eq_mask mask_eq_exp_minus_1)

lemma nibbles_less: "drop_bit 4 b < (16 :: u8)" "b AND 0x0F < (16 :: u8)"
proof -
  have "unat (drop_bit 4 b) < 16"
    using unat_u8_less [of b] unfolding unsigned_drop_bit_eq by (simp add: drop_bit_eq_div take_bit_nat_eq_self)
  then show "drop_bit 4 b < 16"
    by (simp add: word_less_nat_alt)
  have "unat (b AND 0x0F) < 2 ^ 4"
    by (simp only: and_0F unsigned_take_bit_eq take_bit_nat_less_exp)
  then show "b AND 0x0F < 16"
    by (simp add: word_less_nat_alt)
qed

lemma nibbles_join: "push_bit 4 (drop_bit 4 b) OR (b AND 0x0F) = (b :: u8)"
  by (auto simp: and_0F bit_eq_iff bit_simps)

lemma digit_hex: "to_digit16 b = Some d \<Longrightarrow> d < 16 \<and> hex_char d = ascii_lower b"
proof -
  let ?P = "\<lambda>b. case to_digit16 b of None \<Rightarrow> True | Some d \<Rightarrow> d < 16 \<and> hex_char d = ascii_lower b"
  assume b: "to_digit16 b = Some d"
  consider "0x30 \<le> unat b" "unat b < 0x3A" | "0x61 \<le> unat b" "unat b < 0x67"
    | "0x41 \<le> unat b" "unat b < 0x47"
    using b by (auto simp: to_digit16_def word_le_nat_alt split: if_splits)
  then have "?P b"
  proof cases
    case 1
    then show ?thesis
      by (intro word_upto [where P = ?P and m = "0x30" and n = "0x3A"]) code_simp
  next
    case 2
    then show ?thesis
      by (intro word_upto [where P = ?P and m = "0x61" and n = "0x67"]) code_simp
  next
    case 3
    then show ?thesis
      by (intro word_upto [where P = ?P and m = "0x41" and n = "0x47"]) code_simp
  qed
  then show ?thesis
    by (simp add: b)
qed

lemma nibbles:
  assumes "h < 16" and "l < (16 :: u8)"
  shows "drop_bit 4 (push_bit 4 h OR l) = h" and "(push_bit 4 h OR l) AND 0x0F = l"
proof -
  have low: "take_bit 4 x = x" if "x < (16 :: u8)" for x :: u8
    using that
    by (intro word_unat_eq_iff [THEN iffD2])
      (simp add: unsigned_take_bit_eq word_less_nat_alt take_bit_nat_eq_self)
  have l: "k < 4" if "bit l k" for k
    using that low [OF assms(2)] by (metis bit_take_bit_iff)
  have h: "k < 4" if "bit h k" for k
    using that low [OF assms(1)] by (metis bit_take_bit_iff)
  show "drop_bit 4 (push_bit 4 h OR l) = h"
    using l h by (fastforce simp: bit_eq_iff bit_simps)
  show "(push_bit 4 h OR l) AND 0x0F = l"
    using l by (auto simp: and_0F bit_eq_iff bit_simps)
qed

lemma length_id_to_hex [simp]: "length (id_to_hex bs) = 2 * length bs"
  by (induction bs) (simp_all add: id_to_hex_def)

lemma from_hex_pairs_id_to_hex [simp]: "from_hex_pairs (id_to_hex bs) = Some bs"
  by (induction bs) (simp_all add: id_to_hex_def nibble_digit nibbles_less nibbles_join)

lemma from_hex_pairs_Some:
  "from_hex_pairs s = Some out \<Longrightarrow> even (length s) \<Longrightarrow> id_to_hex out = map ascii_lower s"
proof (induction s arbitrary: out rule: from_hex_pairs.induct)
  case (1 h l rest)
  then obtain hi lo out' where "to_digit16 h = Some hi" and "to_digit16 l = Some lo"
      and "from_hex_pairs rest = Some out'" and "out = (push_bit 4 hi OR lo) # out'"
    by (auto simp: bind_eq_Some_conv)
  moreover from this have "hi < 16" "lo < 16" "hex_char hi = ascii_lower h" "hex_char lo = ascii_lower l"
    using digit_hex by blast+
  moreover have "id_to_hex out' = map ascii_lower rest"
    using 1 calculation by simp
  ultimately show ?case
    by (simp only: id_to_hex_def list.map concat.simps nibbles append.simps)
qed (simp_all add: id_to_hex_def)

lemma id_from_hex_Some:
  assumes "id_from_hex s = Some out"
  shows "id32 out" and "id_to_hex out = map ascii_lower s"
proof -
  from assms have len: "length s = 64" and pairs: "from_hex_pairs s = Some out"
    by (auto simp: id_from_hex_def split: if_splits)
  then show "id_to_hex out = map ascii_lower s"
    using from_hex_pairs_Some [of s out] by simp
  then have "2 * length out = 64"
    using len length_id_to_hex [of out] by simp
  then show "id32 out"
    by (simp add: id32_def)
qed

text \<open>C7. Hex text forms. A 32-byte id is read back from its hex form; an accepted text names a
  32-byte id whose own hex form is that text in lower case; and blob URIs round-trip the same way.\<close>

theorem hex_round_trip:
  "(id_from_hex (id_to_hex bs) = (if id32 bs then Some bs else None))
   \<and> (id_from_hex s = Some out \<longrightarrow> id32 out \<and> id_to_hex out = map ascii_lower s)
   \<and> (blob_from_uri (blob_to_uri b) = (if id32 (blob_id_bytes b) then Some b else None))
   \<and> (blob_from_uri u = Some b' \<longrightarrow> (\<exists>h. u = str ''b3-256:'' @ h \<and> blob_to_uri b' = str ''b3-256:'' @ map ascii_lower h))"
proof (intro conjI impI)
  show "id_from_hex (id_to_hex bs) = (if id32 bs then Some bs else None)" for bs
    by (simp add: id_from_hex_def id32_def)
  then show "blob_from_uri (blob_to_uri b) = (if id32 (blob_id_bytes b) then Some b else None)"
    by (simp add: blob_from_uri_def blob_to_uri_def)
  show "id32 out" "id_to_hex out = map ascii_lower s" if "id_from_hex s = Some out"
    using id_from_hex_Some [OF that] by simp_all
  show "\<exists>h. u = str ''b3-256:'' @ h \<and> blob_to_uri b' = str ''b3-256:'' @ map ascii_lower h"
    if "blob_from_uri u = Some b'"
    using that id_from_hex_Some
    by (fastforce simp: blob_from_uri_def blob_to_uri_def bind_eq_Some_conv strip_prefix_eq_Some)
qed

lemma hex_round_trip_witness:
  "id_to_hex (replicate 32 0xAB) = map ascii_lower (concat (replicate 32 (str ''Ab'')))"
proof -
  have "id_from_hex (concat (replicate 32 (str ''Ab''))) = Some (replicate 32 0xAB)"
    by code_simp
  then show ?thesis
    using hex_round_trip [of "[]" "concat (replicate 32 (str ''Ab''))" "replicate 32 0xAB"] by blast
qed

end
