(* ===== verification/Crypto.thy ===== *)
theory Crypto
  imports Ids
begin

text \<open>
  The cryptographic packages the kernel calls (\<open>blake3\<close>, \<open>ed25519_dalek\<close>, \<open>getrandom\<close>) are not
  part of the repository: they are a record of functions that every definition using them takes as
  an argument.  \<open>crypto_laws\<close> is what their documentation promises and the code relies on.
  \<open>Keypair\<close> of \<open>crates/evermesh-kernel/src/identity.rs\<close> is modelled over it.

  Panics of the code (\<open>expect\<close>) are values: a \<open>fault\<close> is a panic or a kernel error.
\<close>

section \<open>Panics\<close>

datatype fault = Panic string | Err error

definition lift :: "error + 'a \<Rightarrow> fault + 'a" where
  "lift r = (case r of Inl e \<Rightarrow> Inl (Err e) | Inr x \<Rightarrow> Inr x)"

definition expect :: "string \<Rightarrow> error + 'a \<Rightarrow> fault + 'a" where
  "expect msg r = (case r of Inl e \<Rightarrow> Inl (Panic msg) | Inr x \<Rightarrow> Inr x)"

lemma lift_simps [simp]: "lift (Inl e) = Inl (Err e)" "lift (Inr x) = Inr x"
  by (simp_all add: lift_def)

lemma lift_eq_Inr [result_simps]: "lift r = Inr x \<longleftrightarrow> r = Inr x"
  by (cases r) simp_all

lemma lift_eq_Inl [result_simps]: "lift r = Inl f \<longleftrightarrow> (\<exists>e. f = Err e \<and> r = Inl e)"
  by (cases r) auto

lemma expect_simps [simp]: "expect m (Inl e) = Inl (Panic m)" "expect m (Inr x) = Inr x"
  by (simp_all add: expect_def)

lemma expect_eq_Inr [result_simps]: "expect m r = Inr x \<longleftrightarrow> r = Inr x"
  by (cases r) simp_all

section \<open>The external packages\<close>

record crypto =
  blake3 :: "bytes \<Rightarrow> bytes"
  vk_from_bytes_ok :: "bytes \<Rightarrow> bool"
  verify_strict :: "bytes \<Rightarrow> bytes \<Rightarrow> bytes \<Rightarrow> bool"
  sk_verifying_key :: "bytes \<Rightarrow> bytes"
  sk_sign :: "bytes \<Rightarrow> bytes \<Rightarrow> bytes"

text \<open>
  BLAKE3-256 returns 32 bytes; an Ed25519 public key has 32 bytes and is accepted as a verifying
  key, a signature has 64 bytes and verifies under the signer's key for the signed message.
\<close>

definition crypto_laws :: "crypto \<Rightarrow> bool" where
  "crypto_laws c \<longleftrightarrow>
     (\<forall>m. length (blake3 c m) = 32)
     \<and> (\<forall>sk. length sk = 32 \<longrightarrow>
          length (sk_verifying_key c sk) = 32
          \<and> vk_from_bytes_ok c (sk_verifying_key c sk)
          \<and> (\<forall>m. length (sk_sign c sk m) = 64
               \<and> verify_strict c (sk_verifying_key c sk) m (sk_sign c sk m)))"

lemma crypto_lawsD:
  assumes "crypto_laws c"
  shows "length (blake3 c m) = 32"
    and "length sk = 32 \<Longrightarrow> length (sk_verifying_key c sk) = 32"
    and "length sk = 32 \<Longrightarrow> vk_from_bytes_ok c (sk_verifying_key c sk)"
    and "length sk = 32 \<Longrightarrow> length (sk_sign c sk m) = 64"
    and "length sk = 32 \<Longrightarrow> verify_strict c (sk_verifying_key c sk) m (sk_sign c sk m)"
  using assms by (simp_all add: crypto_laws_def)

text \<open>
  A concrete instance for the witnesses: bytes added up in 32 rotating cells as the hash, the secret
  itself as the public key, and the key with the hash of the message as the signature.
\<close>

fun toy_mix :: "bytes \<Rightarrow> bytes \<Rightarrow> bytes" where
  "toy_mix acc [] = acc"
| "toy_mix acc (b # bs) = toy_mix (tl acc @ [hd acc + b]) bs"

definition toy_hash :: "bytes \<Rightarrow> bytes" where
  "toy_hash m = toy_mix (replicate 31 0 @ [1]) m"

lemma length_toy_hash [simp]: "length (toy_hash m) = 32"
proof -
  have "acc \<noteq> [] \<Longrightarrow> length (toy_mix acc m) = length acc" for acc
    by (induction m arbitrary: acc) simp_all
  then show ?thesis
    by (simp add: toy_hash_def)
qed

definition toy_crypto :: crypto where
  "toy_crypto =
     \<lparr> blake3 = toy_hash,
       vk_from_bytes_ok = (\<lambda>k. length k = 32),
       verify_strict = (\<lambda>k m s. s = k @ toy_hash m),
       sk_verifying_key = (\<lambda>sk. sk),
       sk_sign = (\<lambda>sk m. sk @ toy_hash m) \<rparr>"

lemma crypto_laws_toy: "crypto_laws toy_crypto"
  by (simp add: crypto_laws_def toy_crypto_def)

section \<open>Keypairs\<close>

datatype keypair = Keypair (signing: bytes)

text \<open>\<open>rng\<close> is what \<open>getrandom\<close> filled the buffer with, \<open>None\<close> if it failed.\<close>

definition generate :: "bytes option \<Rightarrow> error + keypair" where
  "generate rng = and_then (ok_or rng (Io ''rng unavailable'')) (\<lambda>secret. Inr (Keypair secret))"

definition from_secret_bytes :: "bytes \<Rightarrow> keypair" where
  "from_secret_bytes secret = Keypair secret"

definition secret_bytes :: "keypair \<Rightarrow> bytes" where
  "secret_bytes kp = signing kp"

definition public_key_bytes :: "crypto \<Rightarrow> keypair \<Rightarrow> bytes" where
  "public_key_bytes c kp = sk_verifying_key c (signing kp)"

definition sign :: "crypto \<Rightarrow> keypair \<Rightarrow> bytes \<Rightarrow> bytes" where
  "sign c kp msg = sk_sign c (signing kp) msg"

definition keypair_ok :: "keypair \<Rightarrow> bool" where
  "keypair_ok kp \<longleftrightarrow> length (signing kp) = 32"

lemma sign_ok:
  assumes "crypto_laws c" and "keypair_ok kp"
  shows "length (public_key_bytes c kp) = 32" and "vk_from_bytes_ok c (public_key_bytes c kp)"
    and "length (sign c kp m) = 64" and "verify_strict c (public_key_bytes c kp) m (sign c kp m)"
  using assms crypto_lawsD by (simp_all add: public_key_bytes_def sign_def keypair_ok_def)

end
