(* ===== verification/Envelope.thy ===== *)
theory Envelope
  imports CodecSpec Crypto
begin

text \<open>
  The record envelope of \<open>crates/evermesh-kernel/src/record.rs\<close>: refs, the author reference, the
  record with its value form, its id, wire form, parser and signature check, and the builder.

  The fields of the Rust \<open>Record\<close> are private: every record in the program was made by
  \<open>from_value\<close> or by \<open>sign_as\<close>.  \<open>wf_record\<close> is the invariant that both establish.
\<close>

section \<open>Refs and the author\<close>

definition SIG_ALG_ED25519 :: u64 where
  "SIG_ALG_ED25519 = 1"

definition RECORD_SIG_PREFIX :: bytes where
  "RECORD_SIG_PREFIX = str ''evermesh:record:v1''"

record eref =
  ref_type :: u64
  ref_hash :: bytes

definition ref_record :: "record_id \<Rightarrow> eref" where
  "ref_record i = \<lparr> ref_type = 0, ref_hash = record_id_bytes i \<rparr>"

definition ref_blob :: "blob_id \<Rightarrow> eref" where
  "ref_blob i = \<lparr> ref_type = 1, ref_hash = blob_id_bytes i \<rparr>"

definition is_record :: "eref \<Rightarrow> bool" where
  "is_record r \<longleftrightarrow> ref_type r = 0"

definition is_blob :: "eref \<Rightarrow> bool" where
  "is_blob r \<longleftrightarrow> ref_type r = 1"

definition ref_to_value :: "eref \<Rightarrow> val" where
  "ref_to_value r = Array [Uint (ref_type r), Bytes (ref_hash r)]"

definition ref_from_value :: "val \<Rightarrow> error + eref" where
  "ref_from_value v =
     and_then (ok_or (as_array v) (Envelope ''ref must be an array'')) (\<lambda>arr.
     if length arr \<noteq> 2 then Inl (Envelope ''ref must have exactly 2 elements'')
     else and_then (ok_or (as_u64 (arr ! 0)) (Envelope ''ref type must be a uint'')) (\<lambda>ty.
     if 1 < ty then Inl (Envelope ''unknown ref type'')
     else and_then (ok_or (as_bytes (arr ! 1)) (Envelope ''ref hash must be bytes'')) (\<lambda>bs.
     if length bs \<noteq> 32 then Inl (Envelope ''ref hash must be 32 bytes'')
     else Inr \<lparr> ref_type = ty, ref_hash = bs \<rparr>)))"

record identity_ref =
  author_id :: identity_id
  author_key :: bytes

definition identity_ref_to_value :: "identity_ref \<Rightarrow> val" where
  "identity_ref_to_value a = Array [Bytes (identity_id_bytes (author_id a)), Bytes (author_key a)]"

definition identity_ref_from_value :: "val \<Rightarrow> error + identity_ref" where
  "identity_ref_from_value v =
     and_then (ok_or (as_array v) (Envelope ''author must be an array'')) (\<lambda>arr.
     if length arr \<noteq> 2 then Inl (Envelope ''author must have exactly 2 elements'')
     else and_then (ok_or (as_bytes (arr ! 0)) (Envelope ''identity id must be bytes'')) (\<lambda>id_bytes.
     if length id_bytes \<noteq> 32 then Inl (Envelope ''identity id must be 32 bytes'')
     else and_then (ok_or (as_bytes (arr ! 1)) (Envelope ''signing key must be bytes'')) (\<lambda>key.
     Inr \<lparr> author_id = IdentityId id_bytes, author_key = key \<rparr>)))"

section \<open>Records\<close>

record erecord =
  r_kind :: u64
  r_author :: identity_ref
  r_created_at :: i64
  r_refs :: "eref list"
  r_body :: val
  r_sig_alg :: u64
  r_sig :: bytes

definition author_identity_id :: "erecord \<Rightarrow> bytes" where
  "author_identity_id r = identity_id_bytes (author_id (r_author r))"

definition ref_hashes :: "erecord \<Rightarrow> bytes list" where
  "ref_hashes r = map ref_hash (r_refs r)"

definition record_to_value :: "erecord \<Rightarrow> bool \<Rightarrow> val" where
  "record_to_value r with_sig =
     (let entries =
        [(Uint 1, Uint (r_kind r)),
         (Uint 2, identity_ref_to_value (r_author r)),
         (Uint 3, from_i64 (r_created_at r)),
         (Uint 4, Array (map ref_to_value (r_refs r))),
         (Uint 5, r_body r),
         (Uint 6, Uint (r_sig_alg r))]
      in Map (if with_sig then entries @ [(Uint 7, Bytes (r_sig r))] else entries))"

definition record_id_of :: "crypto \<Rightarrow> erecord \<Rightarrow> fault + record_id" where
  "record_id_of c r =
     and_then (expect ''envelope map has fixed unique keys'' (encode_canonical (record_to_value r False)))
       (\<lambda>bytes. Inr (RecordId (blake3 c bytes)))"

definition to_canonical_cbor :: "erecord \<Rightarrow> fault + bytes" where
  "to_canonical_cbor r =
     expect ''envelope map has fixed unique keys'' (encode_canonical (record_to_value r True))"

definition record_from_value :: "val \<Rightarrow> error + erecord" where
  "record_from_value v =
     and_then (ok_or (as_map v) (Envelope ''record must be a map'')) (\<lambda>m.
     if length m \<noteq> 7 then Inl (Envelope ''record must have exactly keys 1-7'')
     else if \<not> list_all (\<lambda>(i, k, _). as_u64 k = Some (word_of_nat i + 1)) (enumerate 0 m)
       then Inl (Envelope ''record must have exactly keys 1-7'')
     else
       and_then (ok_or (as_u64 (snd (m ! 0))) (Envelope ''kind must be a uint'')) (\<lambda>kind.
       and_then (identity_ref_from_value (snd (m ! 1))) (\<lambda>author.
       and_then (ok_or (as_i64 (snd (m ! 2))) (Envelope ''created_at must be an int64'')) (\<lambda>created.
       and_then (ok_or (as_array (snd (m ! 3))) (Envelope ''refs must be an array'')) (\<lambda>refs_arr.
       and_then (try_map ref_from_value refs_arr) (\<lambda>refs.
       let body = snd (m ! 4) in
       if as_map body = None then Inl (Envelope ''body must be a map'')
       else
         and_then (ok_or (as_u64 (snd (m ! 5))) (Envelope ''sig_alg must be a uint'')) (\<lambda>alg.
         and_then (ok_or (as_bytes (snd (m ! 6))) (Envelope ''sig must be bytes'')) (\<lambda>sg.
         Inr \<lparr> r_kind = kind, r_author = author, r_created_at = created, r_refs = refs,
               r_body = body, r_sig_alg = alg, r_sig = sg \<rparr>))))))))"

definition record_from_cbor :: "bytes \<Rightarrow> error + erecord" where
  "record_from_cbor bytes = and_then (decode_canonical bytes) record_from_value"

definition verify :: "crypto \<Rightarrow> erecord \<Rightarrow> fault + unit" where
  "verify c r =
     (if r_sig_alg r = SIG_ALG_ED25519 then
        (let key = author_key (r_author r) in
         if length key \<noteq> 32 then Inl (Err Signature)
         else if \<not> vk_from_bytes_ok c key then Inl (Err Signature)
         else if length (r_sig r) \<noteq> 64 then Inl (Err Signature)
         else and_then (record_id_of c r) (\<lambda>i.
           let msg = RECORD_SIG_PREFIX @ record_id_bytes i in
           if verify_strict c key msg (r_sig r) then Inr () else Inl (Err Signature)))
      else Inl (Err (UnknownAlgorithm (r_sig_alg r))))"

section \<open>The builder\<close>

record record_builder =
  b_kind :: u64
  b_created_at :: i64
  b_refs :: "eref list"
  b_body :: val

definition builder_new :: "u64 \<Rightarrow> record_builder" where
  "builder_new k = \<lparr> b_kind = k, b_created_at = 0, b_refs = [], b_body = Map [] \<rparr>"

definition builder_created_at :: "i64 \<Rightarrow> record_builder \<Rightarrow> record_builder" where
  "builder_created_at t b = b \<lparr> b_created_at := t \<rparr>"

definition builder_ref :: "eref \<Rightarrow> record_builder \<Rightarrow> record_builder" where
  "builder_ref r b = b \<lparr> b_refs := b_refs b @ [r] \<rparr>"

definition builder_refs :: "eref list \<Rightarrow> record_builder \<Rightarrow> record_builder" where
  "builder_refs rs b = b \<lparr> b_refs := rs \<rparr>"

definition builder_body :: "val \<Rightarrow> record_builder \<Rightarrow> record_builder" where
  "builder_body v b = b \<lparr> b_body := v \<rparr>"

definition sign_as :: "crypto \<Rightarrow> record_builder \<Rightarrow> keypair \<Rightarrow> identity_id \<Rightarrow> fault + erecord" where
  "sign_as c b kp identity =
     (if as_map (b_body b) = None then Inl (Err (Envelope ''body must be a map''))
      else
        let record =
          \<lparr> r_kind = b_kind b,
            r_author = \<lparr> author_id = identity, author_key = public_key_bytes c kp \<rparr>,
            r_created_at = b_created_at b, r_refs = b_refs b,
            r_body = into_canonical (b_body b), r_sig_alg = SIG_ALG_ED25519, r_sig = [] \<rparr>
        in and_then (lift (encode_canonical (record_to_value record False))) (\<lambda>_.
           and_then (record_id_of c record) (\<lambda>i.
           let msg = RECORD_SIG_PREFIX @ record_id_bytes i
           in Inr (record \<lparr> r_sig := sign c kp msg \<rparr>))))"

section \<open>The invariant of records\<close>

definition wf_ref :: "eref \<Rightarrow> bool" where
  "wf_ref r \<longleftrightarrow> ref_type r \<le> 1 \<and> length (ref_hash r) = 32"

definition wf_author :: "identity_ref \<Rightarrow> bool" where
  "wf_author a \<longleftrightarrow> length (identity_id_bytes (author_id a)) = 32"

definition wf_record :: "erecord \<Rightarrow> bool" where
  "wf_record r \<longleftrightarrow> wf_author (r_author r) \<and> list_all wf_ref (r_refs r)
     \<and> as_map (r_body r) \<noteq> None \<and> canonical (r_body r) \<and> texts_valid (r_body r)"

lemma ref_from_to_value [simp]: "wf_ref r \<Longrightarrow> ref_from_value (ref_to_value r) = Inr r"
  by (simp add: ref_from_value_def ref_to_value_def wf_ref_def not_less)

lemma ref_from_valueD:
  assumes "ref_from_value v = Inr r"
  shows "wf_ref r" and "ref_to_value r = v"
proof -
  obtain a b where "v = Array [Uint a, Bytes b]" and "a \<le> 1" and "length b = 32"
      and "r = \<lparr> ref_type = a, ref_hash = b \<rparr>"
  proof -
    from assms obtain arr a b where "as_array v = Some arr" and "length arr = 2"
        and "as_u64 (arr ! 0) = Some a" and "\<not> 1 < a" and "as_bytes (arr ! 1) = Some b"
        and "length b = 32" and "r = \<lparr> ref_type = a, ref_hash = b \<rparr>"
      by (auto simp: ref_from_value_def result_simps split: if_splits)
    moreover from this have "arr = [arr ! 0, arr ! 1]"
      by (cases arr; cases "tl arr") auto
    ultimately show thesis
      by (intro that [of a b]) (auto elim!: as_array.elims as_u64.elims as_bytes.elims)
  qed
  then show "wf_ref r" and "ref_to_value r = v"
    by (simp_all add: wf_ref_def ref_to_value_def)
qed

lemma identity_ref_from_to_value [simp]:
  "wf_author a \<Longrightarrow> identity_ref_from_value (identity_ref_to_value a) = Inr a"
  by (simp add: identity_ref_from_value_def identity_ref_to_value_def wf_author_def)

lemma identity_ref_from_valueD:
  assumes "identity_ref_from_value v = Inr a"
  shows "wf_author a" and "identity_ref_to_value a = v"
proof -
  from assms obtain arr i k where "as_array v = Some arr" and "length arr = 2"
      and "as_bytes (arr ! 0) = Some i" and "length i = 32" and "as_bytes (arr ! 1) = Some k"
      and "a = \<lparr> author_id = IdentityId i, author_key = k \<rparr>"
    by (auto simp: identity_ref_from_value_def result_simps split: if_splits)
  moreover from this have "arr = [arr ! 0, arr ! 1]"
    by (cases arr; cases "tl arr") auto
  ultimately show "wf_author a" and "identity_ref_to_value a = v"
    by (auto simp: wf_author_def identity_ref_to_value_def elim!: as_array.elims as_bytes.elims)
qed

lemma canonical_from_i64 [simp]: "canonical (from_i64 x)" "texts_valid (from_i64 x)" "vdepth (from_i64 x) = 0"
  by (simp_all add: from_i64_def)

lemma canonical_ref_to_value [simp]: "canonical (ref_to_value r)" "texts_valid (ref_to_value r)"
  "canonical (identity_ref_to_value a)" "texts_valid (identity_ref_to_value a)"
  by (simp_all add: ref_to_value_def identity_ref_to_value_def)

lemma vdepth_ref_to_value [simp]: "vdepth (ref_to_value r) = 1" "vdepth (identity_ref_to_value a) = 1"
  by (simp_all add: ref_to_value_def identity_ref_to_value_def vdepth.simps)

text \<open>The envelope's keys are the single bytes 1 to 7, so its map is in canonical order.\<close>

lemma envelope_keys:
  "head 0 1 = [1]" "head 0 2 = [2]" "head 0 3 = [3]" "head 0 4 = [4]"
  "head 0 5 = [5]" "head 0 6 = [6]" "head 0 7 = [7]"
  by code_simp+

lemma canonical_record_to_value:
  "canonical (r_body r) \<Longrightarrow> canonical (record_to_value r s)"
  by (simp add: record_to_value_def Let_def envelope_keys list_all_iff)

lemma texts_valid_record_to_value:
  "texts_valid (r_body r) \<Longrightarrow> texts_valid (record_to_value r s)"
  by (simp add: record_to_value_def Let_def list_all_iff)

lemma vdepth_refs: "vdepth (Array (map ref_to_value rs)) < 64"
  using vdepth_Array_le [of "map ref_to_value rs" 2] by simp

lemma vdepth_record_to_value: "vdepth (record_to_value r s) \<le> 64 \<longleftrightarrow> vdepth (r_body r) < 64"
  by (simp only: record_to_value_def Let_def vdepth_Map_le) (auto simp: vdepth_refs)

lemma record_encodes:
  "canonical (r_body r) \<Longrightarrow> encode_canonical (record_to_value r s) = Inr (keybuf (record_to_value r s))"
  by (simp add: canonical_encodes canonical_record_to_value)

lemma record_from_to_value:
  assumes "wf_record r"
  shows "record_from_value (record_to_value r True) = Inr r"
proof -
  have refs: "try_map ref_from_value (map ref_to_value (r_refs r)) = Inr (r_refs r)"
    using assms try_map_Inr_map [of "r_refs r" ref_from_value ref_to_value id]
    by (simp add: wf_record_def list_all_iff)
  show ?thesis
    using assms
    by (simp add: record_from_value_def record_to_value_def Let_def refs as_i64_of_from_i64
        wf_record_def nth_Cons' enumerate_eq_zip)
qed

lemma keys_1_to_7:
  assumes "length m = 7"
    and "list_all (\<lambda>(i, k, _). as_u64 k = Some (word_of_nat i + 1)) (enumerate 0 (m :: (val \<times> val) list))"
  obtains a b c d e f g where
    "m = [(Uint 1, a), (Uint 2, b), (Uint 3, c), (Uint 4, d), (Uint 5, e), (Uint 6, f), (Uint 7, g)]"
proof -
  have u: "as_u64 k = Some n \<Longrightarrow> k = Uint n" for k n
    by (cases k) simp_all
  obtain e1 e2 e3 e4 e5 e6 e7 where m: "m = [e1, e2, e3, e4, e5, e6, e7]"
    using assms(1) by (auto simp: length_Suc_conv eval_nat_numeral)
  show thesis
    using assms(2)
    by (intro that [of "snd e1" "snd e2" "snd e3" "snd e4" "snd e5" "snd e6" "snd e7"])
      (auto simp: m split_beta prod_eq_iff dest!: u)
qed

lemma record_from_valueD:
  assumes "record_from_value v = Inr r"
  shows "record_to_value r True = v" and "wf_author (r_author r)" and "list_all wf_ref (r_refs r)"
    and "as_map (r_body r) \<noteq> None"
proof -
  from assms obtain m where v: "as_map v = Some m" and len: "length m = 7"
      and keys: "list_all (\<lambda>(i, k, _). as_u64 k = Some (word_of_nat i + 1)) (enumerate 0 m)"
    by (auto simp: record_from_value_def result_simps split: if_splits)
  from len keys obtain a b c d e f g where m:
    "m = [(Uint 1, a), (Uint 2, b), (Uint 3, c), (Uint 4, d), (Uint 5, e), (Uint 6, f), (Uint 7, g)]"
    by (rule keys_1_to_7)
  from assms obtain kind author t arr refs alg sg where
      vals: "as_u64 a = Some kind" "identity_ref_from_value b = Inr author" "as_i64 c = Some t"
        "as_array d = Some arr" "try_map ref_from_value arr = Inr refs" "as_map e \<noteq> None"
        "as_u64 f = Some alg" "as_bytes g = Some sg"
      and r: "r = \<lparr> r_kind = kind, r_author = author, r_created_at = t, r_refs = refs,
               r_body = e, r_sig_alg = alg, r_sig = sg \<rparr>"
    unfolding record_from_value_def v by (auto simp: m Let_def result_simps split: if_splits)
  have refs: "list_all wf_ref refs" "map ref_to_value refs = arr"
    using vals(5) ref_from_valueD
    by (auto simp: result_simps list_all2_conv_all_nth list_all_length intro!: nth_equalityI)
  show "record_to_value r True = v"
    using v vals refs identity_ref_from_valueD [OF vals(2)] from_i64_of_as_i64 [OF vals(3)]
    by (auto simp: r m record_to_value_def Let_def
        elim!: as_map.elims as_u64.elims as_bytes.elims as_array.elims)
  show "wf_author (r_author r)" "list_all wf_ref (r_refs r)" "as_map (r_body r) \<noteq> None"
    using identity_ref_from_valueD [OF vals(2)] refs vals by (simp_all add: r)
qed

lemma record_from_cborD:
  assumes "record_from_cbor bs = Inr r"
  shows "wf_record r" and "vdepth (r_body r) < 64" and "keybuf (record_to_value r True) = bs"
proof -
  from assms obtain v where dec: "decode_canonical bs = Inr v" and rv: "record_from_value v = Inr r"
    by (auto simp: record_from_cbor_def result_simps)
  note v = decode_canonicalD [OF dec] and r = record_from_valueD [OF rv]
  have "canonical (record_to_value r True)" "texts_valid (record_to_value r True)"
    "vdepth (record_to_value r True) \<le> 64"
    using v r(1) by simp_all
  then have "canonical (r_body r)" "texts_valid (r_body r)" "vdepth (r_body r) < 64"
    by (simp_all only: vdepth_record_to_value) (simp_all add: record_to_value_def Let_def)
  then show "wf_record r" and "vdepth (r_body r) < 64" and "keybuf (record_to_value r True) = bs"
    using r v by (simp_all add: wf_record_def)
qed

lemma to_canonical_cbor_wf: "wf_record r \<Longrightarrow> to_canonical_cbor r = Inr (keybuf (record_to_value r True))"
  by (simp add: to_canonical_cbor_def wf_record_def record_encodes)

lemma record_id_of_wf:
  "wf_record r \<Longrightarrow> record_id_of c r = Inr (RecordId (blake3 c (keybuf (record_to_value r False))))"
  by (simp add: record_id_of_def wf_record_def record_encodes)

lemma length_unsigned:
  assumes "wf_record r"
  shows "length (keybuf (record_to_value r False)) \<le> length (keybuf (record_to_value r True))"
proof -
  have canon: "canonical (record_to_value r s)" for s
    using assms by (simp add: wf_record_def canonical_record_to_value)
  have "length (head 5 6) = length (head 5 7)"
    by code_simp
  then show ?thesis
    using keybuf_Map [OF canon [of True, unfolded record_to_value_def Let_def if_True]]
      keybuf_Map [OF canon [of False, unfolded record_to_value_def Let_def if_False]]
    by (simp add: record_to_value_def Let_def)
qed

lemma decodable_record_to_value:
  "\<lbrakk>wf_record r; vdepth (r_body r) < 64\<rbrakk> \<Longrightarrow> decodable (record_to_value r s)"
  by (simp add: decodable_def max_depth_def texts_valid_record_to_value vdepth_record_to_value wf_record_def)

text \<open>Hashing works on the unsigned envelope; its bytes determine it.\<close>

lemma unsigned_injective:
  assumes "wf_record r" "vdepth (r_body r) < 64" "addressable (keybuf (record_to_value r True))"
    and "wf_record r'" "vdepth (r_body r') < 64"
    and "keybuf (record_to_value r False) = keybuf (record_to_value r' False)"
  shows "record_to_value r False = record_to_value r' False"
proof (rule kernel_codec.norm_injective)
  show "encode_canonical (record_to_value r False) = Inr (keybuf (record_to_value r False))"
    and "encode_canonical (record_to_value r' False) = Inr (keybuf (record_to_value r False))"
    using assms by (simp_all add: wf_record_def record_encodes)
  show "addressable (keybuf (record_to_value r False))"
    using assms length_unsigned [of r] by (simp add: addressable_def)
qed (use assms in \<open>simp_all add: decodable_record_to_value into_canonical_id canonical_record_to_value wf_record_def\<close>)

lemma read_back:
  assumes "wf_record r" and "vdepth (r_body r) < 64" and "to_canonical_cbor r = Inr bs" and "addressable bs"
  shows "record_from_cbor bs = Inr r"
proof -
  have bs: "bs = keybuf (record_to_value r True)"
    using assms(1,3) by (simp add: to_canonical_cbor_wf)
  have "canonical (record_to_value r True)"
    using assms(1) by (simp add: wf_record_def canonical_record_to_value)
  then have "decode_canonical bs = Inr (record_to_value r True)"
    using assms unfolding bs
    by (intro decode_keybuf) (simp_all add: wf_record_def texts_valid_record_to_value vdepth_record_to_value)
  then show ?thesis
    using assms(1) by (simp add: record_from_cbor_def record_from_to_value)
qed

section \<open>Properties of records\<close>

text \<open>A concrete record, signed with the toy instance, for the witnesses.\<close>

definition sample_keys :: keypair where
  "sample_keys = from_secret_bytes (replicate 32 7)"

definition sample_record :: erecord where
  "sample_record =
     \<lparr> r_kind = 32,
       r_author = \<lparr> author_id = IdentityId (replicate 32 1), author_key = public_key_bytes toy_crypto sample_keys \<rparr>,
       r_created_at = - 5, r_refs = [], r_body = Map [(Text (str ''n''), Uint 30)],
       r_sig_alg = SIG_ALG_ED25519, r_sig = replicate 64 8 \<rparr>"

definition sample_wire :: bytes where
  "sample_wire = keybuf (record_to_value sample_record True)"

lemma sample_parses: "record_from_cbor sample_wire = Inr sample_record"
  by code_simp

lemma sample_addressable: "addressable sample_wire"
  by code_simp

text \<open>C8. The wire form. A parsed record is well formed and is written back as exactly the bytes it was
  read from; so two different byte strings never parse to the same record.\<close>

theorem record_from_cbor_exact:
  assumes "record_from_cbor bs = Inr r"
  shows "wf_record r \<and> to_canonical_cbor r = Inr bs
    \<and> (\<forall>bs'. record_from_cbor bs' = Inr r \<longrightarrow> bs' = bs)"
  using record_from_cborD [OF assms] record_from_cborD to_canonical_cbor_wf by fastforce

lemma record_from_cbor_exact_witness:
  "wf_record sample_record \<and> to_canonical_cbor sample_record = Inr sample_wire"
  using record_from_cbor_exact [OF sample_parses] by blast

text \<open>C9. Every well-formed record whose body stays under the decoder's depth limit is read back from
  its wire form, signature and all.\<close>

theorem record_from_cbor_to_cbor:
  assumes "wf_record r" and "vdepth (r_body r) < 64" and "to_canonical_cbor r = Inr bs" and "addressable bs"
  shows "record_from_cbor bs = Inr r"
  using assms by (rule read_back)

lemma record_from_cbor_to_cbor_witness: "record_from_cbor sample_wire = Inr sample_record"
proof (rule record_from_cbor_to_cbor)
  show "wf_record sample_record"
    by code_simp
  show "vdepth (r_body sample_record) < 64"
    by code_simp
  show "to_canonical_cbor sample_record = Inr sample_wire"
    using record_from_cborD [OF sample_parses] by (simp add: to_canonical_cbor_wf)
qed (rule sample_addressable)

lemma parsed_no_panic:
  assumes "record_from_cbor bs = Inr r"
  shows "is_ok (record_id_of c r) \<and> is_ok (to_canonical_cbor r)
    \<and> verify c r \<in> {Inr (), Inl (Err Signature), Inl (Err (UnknownAlgorithm (r_sig_alg r)))}"
  using record_from_cborD(1) [OF assms] by (auto simp: verify_def Let_def record_id_of_wf to_canonical_cbor_wf)

text \<open>C10. A record that came off the wire never makes the code panic: its id and its wire form exist,
  and the signature check ends in success or in one of its two errors.\<close>

theorem parsed_record_no_panic:
  assumes "record_from_cbor bs = Inr r"
  shows "is_ok (record_id_of c r) \<and> is_ok (to_canonical_cbor r)
    \<and> verify c r \<in> {Inr (), Inl (Err Signature), Inl (Err (UnknownAlgorithm (r_sig_alg r)))}"
  using assms by (rule parsed_no_panic)

lemma parsed_record_no_panic_witness: "is_ok (record_id_of toy_crypto sample_record)"
  using parsed_record_no_panic [OF sample_parses] by blast

text \<open>C11. The id commits to everything but the signature. Changing the signature leaves the id alone;
  and when the hash does not collide on the two unsigned envelopes, parsed records with the same id
  agree in kind, author, time, refs, body and algorithm.\<close>

theorem record_id_commits:
  fixes sg :: bytes
  assumes "record_from_cbor bs = Inr r" and "record_from_cbor bs' = Inr r'"
    and "addressable bs" and "addressable bs'"
    and "record_id_of c r = record_id_of c r'"
    and "inj_on (blake3 c) {keybuf (record_to_value r False), keybuf (record_to_value r' False)}"
  shows "r' \<lparr> r_sig := r_sig r \<rparr> = r \<and> record_id_of c (r \<lparr> r_sig := sg \<rparr>) = record_id_of c r"
proof -
  note r = record_from_cborD [OF assms(1)] and r' = record_from_cborD [OF assms(2)]
  have unsigned: "record_to_value (x \<lparr> r_sig := sg \<rparr>) False = record_to_value x False" for x sg
    by (simp add: record_to_value_def Let_def)
  have "keybuf (record_to_value r False) = keybuf (record_to_value r' False)"
    using assms(5,6) r(1) r'(1) by (auto simp: record_id_of_wf dest: inj_onD)
  then have "record_to_value r False = record_to_value r' False"
    using r r' assms(3,4) unsigned_injective by metis
  then have "record_to_value (r' \<lparr> r_sig := r_sig r \<rparr>) True = record_to_value r True"
    by (simp add: record_to_value_def Let_def)
  moreover have "wf_record (r' \<lparr> r_sig := r_sig r \<rparr>)"
    using r'(1) by (simp add: wf_record_def)
  ultimately have "r' \<lparr> r_sig := r_sig r \<rparr> = r"
    using record_from_to_value r(1) by (metis sum.inject(2))
  moreover have "record_id_of c (r \<lparr> r_sig := sg \<rparr>) = record_id_of c r"
    by (simp add: record_id_of_def unsigned)
  ultimately show ?thesis ..
qed

lemma record_id_commits_witness:
  "record_id_of toy_crypto (sample_record \<lparr> r_sig := [] \<rparr>) = record_id_of toy_crypto sample_record"
  using record_id_commits [OF sample_parses sample_parses sample_addressable sample_addressable, of toy_crypto "[]"]
  by simp

section \<open>Signing\<close>

lemma canonical_is_ok: "canonical v \<Longrightarrow> is_ok (encode_canonical v)"
  by (simp add: canonical_encodes)

lemma record_encodes_iff:
  "is_ok (encode_canonical (record_to_value r s)) \<longleftrightarrow> is_ok (encode_canonical (r_body r))"
proof -
  have "is_ok (encode_canonical (Array (map ref_to_value (r_refs r))))"
    by (intro canonical_is_ok) (simp add: list_all_iff)
  then show ?thesis
    unfolding record_to_value_def Let_def encode_Map_ok_iff
    by (simp add: canonical_is_ok envelope_keys)
qed

definition unsigned_record :: "crypto \<Rightarrow> record_builder \<Rightarrow> keypair \<Rightarrow> identity_id \<Rightarrow> erecord" where
  "unsigned_record c b kp i =
     \<lparr> r_kind = b_kind b, r_author = \<lparr> author_id = i, author_key = public_key_bytes c kp \<rparr>,
       r_created_at = b_created_at b, r_refs = b_refs b, r_body = into_canonical (b_body b),
       r_sig_alg = SIG_ALG_ED25519, r_sig = [] \<rparr>"

definition signed_record :: "crypto \<Rightarrow> record_builder \<Rightarrow> keypair \<Rightarrow> identity_id \<Rightarrow> erecord" where
  "signed_record c b kp i =
     (let r = unsigned_record c b kp i
      in r \<lparr> r_sig := sign c kp
             (RECORD_SIG_PREFIX @ blake3 c (keybuf (record_to_value r False))) \<rparr>)"

lemma as_map_into_canonical: "as_map (into_canonical v) = None \<longleftrightarrow> as_map v = None"
  by (cases v) (simp_all add: into_canonical_Map)

lemma sign_as_cases:
  "sign_as c b kp i =
     (if as_map (b_body b) = None then Inl (Err (Envelope ''body must be a map''))
      else if is_ok (encode_canonical (b_body b)) then Inr (signed_record c b kp i)
      else Inl (Err (Cbor ''duplicate map key'')))"
proof -
  let ?v = "record_to_value (unsigned_record c b kp i) False"
  have ok: "is_ok (encode_canonical ?v) \<longleftrightarrow> is_ok (encode_canonical (b_body b))"
    by (simp add: record_encodes_iff encode_into_canonical unsigned_record_def)
  have kb: "encode_canonical ?v = Inr x \<Longrightarrow> x = keybuf ?v" for x
    using encode_canonical_keybuf by simp
  show ?thesis
    unfolding sign_as_def Let_def unsigned_record_def [symmetric]
    using ok encode_error_unique [of ?v] kb
    by (cases "encode_canonical ?v") (auto simp: record_id_of_def signed_record_def Let_def)
qed

lemma wf_signed_record:
  assumes "as_map (b_body b) \<noteq> None" and "is_ok (encode_canonical (b_body b))"
    and "list_all wf_ref (b_refs b)" and "length (identity_id_bytes i) = 32" and "texts_valid (b_body b)"
  shows "wf_record (signed_record c b kp i)"
  using assms canonical_into_canonical
  by (auto simp: wf_record_def signed_record_def unsigned_record_def Let_def wf_author_def
      as_map_into_canonical is_ok_iff)

lemma record_to_value_sig [simp]: "record_to_value (r \<lparr> r_sig := s \<rparr>) False = record_to_value r False"
  by (simp add: record_to_value_def Let_def)

lemma verify_signed_record:
  assumes "crypto_laws c" and "keypair_ok kp" and "is_ok (encode_canonical (b_body b))"
  shows "verify c (signed_record c b kp i) = Inr ()"
proof -
  let ?u = "unsigned_record c b kp i"
  have "is_ok (encode_canonical (record_to_value ?u False))"
    using assms(3) by (simp add: record_encodes_iff encode_into_canonical unsigned_record_def)
  then have "encode_canonical (record_to_value ?u False) = Inr (keybuf (record_to_value ?u False))"
    using encode_canonical_keybuf by (auto simp: is_ok_iff)
  then have "record_id_of c (signed_record c b kp i) = Inr (RecordId (blake3 c (keybuf (record_to_value ?u False))))"
    by (simp add: record_id_of_def signed_record_def Let_def)
  then show ?thesis
    using sign_ok [OF assms(1,2)]
    by (simp add: verify_def Let_def) (simp add: signed_record_def unsigned_record_def Let_def)
qed

lemma sign_as_verify:
  assumes "crypto_laws c" and "keypair_ok kp" and "sign_as c b kp i = Inr r"
  shows "verify c r = Inr ()"
  using assms(3) verify_signed_record [OF assms(1,2)] by (auto simp: sign_as_cases split: if_splits)



text \<open>C13. Signing fails in two cases only, a body that is not a map and a body with a duplicate key
  somewhere, each with its error; it never panics, whatever the refs.\<close>

theorem sign_as_errors:
  "sign_as c b kp i = Inl f \<longleftrightarrow>
     (as_map (b_body b) = None \<and> f = Err (Envelope ''body must be a map''))
     \<or> (as_map (b_body b) \<noteq> None \<and> encode_canonical (b_body b) = Inl (Cbor ''duplicate map key'')
        \<and> f = Err (Cbor ''duplicate map key''))"
  using encode_error_unique [of "b_body b"]
  by (cases "encode_canonical (b_body b)") (auto simp: sign_as_cases)

end
