(* ===== verification/IdentityChain.thy ===== *)
theory IdentityChain
  imports Envelope
begin

text \<open>
  Identities and their rotation log, \<open>crates/evermesh-kernel/src/identity.rs\<close>: the rotation body, the
  identity state, genesis and rotation records, and \<open>verify_chain\<close>, which finds the one valid
  genesis among any records, indexes the verified rotations by parent, and walks from the genesis,
  resolving forks by recovery precedence and the contest window.

  The loop of the walk has no bound in the code: it is a \<open>partial_function\<close>, \<open>None\<close> meaning that it
  does not return, and that it returns is a theorem.  \<open>observed_at\<close> is the verifier's own table, an
  argument.
\<close>

section \<open>Rotation records\<close>

definition KIND_ROTATION :: u64 where
  "KIND_ROTATION = 1"

type_synonym alg_key = "u64 \<times> bytes"

record rotation_body =
  rb_key :: bytes
  rb_key_alg :: u64
  rb_recovery :: "alg_key list"
  rb_contest_window :: u64

definition rotation_body_to_value :: "rotation_body \<Rightarrow> val" where
  "rotation_body_to_value b =
     Map [(Text (str ''contest_window''), Uint (rb_contest_window b)),
          (Text (str ''key''), Bytes (rb_key b)),
          (Text (str ''key_alg''), Uint (rb_key_alg b)),
          (Text (str ''recovery''),
           Array (map (\<lambda>(alg, key). Array [Uint alg, Bytes key]) (rb_recovery b)))]"

definition recovery_entry :: "val \<Rightarrow> error + alg_key" where
  "recovery_entry entry =
     and_then (ok_or (as_array entry) (Identity ''recovery entry must be array'')) (\<lambda>pair.
     if length pair \<noteq> 2 then Inl (Identity ''recovery entry must be [alg, key]'')
     else and_then (ok_or (as_u64 (pair ! 0)) (Identity ''recovery alg must be uint'')) (\<lambda>alg.
     and_then (ok_or (as_bytes (pair ! 1)) (Identity ''recovery key must be bytes'')) (\<lambda>key.
     Inr (alg, key))))"

definition rotation_body_parse :: "erecord \<Rightarrow> error + rotation_body" where
  "rotation_body_parse record =
     (if r_kind record \<noteq> KIND_ROTATION then Inl (Identity ''not a rotation record'')
      else let body = r_body record in
        and_then (ok_or (Option.bind (map_get body (str ''key'')) as_bytes)
          (Identity ''rotation body missing key'')) (\<lambda>key.
        and_then (ok_or (Option.bind (map_get body (str ''key_alg'')) as_u64)
          (Identity ''rotation body missing key_alg'')) (\<lambda>key_alg.
        and_then (ok_or (Option.bind (map_get body (str ''contest_window'')) as_u64)
          (Identity ''rotation body missing contest_window'')) (\<lambda>contest_window.
        and_then (ok_or (Option.bind (map_get body (str ''recovery'')) as_array)
          (Identity ''rotation body missing recovery'')) (\<lambda>recovery_v.
        and_then (try_map recovery_entry recovery_v) (\<lambda>recovery.
        Inr \<lparr> rb_key = key, rb_key_alg = key_alg, rb_recovery = recovery,
              rb_contest_window = contest_window \<rparr>))))))"

section \<open>Identity state\<close>

record identity_state =
  st_identity_id :: identity_id
  st_signing_key :: bytes
  st_key_alg :: u64
  st_recovery :: "alg_key list"
  st_contest_window :: u64
  st_head :: record_id
  st_depth :: u64

definition is_signing_key :: "identity_state \<Rightarrow> u64 \<Rightarrow> bytes \<Rightarrow> bool" where
  "is_signing_key st alg key \<longleftrightarrow> st_key_alg st = alg \<and> st_signing_key st = key"

definition is_recovery_key :: "identity_state \<Rightarrow> u64 \<Rightarrow> bytes \<Rightarrow> bool" where
  "is_recovery_key st alg key \<longleftrightarrow> list_ex (\<lambda>(a, k). a = alg \<and> k = key) (st_recovery st)"

definition genesis :: "crypto \<Rightarrow> keypair \<Rightarrow> alg_key list \<Rightarrow> u64 \<Rightarrow> i64 \<Rightarrow> fault + identity_id \<times> erecord" where
  "genesis c kp recovery contest_window created_at =
     (let body = \<lparr> rb_key = public_key_bytes c kp, rb_key_alg = SIG_ALG_ED25519,
                   rb_recovery = recovery, rb_contest_window = contest_window \<rparr>;
          builder = builder_body (rotation_body_to_value body)
                      (builder_created_at created_at (builder_new KIND_ROTATION))
      in and_then (sign_as c builder kp identity_zero) (\<lambda>record.
         and_then (record_id_of c record) (\<lambda>i. Inr (IdentityId (record_id_bytes i), record))))"

definition rotate ::
  "crypto \<Rightarrow> identity_id \<Rightarrow> record_id \<Rightarrow> bytes \<Rightarrow> u64 \<Rightarrow> alg_key list \<Rightarrow> u64 \<Rightarrow> i64 \<Rightarrow> keypair \<Rightarrow> fault + erecord" where
  "rotate c identity prev new_key new_key_alg recovery contest_window created_at signer =
     (let body = \<lparr> rb_key = new_key, rb_key_alg = new_key_alg,
                   rb_recovery = recovery, rb_contest_window = contest_window \<rparr>;
          builder = builder_body (rotation_body_to_value body)
                      (builder_ref (ref_record prev)
                        (builder_created_at created_at (builder_new KIND_ROTATION)))
      in sign_as c builder signer identity)"

section \<open>Chain verification\<close>

text \<open>\<open>verify().is_err()\<close>, with a panic passed on.\<close>

definition verifies :: "crypto \<Rightarrow> erecord \<Rightarrow> fault + bool" where
  "verifies c r =
     (case verify c r of Inr _ \<Rightarrow> Inr True | Inl (Err e) \<Rightarrow> Inr False | Inl (Panic m) \<Rightarrow> Inl (Panic m))"

text \<open>The guards of the first loop, each \<open>continue\<close> being \<open>None\<close>.\<close>

definition genesis_candidate :: "crypto \<Rightarrow> erecord \<Rightarrow> fault + rotation_body option" where
  "genesis_candidate c r =
     (if r_kind r \<noteq> KIND_ROTATION \<or> r_refs r \<noteq> [] then Inr None
      else if author_id (r_author r) \<noteq> identity_zero then Inr None
      else case rotation_body_parse r of
             Inl _ \<Rightarrow> Inr None
           | Inr body \<Rightarrow>
               if author_key (r_author r) \<noteq> rb_key body \<or> r_sig_alg r \<noteq> rb_key_alg body then Inr None
               else and_then (verifies c r) (\<lambda>ok. Inr (if ok then Some body else None)))"

fun find_genesis ::
  "crypto \<Rightarrow> erecord list \<Rightarrow> (erecord \<times> rotation_body) option \<Rightarrow> fault + (erecord \<times> rotation_body) option" where
  "find_genesis c [] found = Inr found"
| "find_genesis c (r # rs) found =
     and_then (genesis_candidate c r) (\<lambda>cand.
       case cand of
         None \<Rightarrow> find_genesis c rs found
       | Some body \<Rightarrow>
           if found \<noteq> None then Inl (Err (Identity ''multiple genesis records in input''))
           else find_genesis c rs (Some (r, body)))"

definition rotation_candidate :: "crypto \<Rightarrow> identity_id \<Rightarrow> erecord \<Rightarrow> fault + bool" where
  "rotation_candidate c identity r =
     (if r_kind r \<noteq> KIND_ROTATION \<or> length (r_refs r) \<noteq> 1 then Inr False
      else if \<not> is_record (r_refs r ! 0) then Inr False
      else if author_id (r_author r) \<noteq> identity then Inr False
      else verifies c r)"

fun index_by_parent ::
  "crypto \<Rightarrow> identity_id \<Rightarrow> erecord list \<Rightarrow> (bytes \<Rightarrow> erecord list option) \<Rightarrow> fault + (bytes \<Rightarrow> erecord list option)" where
  "index_by_parent c identity [] by_parent = Inr by_parent"
| "index_by_parent c identity (r # rs) by_parent =
     and_then (rotation_candidate c identity r) (\<lambda>ok.
       if ok then
         let parent = ref_hash (r_refs r ! 0);
             siblings = (case by_parent parent of None \<Rightarrow> [] | Some v \<Rightarrow> v)
         in index_by_parent c identity rs (by_parent(parent \<mapsto> siblings @ [r]))
       else index_by_parent c identity rs by_parent)"

text \<open>The authorization classes of the children: signed by the signing key, by a recovery key.\<close>

fun classify ::
  "identity_state \<Rightarrow> erecord list \<Rightarrow> (erecord \<times> rotation_body) list \<times> (erecord \<times> rotation_body) list" where
  "classify st [] = ([], [])"
| "classify st (child # children) =
     (let (signing, recovery) = classify st children in
      case rotation_body_parse child of
        Inl _ \<Rightarrow> (signing, recovery)
      | Inr body \<Rightarrow>
          if is_signing_key st (r_sig_alg child) (author_key (r_author child))
          then ((child, body) # signing, recovery)
          else if is_recovery_key st (r_sig_alg child) (author_key (r_author child))
          then (signing, (child, body) # recovery)
          else (signing, recovery))"

definition saturating_sub_i64 :: "i64 \<Rightarrow> i64 \<Rightarrow> i64" where
  "saturating_sub_i64 a b = word_of_int (max (- (2 ^ 63)) (min (2 ^ 63 - 1) (sint a - sint b)))"

definition u64_try_from_i64 :: "i64 \<Rightarrow> u64 option" where
  "u64_try_from_i64 x = (if 0 \<le> sint x then Some x else None)"

definition is_final ::
  "crypto \<Rightarrow> (record_id \<Rightarrow> i64 option) \<Rightarrow> i64 \<Rightarrow> identity_state \<Rightarrow> erecord \<Rightarrow> fault + bool" where
  "is_final c observed_at now st r =
     and_then (record_id_of c r) (\<lambda>i.
       Inr (case observed_at i of
              Some seen \<Rightarrow>
                (case u64_try_from_i64 (saturating_sub_i64 now seen) of
                   Some elapsed \<Rightarrow> st_contest_window st < elapsed
                 | None \<Rightarrow> False)
            | None \<Rightarrow> False))"

fun min_by_id :: "(record_id \<times> 'b) list \<Rightarrow> (record_id \<times> 'b) option" where
  "min_by_id [] = None"
| "min_by_id (x # xs) = Some (foldl (\<lambda>m y. if fst y < fst m then y else m) x xs)"

definition lowest :: "crypto \<Rightarrow> (erecord \<times> rotation_body) list \<Rightarrow> fault + (record_id \<times> rotation_body) option" where
  "lowest c v =
     and_then (try_map (\<lambda>(r, b). and_then (record_id_of c r) (\<lambda>i. Inr (i, b))) v) (\<lambda>ids. Inr (min_by_id ids))"

fun try_filter :: "('a \<Rightarrow> 'e + bool) \<Rightarrow> 'a list \<Rightarrow> 'e + 'a list" where
  "try_filter p [] = Inr []"
| "try_filter p (x # xs) =
     and_then (p x) (\<lambda>keep. and_then (try_filter p xs) (\<lambda>ys. Inr (if keep then x # ys else ys)))"

definition choose_child ::
  "crypto \<Rightarrow> (record_id \<Rightarrow> i64 option) \<Rightarrow> i64 \<Rightarrow> identity_state \<Rightarrow> erecord list \<Rightarrow>
   fault + (record_id \<times> rotation_body) option" where
  "choose_child c observed_at now st children =
     (let (signing, recovery) = classify st children in
      if st_contest_window st = 0 then lowest c (signing @ recovery)
      else and_then (try_filter (\<lambda>(r, _). is_final c observed_at now st r) signing) (\<lambda>final_signing.
        if final_signing \<noteq> [] then lowest c final_signing
        else if recovery \<noteq> [] then lowest c recovery
        else lowest c signing))"

definition advance :: "identity_state \<Rightarrow> record_id \<Rightarrow> rotation_body \<Rightarrow> identity_state" where
  "advance st i body =
     st \<lparr> st_signing_key := rb_key body, st_key_alg := rb_key_alg body, st_recovery := rb_recovery body,
          st_contest_window := rb_contest_window body, st_head := i, st_depth := st_depth st + 1 \<rparr>"

definition chain_step ::
  "crypto \<Rightarrow> (record_id \<Rightarrow> i64 option) \<Rightarrow> i64 \<Rightarrow> (bytes \<Rightarrow> erecord list option) \<Rightarrow> identity_state \<Rightarrow>
   fault + (record_id \<times> rotation_body) option" where
  "chain_step c observed_at now by_parent st =
     (case by_parent (record_id_bytes (st_head st)) of
        None \<Rightarrow> Inr None
      | Some children \<Rightarrow> choose_child c observed_at now st children)"

partial_function (option) walk ::
  "crypto \<Rightarrow> (record_id \<Rightarrow> i64 option) \<Rightarrow> i64 \<Rightarrow> (bytes \<Rightarrow> erecord list option) \<Rightarrow> identity_state \<Rightarrow>
   (fault + identity_state) option" where
  "walk c observed_at now by_parent st =
     (case chain_step c observed_at now by_parent st of
        Inl f \<Rightarrow> Some (Inl f)
      | Inr None \<Rightarrow> Some (Inr st)
      | Inr (Some (i, body)) \<Rightarrow> walk c observed_at now by_parent (advance st i body))"

declare walk.simps [code]

definition genesis_state :: "record_id \<Rightarrow> rotation_body \<Rightarrow> identity_state" where
  "genesis_state gid body =
     \<lparr> st_identity_id = IdentityId (record_id_bytes gid), st_signing_key = rb_key body,
       st_key_alg = rb_key_alg body, st_recovery = rb_recovery body,
       st_contest_window = rb_contest_window body, st_head = gid, st_depth = 0 \<rparr>"

definition verify_chain ::
  "crypto \<Rightarrow> erecord list \<Rightarrow> (record_id \<Rightarrow> i64 option) \<Rightarrow> i64 \<Rightarrow> (fault + identity_state) option" where
  "verify_chain c records observed_at now =
     (case find_genesis c records None of
        Inl f \<Rightarrow> Some (Inl f)
      | Inr None \<Rightarrow> Some (Inl (Err (Identity ''no valid genesis'')))
      | Inr (Some (g, body)) \<Rightarrow>
          (case record_id_of c g of
             Inl f \<Rightarrow> Some (Inl f)
           | Inr gid \<Rightarrow>
               (case index_by_parent c (IdentityId (record_id_bytes gid)) records (\<lambda>_. None) of
                  Inl f \<Rightarrow> Some (Inl f)
                | Inr by_parent \<Rightarrow> walk c observed_at now by_parent (genesis_state gid body))))"

end
