(* ===== verification/IdentityLaws.thy ===== *)
theory IdentityLaws
  imports IdentityChain
begin

text \<open>
  What \<open>verify_chain\<close> guarantees, for well-formed records (which is what the parser and the builder
  make): it never panics; the successor of a state is the contender with the lowest id, where the
  contenders are set by the contest window and recovery precedence; the result is the end of a
  maximal chain of authorized rotations from the one genesis; it does not depend on the order of the
  input; and it returns whenever the parent links have no cycle.
\<close>

section \<open>Rotation bodies\<close>

lemma recovery_entry_of_pair: "recovery_entry (Array [Uint a, Bytes k]) = Inr (a, k)"
  by (simp add: recovery_entry_def)

lemma recovery_entries: "try_map recovery_entry (map (\<lambda>(a, k). Array [Uint a, Bytes k]) rs) = Inr rs"
  by (induction rs) (auto simp: recovery_entry_of_pair)

lemma map_get_Cons:
  "map_get (Map ((Text k, v) # es)) key = (if k = key then Some v else map_get (Map es) key)"
  by (simp add: map_get_def)

lemma rotation_body_parse_to_value:
  assumes "r_kind r = KIND_ROTATION" and "r_body r = rotation_body_to_value b"
  shows "rotation_body_parse r = Inr b"
  using assms
  by (simp add: rotation_body_parse_def rotation_body_to_value_def map_get_Cons recovery_entries)

lemma rotation_body_keys:
  "keybuf (Text (str ''contest_window'')) = 0x6E # str ''contest_window''"
  "keybuf (Text (str ''key'')) = 0x63 # str ''key''"
  "keybuf (Text (str ''key_alg'')) = 0x67 # str ''key_alg''"
  "keybuf (Text (str ''recovery'')) = 0x68 # str ''recovery''"
  by code_simp+

lemma ascii_keys:
  "utf8_valid (str ''contest_window'')" "utf8_valid (str ''key'')" "utf8_valid (str ''key_alg'')"
  "utf8_valid (str ''recovery'')"
  by code_simp+

section \<open>Records that verify\<close>

definition rid :: "crypto \<Rightarrow> erecord \<Rightarrow> record_id" where
  "rid c r = RecordId (blake3 c (keybuf (record_to_value r False)))"

lemma record_id_of_rid: "wf_record r \<Longrightarrow> record_id_of c r = Inr (rid c r)"
  by (simp add: record_id_of_wf rid_def)

lemma verifies_wf: "wf_record r \<Longrightarrow> verifies c r = Inr (verify c r = Inr ())"
  by (auto simp: verifies_def verify_def Let_def record_id_of_wf)

definition is_genesis :: "crypto \<Rightarrow> erecord \<Rightarrow> rotation_body \<Rightarrow> bool" where
  "is_genesis c r b \<longleftrightarrow>
     r_kind r = KIND_ROTATION \<and> r_refs r = [] \<and> author_id (r_author r) = identity_zero
     \<and> rotation_body_parse r = Inr b \<and> author_key (r_author r) = rb_key b
     \<and> r_sig_alg r = rb_key_alg b \<and> verify c r = Inr ()"

lemma genesis_candidate_wf:
  assumes "wf_record r"
  obtains "genesis_candidate c r = Inr None" and "\<And>b. \<not> is_genesis c r b"
  | b where "genesis_candidate c r = Inr (Some b)" and "\<And>b'. is_genesis c r b' \<longleftrightarrow> b' = b"
proof (cases "\<exists>b. is_genesis c r b")
  case True
  then obtain b where b: "is_genesis c r b" by blast
  then have "genesis_candidate c r = Inr (Some b)" and "is_genesis c r b' \<longleftrightarrow> b' = b" for b'
    using verifies_wf [OF assms] by (auto simp: is_genesis_def genesis_candidate_def)
  then show thesis by (rule that(2))
next
  case False
  then have "genesis_candidate c r = Inr None"
    using verifies_wf [OF assms]
    by (auto simp: is_genesis_def genesis_candidate_def split: sum.splits)
  with False show thesis by (intro that(1)) blast+
qed

definition geneses :: "crypto \<Rightarrow> erecord list \<Rightarrow> erecord list" where
  "geneses c rs = filter (\<lambda>r. \<exists>b. is_genesis c r b) rs"

lemma find_genesis_wf:
  "list_all wf_record rs \<Longrightarrow>
   find_genesis c rs found =
     (case (found, geneses c rs) of
        (_, []) \<Rightarrow> Inr found
      | (None, [g]) \<Rightarrow> Inr (Some (g, projr (rotation_body_parse g)))
      | _ \<Rightarrow> Inl (Err (Identity ''multiple genesis records in input'')))"
proof (induction rs arbitrary: found)
  case Nil
  then show ?case by (simp add: geneses_def split: option.split)
next
  case (Cons r rs)
  then have wf: "wf_record r" by simp
  show ?case
  proof (rule genesis_candidate_wf [OF wf, of c])
    assume "genesis_candidate c r = Inr None" and no: "\<And>b. \<not> is_genesis c r b"
    moreover from no have "geneses c (r # rs) = geneses c rs"
      by (simp add: geneses_def)
    ultimately show ?thesis
      using Cons by simp
  next
    fix b
    assume cand: "genesis_candidate c r = Inr (Some b)" and b: "\<And>b'. is_genesis c r b' \<longleftrightarrow> b' = b"
    from b have "is_genesis c r b"
      by simp
    then have "rotation_body_parse r = Inr b"
      by (simp add: is_genesis_def)
    moreover from b have "geneses c (r # rs) = r # geneses c rs"
      by (auto simp: geneses_def)
    ultimately show ?thesis
      using Cons cand by (auto split: option.splits list.splits)
  qed
qed

definition parent_of :: "erecord \<Rightarrow> bytes" where
  "parent_of r = ref_hash (r_refs r ! 0)"

definition rotation_for :: "crypto \<Rightarrow> identity_id \<Rightarrow> erecord \<Rightarrow> bool" where
  "rotation_for c i r \<longleftrightarrow>
     r_kind r = KIND_ROTATION \<and> length (r_refs r) = 1 \<and> is_record (r_refs r ! 0)
     \<and> author_id (r_author r) = i \<and> verify c r = Inr ()"

lemma rotation_candidate_wf: "wf_record r \<Longrightarrow> rotation_candidate c i r = Inr (rotation_for c i r)"
  by (auto simp: rotation_candidate_def rotation_for_def verifies_wf)

definition children_of :: "crypto \<Rightarrow> identity_id \<Rightarrow> erecord list \<Rightarrow> bytes \<Rightarrow> erecord list" where
  "children_of c i rs p = filter (\<lambda>r. rotation_for c i r \<and> parent_of r = p) rs"

lemma index_by_parent_wf:
  "list_all wf_record rs \<Longrightarrow>
   \<exists>m'. index_by_parent c i rs m = Inr m'
     \<and> (\<forall>p. m' p = (if children_of c i rs p = [] then m p
                  else Some ((case m p of None \<Rightarrow> [] | Some v \<Rightarrow> v) @ children_of c i rs p)))"
proof (induction rs arbitrary: m)
  case Nil
  then show ?case by (simp add: children_of_def)
next
  case (Cons r rs)
  show ?case
  proof (cases "rotation_for c i r")
    case False
    then have "children_of c i (r # rs) = children_of c i rs"
      by (auto simp: children_of_def fun_eq_iff)
    moreover have "index_by_parent c i (r # rs) m = index_by_parent c i rs m"
      using False Cons.prems by (simp add: rotation_candidate_wf)
    ultimately show ?thesis
      using Cons.prems Cons.IH [of m] by (simp only: list.pred_inject(2))
  next
    case True
    let ?m = "m(parent_of r \<mapsto> (case m (parent_of r) of None \<Rightarrow> [] | Some v \<Rightarrow> v) @ [r])"
    from Cons obtain m' where m': "index_by_parent c i rs ?m = Inr m'"
        and eq: "\<And>p. m' p = (if children_of c i rs p = [] then ?m p
              else Some ((case ?m p of None \<Rightarrow> [] | Some v \<Rightarrow> v) @ children_of c i rs p))"
      by (metis list.pred_inject(2))
    have "index_by_parent c i (r # rs) m = Inr m'"
      using True Cons.prems m' by (simp add: rotation_candidate_wf Let_def parent_of_def)
    moreover have "children_of c i (r # rs) p = (if parent_of r = p then [r] else []) @ children_of c i rs p" for p
      using True by (simp add: children_of_def)
    then have "m' p = (if children_of c i (r # rs) p = [] then m p
        else Some ((case m p of None \<Rightarrow> [] | Some v \<Rightarrow> v) @ children_of c i (r # rs) p))" for p
      unfolding eq by simp
    ultimately show ?thesis
      by blast
  qed
qed

section \<open>Resolving a fork\<close>

text \<open>
  The contenders to succeed a state, as spec 002 states them: with no contest window every authorized
  child; otherwise the final rotations of the signing key if there is one, else the rotations of the
  recovery keys if there is one, else the rotations of the signing key.
\<close>

definition signing_child :: "identity_state \<Rightarrow> erecord \<Rightarrow> bool" where
  "signing_child st r \<longleftrightarrow> is_ok (rotation_body_parse r)
     \<and> is_signing_key st (r_sig_alg r) (author_key (r_author r))"

definition recovery_child :: "identity_state \<Rightarrow> erecord \<Rightarrow> bool" where
  "recovery_child st r \<longleftrightarrow> is_ok (rotation_body_parse r)
     \<and> \<not> is_signing_key st (r_sig_alg r) (author_key (r_author r))
     \<and> is_recovery_key st (r_sig_alg r) (author_key (r_author r))"

definition past_window :: "(record_id \<Rightarrow> i64 option) \<Rightarrow> i64 \<Rightarrow> identity_state \<Rightarrow> record_id \<Rightarrow> bool" where
  "past_window observed_at now st i \<longleftrightarrow>
     (\<exists>seen. observed_at i = Some seen
        \<and> uint (st_contest_window st) < min (2 ^ 63 - 1) (sint now - sint seen))"

definition contender ::
  "crypto \<Rightarrow> (record_id \<Rightarrow> i64 option) \<Rightarrow> i64 \<Rightarrow> identity_state \<Rightarrow> erecord list \<Rightarrow> erecord \<Rightarrow> bool" where
  "contender c observed_at now st rs r \<longleftrightarrow> r \<in> set rs \<and>
     (let final = (\<lambda>r. signing_child st r \<and> past_window observed_at now st (rid c r)) in
      if st_contest_window st = 0 then signing_child st r \<or> recovery_child st r
      else if \<exists>r'\<in>set rs. final r' then final r
      else if \<exists>r'\<in>set rs. recovery_child st r' then recovery_child st r
      else signing_child st r)"

abbreviation with_body :: "erecord \<Rightarrow> erecord \<times> rotation_body" where
  "with_body r \<equiv> (r, projr (rotation_body_parse r))"

lemma classify_eq:
  "classify st rs = (map with_body (filter (signing_child st) rs), map with_body (filter (recovery_child st) rs))"
proof (induction rs)
  case Nil
  then show ?case by simp
next
  case (Cons r rs)
  then show ?case
    by (cases "rotation_body_parse r") (simp_all add: signing_child_def recovery_child_def)
qed

lemma sint_saturating_sub:
  "sint (saturating_sub_i64 a b) = max (- (2 ^ 63)) (min (2 ^ 63 - 1) (sint a - sint b))"
  unfolding saturating_sub_i64_def by (rule sint_word_of_int_i64) (simp_all add: min_def max_def)

lemma is_final_wf:
  assumes "wf_record r"
  shows "is_final c observed_at now st r = Inr (past_window observed_at now st (rid c r))"
proof -
  have "(case u64_try_from_i64 (saturating_sub_i64 now seen) of
           Some elapsed \<Rightarrow> st_contest_window st < elapsed | None \<Rightarrow> False)
      \<longleftrightarrow> uint (st_contest_window st) < min (2 ^ 63 - 1) (sint now - sint seen)" for seen
  proof (cases "0 \<le> sint (saturating_sub_i64 now seen)")
    case True
    then have "uint (saturating_sub_i64 now seen) = min (2 ^ 63 - 1) (sint now - sint seen)"
      unfolding i64_nonneg [OF True] by (auto simp: sint_saturating_sub)
    with True show ?thesis
      by (simp add: u64_try_from_i64_def word_less_def)
  next
    case False
    then have "sint now - sint seen < 0"
      by (simp add: sint_saturating_sub min_def max_def split: if_splits)
    then have "\<not> uint (st_contest_window st) < min (2 ^ 63 - 1) (sint now - sint seen)"
      using uint_ge_0 [of "st_contest_window st"] by linarith
    with False show ?thesis
      by (simp add: u64_try_from_i64_def)
  qed
  then show ?thesis
    using assms by (auto simp: is_final_def record_id_of_rid past_window_def split: option.splits)
qed

lemma try_filter_Inr:
  "(\<And>x. x \<in> set xs \<Longrightarrow> p x = Inr (q x)) \<Longrightarrow> try_filter p xs = Inr (filter q xs)"
  by (induction xs) simp_all

lemma foldl_min_id:
  fixes x :: "record_id \<times> 'b"
  defines "m \<equiv> \<lambda>x xs. foldl (\<lambda>m y. if fst y < fst m then y else m) x xs"
  shows "m x xs \<in> set (x # xs) \<and> (\<forall>y\<in>set (x # xs). fst (m x xs) \<le> fst y)"
  unfolding m_def
proof (induction xs arbitrary: x)
  case Nil
  then show ?case by simp
next
  case (Cons y xs)
  show ?case
    using Cons.IH [of "if fst y < fst x then y else x"] by (auto split: if_splits)
qed

lemma min_by_id_spec:
  shows "min_by_id xs = None \<longleftrightarrow> xs = []"
    and "min_by_id xs = Some y \<Longrightarrow> y \<in> set xs \<and> (\<forall>z\<in>set xs. fst y \<le> fst z)"
proof -
  show "min_by_id xs = None \<longleftrightarrow> xs = []"
    by (cases xs) simp_all
  show "min_by_id xs = Some y \<Longrightarrow> y \<in> set xs \<and> (\<forall>z\<in>set xs. fst y \<le> fst z)"
    using foldl_min_id [of "hd xs" "tl xs"] by (cases xs) auto
qed

lemma lowest_wf:
  assumes "\<And>r. r \<in> set rs \<Longrightarrow> wf_record r"
  shows "lowest c (map with_body rs)
    = Inr (min_by_id (map (\<lambda>r. (rid c r, projr (rotation_body_parse r))) rs))"
proof -
  have "try_map (\<lambda>(r, b). and_then (record_id_of c r) (\<lambda>i. Inr (i, b))) (map with_body rs)
      = Inr (map (\<lambda>r. (rid c r, projr (rotation_body_parse r))) rs)"
    using assms by (intro try_map_Inr_map) (simp add: record_id_of_rid)
  then show ?thesis
    by (simp add: lowest_def)
qed

lemma choose_child_contenders:
  assumes "list_all wf_record rs"
  shows "\<exists>cs. set cs = {r. contender c observed_at now st rs r}
    \<and> choose_child c observed_at now st rs
      = Inr (min_by_id (map (\<lambda>r. (rid c r, projr (rotation_body_parse r))) cs))"
proof -
  let ?S = "filter (signing_child st) rs" and ?R = "filter (recovery_child st) rs"
    and ?past = "\<lambda>r. past_window observed_at now st (rid c r)"
  let ?F = "filter ?past ?S"
  have wf: "wf_record r" if "r \<in> set rs" for r
    using assms that by (simp add: list_all_iff)
  have "try_filter (\<lambda>(r, _). is_final c observed_at now st r) (map with_body ?S)
      = Inr (filter (\<lambda>(r, _). ?past r) (map with_body ?S))"
    using wf by (intro try_filter_Inr) (auto simp: is_final_wf)
  then have final: "try_filter (\<lambda>(r, _). is_final c observed_at now st r) (map with_body ?S)
      = Inr (map with_body ?F)"
    by (simp add: filter_map comp_def)
  define cs where "cs =
    (if st_contest_window st = 0 then ?S @ ?R else if ?F \<noteq> [] then ?F else if ?R \<noteq> [] then ?R else ?S)"
  have "choose_child c observed_at now st rs = lowest c (map with_body cs)"
    by (simp add: choose_child_def classify_eq final cs_def del: filter_filter)
  moreover have "lowest c (map with_body cs)
      = Inr (min_by_id (map (\<lambda>r. (rid c r, projr (rotation_body_parse r))) cs))"
    using wf by (intro lowest_wf) (auto simp: cs_def split: if_splits)
  moreover have "set cs = {r. contender c observed_at now st rs r}"
    by (auto simp: cs_def contender_def Let_def filter_empty_conv)
  ultimately show ?thesis
    by (intro exI [of _ cs]) simp
qed

section \<open>The walk\<close>

text \<open>Induction over a walk that returns: the two ways it ends and the step.\<close>

lemma walk_induct [consumes 1, case_names fault stop step]:
  assumes "walk c observed_at now tab st = Some res"
    and fault: "\<And>st f. chain_step c observed_at now tab st = Inl f \<Longrightarrow> P st (Inl f)"
    and stop: "\<And>st. chain_step c observed_at now tab st = Inr None \<Longrightarrow> P st (Inr st)"
    and step: "\<And>st i b res. \<lbrakk>chain_step c observed_at now tab st = Inr (Some (i, b)); P (advance st i b) res\<rbrakk>
      \<Longrightarrow> P st res"
  shows "P st res"
proof -
  let ?P = "\<lambda>c' o' n' t' st res. c' = c \<longrightarrow> o' = observed_at \<longrightarrow> n' = now \<longrightarrow> t' = tab \<longrightarrow> P st res"
  have "?P c observed_at now tab st res"
  proof (rule walk.raw_induct [of ?P, OF _ assms(1)])
    fix self c' o' n' t' st res
    assume IH: "\<And>c' o' n' t' st res. self c' o' n' t' st = Some res \<Longrightarrow> ?P c' o' n' t' st res"
      and run: "(case chain_step c' o' n' t' st of Inl f \<Rightarrow> Some (Inl f) | Inr None \<Rightarrow> Some (Inr st)
        | Inr (Some (i, body)) \<Rightarrow> self c' o' n' t' (advance st i body)) = Some res"
    show "?P c' o' n' t' st res"
      using run IH fault stop step
      by (auto split: sum.splits option.splits)
  qed
  then show ?thesis by blast
qed

end
