(* ===== verification/IdentitySpec.thy ===== *)
theory IdentitySpec
  imports IdentityLaws
begin

text \<open>
  The properties of identity chains: fork resolution, the contest window, authorization and
  maximality of the verified chain, termination, independence of the order of the input, and that
  the records built by \<open>genesis\<close> and \<open>rotate\<close> verify to the state they announce.
\<close>

section \<open>Fork resolution\<close>

lemma contender_exists:
  "(\<exists>r. contender c observed_at now st rs r) \<longleftrightarrow> (\<exists>r\<in>set rs. signing_child st r \<or> recovery_child st r)"
proof (cases "st_contest_window st = 0")
  case True
  then show ?thesis
    by (auto simp: contender_def)
next
  case False
  let ?final = "\<lambda>r. signing_child st r \<and> past_window observed_at now st (rid c r)"
  consider "\<exists>r\<in>set rs. ?final r" | "\<not> (\<exists>r\<in>set rs. ?final r)" "\<exists>r\<in>set rs. recovery_child st r"
    | "\<not> (\<exists>r\<in>set rs. ?final r)" "\<not> (\<exists>r\<in>set rs. recovery_child st r)"
    by blast
  then show ?thesis
  proof cases
    case 1
    then show ?thesis
      using False by (auto simp: contender_def)
  next
    case 2
    then show ?thesis
      using False unfolding contender_def Let_def by auto
  next
    case 3
    then show ?thesis
      using False unfolding contender_def Let_def by auto
  qed
qed

lemma choose_child_cases:
  assumes "list_all wf_record rs"
  obtains (stop) "choose_child c observed_at now st rs = Inr None"
      and "\<And>r. r \<in> set rs \<Longrightarrow> \<not> signing_child st r \<and> \<not> recovery_child st r"
  | (go) r b where "choose_child c observed_at now st rs = Inr (Some (rid c r, b))"
      and "rotation_body_parse r = Inr b" and "contender c observed_at now st rs r"
      and "\<And>r'. contender c observed_at now st rs r' \<Longrightarrow> rid c r \<le> rid c r'"
proof -
  obtain cs where cs: "set cs = {r. contender c observed_at now st rs r}"
      and choose: "choose_child c observed_at now st rs
        = Inr (min_by_id (map (\<lambda>r. (rid c r, projr (rotation_body_parse r))) cs))"
    using choose_child_contenders [OF assms] by blast
  show thesis
  proof (cases "min_by_id (map (\<lambda>r. (rid c r, projr (rotation_body_parse r))) cs)")
    case None
    then have "cs = []"
      by (simp add: min_by_id_spec(1))
    then have "\<not> (\<exists>r. contender c observed_at now st rs r)"
      using cs by auto
    with None choose show thesis
      unfolding contender_exists by (intro stop) auto
  next
    case (Some y)
    note m = min_by_id_spec(2) [OF Some]
    then obtain r where r: "r \<in> set cs" and y: "y = (rid c r, projr (rotation_body_parse r))"
      by auto
    then have con: "contender c observed_at now st rs r"
      using cs by auto
    then have "rotation_body_parse r = Inr (projr (rotation_body_parse r))"
      by (auto simp: contender_def Let_def signing_child_def recovery_child_def is_ok_iff split: if_splits)
    moreover have "rid c r \<le> rid c r'" if "contender c observed_at now st rs r'" for r'
      using m that cs by (auto simp: y)
    ultimately show thesis
      using choose Some con unfolding y by (intro go) auto
  qed
qed



text \<open>C16. The contest window does not wrap. A rotation counts as final exactly when the verifier has
  seen it and the time since then, in unbounded integers and capped at the largest \<open>i64\<close>, exceeds the
  window; so a window of \<open>2^63 - 1\<close> seconds or more never closes, and clock skew never closes one.\<close>

theorem contest_window_exact:
  assumes "wf_record r"
  shows "is_final c observed_at now st r = Inr (case observed_at (rid c r) of
      None \<Rightarrow> False
    | Some seen \<Rightarrow> uint (st_contest_window st) < min (2 ^ 63 - 1) (sint now - sint seen))
    \<and> (2 ^ 63 - 1 \<le> uint (st_contest_window st) \<or> (\<forall>seen. observed_at (rid c r) = Some seen \<longrightarrow> sint now \<le> sint seen)
       \<longrightarrow> is_final c observed_at now st r = Inr False)"
proof -
  have "past_window observed_at now st (rid c r) = (case observed_at (rid c r) of
      None \<Rightarrow> False
    | Some seen \<Rightarrow> uint (st_contest_window st) < min (2 ^ 63 - 1) (sint now - sint seen))"
    by (auto simp: past_window_def split: option.splits)
  moreover have "\<not> past_window observed_at now st (rid c r)"
    if "2 ^ 63 - 1 \<le> uint (st_contest_window st) \<or> (\<forall>seen. observed_at (rid c r) = Some seen \<longrightarrow> sint now \<le> sint seen)"
  proof
    assume "past_window observed_at now st (rid c r)"
    then obtain seen where "observed_at (rid c r) = Some seen"
        and "uint (st_contest_window st) < min (2 ^ 63 - 1) (sint now - sint seen)"
      by (auto simp: past_window_def)
    then show False
      using that uint_ge_0 [of "st_contest_window st"] by fastforce
  qed
  ultimately show ?thesis
    using is_final_wf [OF assms] by auto
qed

section \<open>The verified chain\<close>

definition child_table :: "crypto \<Rightarrow> identity_id \<Rightarrow> erecord list \<Rightarrow> bytes \<Rightarrow> erecord list option" where
  "child_table c i rs p = (if children_of c i rs p = [] then None else Some (children_of c i rs p))"

lemma verify_chain_wf:
  assumes "list_all wf_record rs"
  shows "verify_chain c rs observed_at now =
    (case geneses c rs of
       [] \<Rightarrow> Some (Inl (Err (Identity ''no valid genesis'')))
     | [g] \<Rightarrow> walk c observed_at now (child_table c (IdentityId (record_id_bytes (rid c g))) rs)
                (genesis_state (rid c g) (projr (rotation_body_parse g)))
     | _ \<Rightarrow> Some (Inl (Err (Identity ''multiple genesis records in input''))))"
proof -
  have index: "index_by_parent c i rs (\<lambda>_. None) = Inr (child_table c i rs)" for i
  proof -
    obtain m where "index_by_parent c i rs (\<lambda>_. None) = Inr m"
        and "\<And>p. m p = child_table c i rs p"
      using index_by_parent_wf [OF assms, of c i "\<lambda>_. None"] by (auto simp: child_table_def)
    then show ?thesis by (simp add: fun_eq_iff)
  qed
  have "record_id_of c g = Inr (rid c g)" if "g \<in> set (geneses c rs)" for g
    using that assms by (intro record_id_of_rid) (auto simp: geneses_def list_all_iff)
  then show ?thesis
    by (auto simp: verify_chain_def find_genesis_wf [OF assms] index split: list.splits)
qed

lemma child_table_step:
  fixes c :: crypto and i :: identity_id
  assumes "list_all wf_record rs"
  defines "kids \<equiv> \<lambda>st. children_of c i rs (record_id_bytes (st_head st))"
  obtains (stop) "chain_step c observed_at now (child_table c i rs) st = Inr None"
      and "\<And>r. r \<in> set (kids st) \<Longrightarrow> \<not> signing_child st r \<and> \<not> recovery_child st r"
  | (go) r b where "chain_step c observed_at now (child_table c i rs) st = Inr (Some (rid c r, b))"
      and "r \<in> set (kids st)" and "signing_child st r \<or> recovery_child st r" and "rotation_body_parse r = Inr b"
proof (cases "kids st = []")
  case True
  then show thesis
    by (intro stop) (auto simp: kids_def chain_step_def child_table_def)
next
  case False
  then have step: "chain_step c observed_at now (child_table c i rs) st = choose_child c observed_at now st (kids st)"
    by (simp add: kids_def chain_step_def child_table_def)
  have "list_all wf_record (kids st)"
    using assms(1) by (auto simp: kids_def children_of_def list_all_iff)
  then show thesis
  proof (cases rule: choose_child_cases [where c = c and observed_at = observed_at and now = now and st = st])
    case stop
    then show thesis
      using step that(1) by simp
  next
    case (go r b)
    then show thesis
      using step that(2) [of r b] by (auto simp: contender_def Let_def split: if_splits)
  qed
qed

text \<open>
  One step of a chain: a verified rotation of the identity that names the head as its parent and is
  signed by a current signing or recovery key.
\<close>

inductive chain_extends :: "crypto \<Rightarrow> erecord list \<Rightarrow> identity_state \<Rightarrow> identity_state \<Rightarrow> bool"
  for c rs where
  extend:
    "\<lbrakk>r \<in> set rs; r_kind r = KIND_ROTATION; r_refs r = [p]; is_record p;
      ref_hash p = record_id_bytes (st_head st); author_id (r_author r) = st_identity_id st;
      verify c r = Inr (); rotation_body_parse r = Inr b; record_id_of c r = Inr i;
      is_signing_key st (r_sig_alg r) (author_key (r_author r))
        \<or> is_recovery_key st (r_sig_alg r) (author_key (r_author r))\<rbrakk>
     \<Longrightarrow> chain_extends c rs st (advance st i b)"

inductive_cases chain_extendsE: "chain_extends c rs st st'"

lemma in_children_of:
  "r \<in> set (children_of c i rs h) \<longleftrightarrow> r \<in> set rs \<and> r_kind r = KIND_ROTATION
     \<and> (\<exists>p. r_refs r = [p] \<and> is_record p \<and> ref_hash p = h) \<and> author_id (r_author r) = i \<and> verify c r = Inr ()"
  by (auto simp: children_of_def rotation_for_def parent_of_def length_Suc_conv)

lemma authorized_child_iff:
  "signing_child st r \<or> recovery_child st r \<longleftrightarrow> is_ok (rotation_body_parse r)
     \<and> (is_signing_key st (r_sig_alg r) (author_key (r_author r))
        \<or> is_recovery_key st (r_sig_alg r) (author_key (r_author r)))"
  by (auto simp: signing_child_def recovery_child_def)

lemma step_extends:
  assumes "list_all wf_record rs"
    and "chain_step c observed_at now (child_table c (st_identity_id st) rs) st = Inr (Some (j, b))"
  shows "chain_extends c rs st (advance st j b)"
  using assms(1)
proof (cases rule: child_table_step [where c = c and i = "st_identity_id st" and observed_at = observed_at
      and now = now and st = st])
  case stop
  with assms(2) show ?thesis by simp
next
  case (go r b')
  then have b: "rotation_body_parse r = Inr b" and j: "j = rid c r"
    using assms(2) by auto
  from go(2) obtain p where r: "r \<in> set rs" "r_kind r = KIND_ROTATION" "r_refs r = [p]" "is_record p"
      "ref_hash p = record_id_bytes (st_head st)" "author_id (r_author r) = st_identity_id st"
      "verify c r = Inr ()"
    by (auto simp: in_children_of)
  moreover have "record_id_of c r = Inr (rid c r)"
    using r assms(1) by (intro record_id_of_rid) (simp add: list_all_iff)
  ultimately show ?thesis
    using go(3) b unfolding j authorized_child_iff by (intro extend) auto
qed

lemma step_stops:
  assumes "list_all wf_record rs"
    and "chain_step c observed_at now (child_table c (st_identity_id st) rs) st = Inr None"
  shows "\<not> chain_extends c rs st st'"
  using assms(1)
proof (cases rule: child_table_step [where c = c and i = "st_identity_id st" and observed_at = observed_at
      and now = now and st = st])
  case stop
  show ?thesis
  proof
    assume "chain_extends c rs st st'"
    then show False
      using stop(2) by (elim chain_extendsE) (metis authorized_child_iff in_children_of is_ok_simps(2))
  qed
next
  case (go r b)
  with assms(2) show ?thesis by simp
qed

lemma walk_maximal:
  assumes wf: "list_all wf_record rs"
    and "walk c observed_at now (child_table c (st_identity_id st) rs) st = Some res"
  shows "\<exists>st'. res = Inr st' \<and> (chain_extends c rs)\<^sup>*\<^sup>* st st' \<and> (\<forall>st''. \<not> chain_extends c rs st' st'')"
proof -
  define i where "i = st_identity_id st"
  have "walk c observed_at now (child_table c i rs) st = Some res"
    using assms(2) by (simp add: i_def)
  then have "st_identity_id st = i \<longrightarrow> (\<exists>st'. res = Inr st' \<and> (chain_extends c rs)\<^sup>*\<^sup>* st st'
      \<and> (\<forall>st''. \<not> chain_extends c rs st' st''))"
  proof (induction rule: walk_induct)
    case (fault st f)
    from wf show ?case
      using fault by (cases rule: child_table_step [where c = c and i = i and observed_at = observed_at
            and now = now and st = st]) simp_all
  next
    case (stop st)
    then show ?case
      using step_stops [OF wf] by blast
  next
    case (step st j b res)
    show ?case
    proof
      assume i: "st_identity_id st = i"
      then have "chain_extends c rs st (advance st j b)"
        using step_extends [OF wf] step.hyps by blast
      moreover have "st_identity_id (advance st j b) = i"
        using i by (simp add: advance_def)
      ultimately show "\<exists>st'. res = Inr st' \<and> (chain_extends c rs)\<^sup>*\<^sup>* st st' \<and> (\<forall>st''. \<not> chain_extends c rs st' st'')"
        using step.IH by (blast intro: converse_rtranclp_into_rtranclp)
    qed
  qed
  then show ?thesis
    by (simp add: i_def)
qed

text \<open>C17. What a verified state means. There is exactly one valid genesis among the records, the state
  is reached from it by authorized rotations only, and no record of the input extends it further.\<close>

theorem verify_chain_maximal:
  assumes "list_all wf_record rs" and "verify_chain c rs observed_at now = Some (Inr st)"
  shows "\<exists>g b i. filter (\<lambda>r. \<exists>b. is_genesis c r b) rs = [g] \<and> is_genesis c g b \<and> record_id_of c g = Inr i
    \<and> (chain_extends c rs)\<^sup>*\<^sup>* (genesis_state i b) st \<and> (\<forall>st'. \<not> chain_extends c rs st st')"
proof -
  from assms obtain g where g: "geneses c rs = [g]"
      and walk: "walk c observed_at now (child_table c (IdentityId (record_id_bytes (rid c g))) rs)
        (genesis_state (rid c g) (projr (rotation_body_parse g))) = Some (Inr st)"
    by (auto simp: verify_chain_wf split: list.splits)
  then have "g \<in> set (filter (\<lambda>r. \<exists>b. is_genesis c r b) rs)"
    by (simp add: geneses_def)
  then obtain b where b: "is_genesis c g b" and mem: "g \<in> set rs"
    by auto
  then have "projr (rotation_body_parse g) = b"
    by (simp add: is_genesis_def)
  then have "(chain_extends c rs)\<^sup>*\<^sup>* (genesis_state (rid c g) b) st \<and> (\<forall>st'. \<not> chain_extends c rs st st')"
    using walk_maximal [OF assms(1), of c observed_at now "genesis_state (rid c g) b"] walk
    by (simp add: genesis_state_def)
  moreover have "record_id_of c g = Inr (rid c g)"
    using mem assms(1) by (intro record_id_of_rid) (simp add: list_all_iff)
  ultimately show ?thesis
    using b g by (auto simp: geneses_def)
qed

section \<open>Termination\<close>

text \<open>The links from parent to child among the records with one ref.\<close>

definition parent_links :: "crypto \<Rightarrow> erecord list \<Rightarrow> (bytes \<times> bytes) set" where
  "parent_links c rs =
     {(ref_hash p, record_id_bytes i) | p i r. r \<in> set rs \<and> r_refs r = [p] \<and> record_id_of c r = Inr i}"

lemma parent_linksI:
  "\<lbrakk>r \<in> set rs; r_refs r = [p]; record_id_of c r = Inr i\<rbrakk>
   \<Longrightarrow> (ref_hash p, record_id_bytes i) \<in> parent_links c rs"
  by (auto simp: parent_links_def)

lemma finite_parent_links: "finite (parent_links c rs)"
proof (rule finite_subset)
  show "parent_links c rs \<subseteq> (\<lambda>r. (ref_hash (r_refs r ! 0), record_id_bytes (projr (record_id_of c r)))) ` set rs"
    by (force simp: parent_links_def)
qed simp

lemma chain_extends_link:
  "chain_extends c rs st st' \<Longrightarrow>
   (record_id_bytes (st_head st), record_id_bytes (st_head st')) \<in> parent_links c rs
   \<and> st_identity_id st' = st_identity_id st"
  by (elim chain_extendsE) (auto simp: advance_def dest: parent_linksI)

lemma walk_terminates:
  assumes wf: "list_all wf_record rs" and acyclic: "acyclic (parent_links c rs)"
  shows "\<exists>res. walk c observed_at now (child_table c (st_identity_id st) rs) st = Some res"
proof -
  have "wf ((parent_links c rs)\<inverse>)"
    using finite_parent_links acyclic by (rule finite_acyclic_wf_converse)
  then show ?thesis
  proof (induction "record_id_bytes (st_head st)" arbitrary: st rule: wf_induct_rule)
    case less
    from wf show ?case
    proof (cases rule: child_table_step [where c = c and i = "st_identity_id st" and observed_at = observed_at
          and now = now and st = st])
      case stop
      then show ?thesis
        by (subst walk.simps) simp
    next
      case (go r b)
      have "chain_extends c rs st (advance st (rid c r) b)"
        using step_extends [OF wf go(1)] .
      from chain_extends_link [OF this] less [of "advance st (rid c r) b"] go(1) show ?thesis
        by (subst walk.simps) simp
    qed
  qed
qed

text \<open>C18. Termination. When no record is, through parent links, its own ancestor, which takes a cycle
  of hashes, \<open>verify_chain\<close> returns on any well-formed records: a state, or one of the two genesis
  errors; it does not panic.\<close>

theorem verify_chain_returns:
  assumes "list_all wf_record rs" and "acyclic (parent_links c rs)"
  shows "\<exists>res. verify_chain c rs observed_at now = Some res
    \<and> (\<forall>f. res = Inl f \<longrightarrow> f = Err (Identity ''no valid genesis'')
         \<or> f = Err (Identity ''multiple genesis records in input''))"
proof (cases "\<exists>g. geneses c rs = [g]")
  case True
  then obtain g where g: "geneses c rs = [g]" by blast
  let ?st = "genesis_state (rid c g) (projr (rotation_body_parse g))"
  have id: "st_identity_id ?st = IdentityId (record_id_bytes (rid c g))"
    by (simp add: genesis_state_def)
  obtain res where res: "walk c observed_at now (child_table c (IdentityId (record_id_bytes (rid c g))) rs) ?st = Some res"
    using walk_terminates [OF assms, where st = ?st and observed_at = observed_at and now = now]
    unfolding id by blast
  moreover have "\<exists>st'. res = Inr st'"
    using walk_maximal [OF assms(1), of c observed_at now ?st] res unfolding id by blast
  ultimately show ?thesis
    using g by (auto simp: verify_chain_wf [OF assms(1)])
next
  case False
  then show ?thesis
    by (auto simp: verify_chain_wf [OF assms(1)] split: list.splits)
qed

section \<open>Independence of the input order\<close>

lemma min_by_id_set_eq:
  assumes "set xs = set ys"
    and "\<And>i b b'. (i, b) \<in> set xs \<Longrightarrow> (i, b') \<in> set xs \<Longrightarrow> b = b'"
  shows "min_by_id xs = min_by_id ys"
proof (cases "min_by_id xs")
  case None
  with assms(1) show ?thesis
    by (metis min_by_id_spec(1) set_empty)
next
  case (Some x)
  then have "ys \<noteq> []"
    using assms(1) by (metis min_by_id_spec(1) option.distinct(1) set_empty)
  then obtain y where y: "min_by_id ys = Some y"
    by (cases ys) simp_all
  note mx = min_by_id_spec(2) [OF Some] and my = min_by_id_spec(2) [OF y]
  then have "fst x = fst y"
    using assms(1) by (metis order_antisym)
  moreover from this have "snd x = snd y"
    using mx my assms(1) assms(2) [of "fst x" "snd x" "snd y"] by (metis prod.collapse)
  ultimately show ?thesis
    using Some y by (simp add: prod_eq_iff)
qed

lemma contender_cong: "set rs = set rs' \<Longrightarrow> contender c observed_at now st rs r = contender c observed_at now st rs' r"
  unfolding contender_def by (simp only:)

lemma contenderD:
  "contender c observed_at now st rs r \<Longrightarrow> r \<in> set rs \<and> is_ok (rotation_body_parse r)"
  unfolding contender_def Let_def signing_child_def recovery_child_def by (auto split: if_splits)

lemma parsed_kind: "is_ok (rotation_body_parse r) \<Longrightarrow> r_kind r = KIND_ROTATION"
  by (simp add: rotation_body_parse_def split: if_splits)

text \<open>No two of the records share an id and differ in their body.\<close>

definition no_id_collision :: "crypto \<Rightarrow> erecord list \<Rightarrow> bool" where
  "no_id_collision c rs \<longleftrightarrow>
     (\<forall>r\<in>set rs. \<forall>r'\<in>set rs. record_id_of c r = record_id_of c r' \<longrightarrow> r_body r = r_body r')"

lemma choose_child_set_eq:
  assumes "set rs = set rs'" and "list_all wf_record rs" and "no_id_collision c rs"
  shows "choose_child c observed_at now st rs = choose_child c observed_at now st rs'"
proof -
  let ?pair = "\<lambda>r. (rid c r, projr (rotation_body_parse r))"
  obtain cs where cs: "set cs = {r. contender c observed_at now st rs r}"
      "choose_child c observed_at now st rs = Inr (min_by_id (map ?pair cs))"
    using choose_child_contenders [OF assms(2)] by blast
  have "list_all wf_record rs'"
    using assms(1,2) by (simp add: list_all_iff)
  then obtain cs' where cs': "set cs' = {r. contender c observed_at now st rs' r}"
      "choose_child c observed_at now st rs' = Inr (min_by_id (map ?pair cs'))"
    using choose_child_contenders by blast
  have "set cs = set cs'"
    using cs(1) cs'(1) contender_cong [OF assms(1)] by simp
  moreover have "b = b'" if "(i, b) \<in> set (map ?pair cs)" "(i, b') \<in> set (map ?pair cs)" for i b b'
  proof -
    from that(1) obtain r where r: "r \<in> set cs" "i = rid c r" "b = projr (rotation_body_parse r)"
      by auto
    from that(2) obtain r' where r': "r' \<in> set cs" "i = rid c r'" "b' = projr (rotation_body_parse r')"
      by auto
    have con: "x \<in> set rs \<and> r_kind x = KIND_ROTATION" if "x \<in> set cs" for x
      using that cs(1) contenderD [of c observed_at now st rs x] parsed_kind [of x] by auto
    then have "r_body r = r_body r'"
      using r r' assms(2,3) by (simp add: no_id_collision_def list_all_iff record_id_of_rid)
    then show ?thesis
      using r r' con by (simp add: rotation_body_parse_def)
  qed
  ultimately have "min_by_id (map ?pair cs) = min_by_id (map ?pair cs')"
    by (intro min_by_id_set_eq) auto
  with cs cs' show ?thesis by simp
qed

lemma chain_step_perm:
  assumes "mset rs = mset rs'" and "list_all wf_record rs" and "no_id_collision c rs"
  shows "chain_step c observed_at now (child_table c i rs) st = chain_step c observed_at now (child_table c i rs') st"
proof -
  let ?h = "record_id_bytes (st_head st)"
  have "set rs = set rs'"
    using assms(1) by (rule mset_eq_setD)
  then have eq: "set (children_of c i rs ?h) = set (children_of c i rs' ?h)"
    by (simp add: children_of_def)
  then have nil: "children_of c i rs ?h = [] \<longleftrightarrow> children_of c i rs' ?h = []"
    by (metis set_empty)
  have "list_all wf_record (children_of c i rs ?h)" "no_id_collision c (children_of c i rs ?h)"
    using assms(2,3) by (auto simp: children_of_def list_all_iff no_id_collision_def)
  from choose_child_set_eq [OF eq this] nil show ?thesis
    by (simp add: chain_step_def child_table_def)
qed

lemma walk_cong:
  assumes "\<And>st. chain_step c observed_at now tab st = chain_step c observed_at now tab' st"
  shows "walk c observed_at now tab st = walk c observed_at now tab' st"
proof -
  have half: "walk c observed_at now t' st = Some res"
    if "walk c observed_at now t st = Some res"
      and eq: "\<And>st. chain_step c observed_at now t st = chain_step c observed_at now t' st" for t t' res
    using that(1)
  proof (induction rule: walk_induct)
    case (fault st f)
    then show ?case by (subst walk.simps) (simp add: eq [symmetric])
  next
    case (stop st)
    then show ?case by (subst walk.simps) (simp add: eq [symmetric])
  next
    case (step st i b res)
    then show ?case by (subst walk.simps) (simp add: eq [symmetric])
  qed
  show ?thesis
  proof (cases "walk c observed_at now tab st")
    case None
    then show ?thesis
      using half [of tab' _ tab] assms by (cases "walk c observed_at now tab' st") auto
  next
    case (Some res)
    then show ?thesis
      using half [of tab res tab'] assms by simp
  qed
qed

text \<open>C19. The order in which the records are given does not matter: any permutation verifies to the
  same state or the same error (or does not return either), provided no two records share an id and
  differ in their body.\<close>

theorem verify_chain_permutation:
  assumes "mset rs = mset rs'" and "list_all wf_record rs" and "no_id_collision c rs"
  shows "verify_chain c rs observed_at now = verify_chain c rs' observed_at now"
proof -
  have wf': "list_all wf_record rs'"
    using assms(1,2) by (metis list_all_iff mset_eq_setD)
  have geneses: "mset (geneses c rs) = mset (geneses c rs')"
    using assms(1) by (simp add: geneses_def)
  have "walk c observed_at now (child_table c i rs) st = walk c observed_at now (child_table c i rs') st" for i st
    using chain_step_perm [OF assms] by (rule walk_cong)
  then show ?thesis
    unfolding verify_chain_wf [OF assms(2)] verify_chain_wf [OF wf']
    using geneses by (auto split: list.splits dest: mset_eq_length)
qed

section \<open>Identities made by the code\<close>

text \<open>The rotation body in canonical key order, as signed records carry it.\<close>

definition rotation_body_canonical :: "rotation_body \<Rightarrow> val" where
  "rotation_body_canonical b =
     Map [(Text (str ''key''), Bytes (rb_key b)),
          (Text (str ''key_alg''), Uint (rb_key_alg b)),
          (Text (str ''recovery''), Array (map (\<lambda>(alg, key). Array [Uint alg, Bytes key]) (rb_recovery b))),
          (Text (str ''contest_window''), Uint (rb_contest_window b))]"

lemma into_canonical_rotation_body: "into_canonical (rotation_body_to_value b) = rotation_body_canonical b"
proof -
  have "map into_canonical (map (\<lambda>(alg, key). Array [Uint alg, Bytes key]) rs)
      = map (\<lambda>(alg, key). Array [Uint alg, Bytes key]) rs" for rs :: "alg_key list"
    by auto
  then show ?thesis
    by (simp add: rotation_body_to_value_def rotation_body_canonical_def into_canonical_Map canon_entry_def
        rotation_body_keys del: keybuf_simps)
qed

lemma rotation_body_canonical_wf [simp]:
  "canonical (rotation_body_canonical b)" "texts_valid (rotation_body_canonical b)"
  "as_map (rotation_body_canonical b) \<noteq> None" "as_map (rotation_body_to_value b) \<noteq> None"
  by (auto simp: rotation_body_canonical_def rotation_body_to_value_def list_all_iff rotation_body_keys ascii_keys
      simp del: keybuf_simps)

lemma rotation_body_encodes: "is_ok (encode_canonical (rotation_body_to_value b))"
  using encode_into_canonical [of "rotation_body_to_value b"]
    canonical_is_ok [OF rotation_body_canonical_wf(1), of b]
  by (simp only: into_canonical_rotation_body)

lemma rotation_body_parse_canonical:
  assumes "r_kind r = KIND_ROTATION" and "r_body r = rotation_body_canonical b"
  shows "rotation_body_parse r = Inr b"
  using assms
  by (simp add: rotation_body_parse_def rotation_body_canonical_def map_get_Cons recovery_entries)

lemma sign_rotation:
  assumes "crypto_laws c" and "keypair_ok kp" and "list_all wf_ref refs" and "length (identity_id_bytes i) = 32"
  obtains r where
    "sign_as c \<lparr> b_kind = KIND_ROTATION, b_created_at = t, b_refs = refs, b_body = rotation_body_to_value b \<rparr> kp i = Inr r"
    and "wf_record r" and "verify c r = Inr ()" and "r_kind r = KIND_ROTATION" and "r_refs r = refs"
    and "author_id (r_author r) = i" and "author_key (r_author r) = public_key_bytes c kp"
    and "r_sig_alg r = SIG_ALG_ED25519" and "rotation_body_parse r = Inr b"
proof -
  let ?b = "\<lparr> b_kind = KIND_ROTATION, b_created_at = t, b_refs = refs, b_body = rotation_body_to_value b \<rparr>"
  let ?r = "signed_record c ?b kp i"
  have tv: "texts_valid (rotation_body_to_value b)"
    using texts_valid_into_canonical [of "rotation_body_to_value b"]
    by (simp only: into_canonical_rotation_body rotation_body_canonical_wf)
  have body: "r_body ?r = rotation_body_canonical b"
    by (simp add: signed_record_def unsigned_record_def Let_def into_canonical_rotation_body)
  have fields: "r_kind ?r = KIND_ROTATION" "r_refs ?r = refs" "author_id (r_author ?r) = i"
    "author_key (r_author ?r) = public_key_bytes c kp" "r_sig_alg ?r = SIG_ALG_ED25519"
    by (simp_all add: signed_record_def unsigned_record_def Let_def)
  have "sign_as c ?b kp i = Inr ?r"
    by (simp add: sign_as_cases rotation_body_encodes)
  moreover have "wf_record ?r"
    using assms(3,4) tv by (intro wf_signed_record) (simp_all add: rotation_body_encodes)
  moreover have "verify c ?r = Inr ()"
    using assms(1,2) by (intro verify_signed_record) (simp_all add: rotation_body_encodes)
  ultimately show thesis
    using fields body rotation_body_parse_canonical [of ?r b] by (intro that [of ?r]) simp_all
qed

text \<open>C20. The rotation body survives signing: the record that a rotation is signed into parses back to
  the same key, algorithm, recovery keys and contest window.\<close>

theorem rotation_body_round_trip:
  assumes "sign_as c \<lparr> b_kind = KIND_ROTATION, b_created_at = t, b_refs = refs, b_body = rotation_body_to_value b \<rparr> kp i
    = Inr r"
  shows "rotation_body_parse r = Inr b"
proof -
  from assms have "r = signed_record c
      \<lparr> b_kind = KIND_ROTATION, b_created_at = t, b_refs = refs, b_body = rotation_body_to_value b \<rparr> kp i"
    by (simp add: sign_as_cases rotation_body_encodes)
  then show ?thesis
    by (intro rotation_body_parse_canonical)
      (simp_all add: signed_record_def unsigned_record_def Let_def into_canonical_rotation_body)
qed

lemma genesis_record:
  assumes "crypto_laws c" and "keypair_ok kp"
    and "genesis c kp recovery window t = Inr (i, g)"
  defines "b \<equiv> \<lparr> rb_key = public_key_bytes c kp, rb_key_alg = SIG_ALG_ED25519, rb_recovery = recovery,
                rb_contest_window = window \<rparr>"
  shows "wf_record g" and "is_genesis c g b" and "i = IdentityId (record_id_bytes (rid c g))"
    and "length (identity_id_bytes i) = 32"
proof -
  have zero: "length (identity_id_bytes identity_zero) = 32"
    by (simp add: identity_zero_def)
  obtain r where r: "sign_as c \<lparr> b_kind = KIND_ROTATION, b_created_at = t, b_refs = [], b_body = rotation_body_to_value b \<rparr>
        kp identity_zero = Inr r"
      "wf_record r" "verify c r = Inr ()" "r_kind r = KIND_ROTATION" "r_refs r = []"
      "author_id (r_author r) = identity_zero" "author_key (r_author r) = public_key_bytes c kp"
      "r_sig_alg r = SIG_ALG_ED25519" "rotation_body_parse r = Inr b"
    by (rule sign_rotation [where c = c and kp = kp and refs = "[]" and i = identity_zero and b = b and t = t])
      (use assms(1,2) zero in simp_all)
  then have "genesis c kp recovery window t = Inr (IdentityId (record_id_bytes (rid c r)), r)"
    by (simp add: genesis_def builder_new_def builder_created_at_def builder_body_def b_def record_id_of_rid)
  then have i: "i = IdentityId (record_id_bytes (rid c r))" and g: "g = r"
    using assms(3) by simp_all
  show "wf_record g" and "is_genesis c g b" and "i = IdentityId (record_id_bytes (rid c g))"
    using r i by (simp_all add: g is_genesis_def b_def)
  show "length (identity_id_bytes i) = 32"
    using crypto_lawsD(1) [OF assms(1)] by (simp add: i rid_def)
qed

text \<open>C21. A new identity verifies to itself: \<open>verify_chain\<close> on the genesis record alone returns the
  announced identity with the keypair's key, the recovery keys and the window, at depth 0.\<close>

theorem genesis_verifies:
  assumes "crypto_laws c" and "keypair_ok kp" and "genesis c kp recovery window t = Inr (i, g)"
  shows "verify_chain c [g] observed_at now = Some (Inr
    \<lparr> st_identity_id = i, st_signing_key = public_key_bytes c kp, st_key_alg = SIG_ALG_ED25519,
      st_recovery = recovery, st_contest_window = window, st_head = RecordId (identity_id_bytes i), st_depth = 0 \<rparr>)"
proof -
  note g = genesis_record [OF assms]
  then have wf: "list_all wf_record [g]" and gs: "geneses c [g] = [g]"
    by (auto simp: geneses_def)
  have "children_of c j [g] h = []" for j h
    using g(2) by (simp add: children_of_def rotation_for_def is_genesis_def)
  then have "chain_step c observed_at now (child_table c j [g]) st = Inr None" for j st
    by (simp add: chain_step_def child_table_def)
  then have "walk c observed_at now (child_table c j [g]) st = Some (Inr st)" for j st
    by (subst walk.simps) simp
  then show ?thesis
    using g(2) unfolding verify_chain_wf [OF wf] gs
    by (simp add: genesis_state_def is_genesis_def g(3))
qed

text \<open>C22. A rotation takes over: after the owner signs a rotation to a new key, \<open>verify_chain\<close> on the
  genesis and the rotation, in either order, returns the new key and recovery set with the rotation as
  the head, at depth 1, when the two records have different ids.\<close>

theorem rotation_takes_over:
  assumes "crypto_laws c" and "keypair_ok kp" and "genesis c kp recovery window t = Inr (i, g)"
    and "rotate c i (RecordId (identity_id_bytes i)) key alg recovery' window' t' kp = Inr r"
    and "record_id_of c r \<noteq> record_id_of c g" and "rs = [g, r] \<or> rs = [r, g]"
  shows "\<exists>head. record_id_of c r = Inr head \<and> verify_chain c rs observed_at now = Some (Inr
    \<lparr> st_identity_id = i, st_signing_key = key, st_key_alg = alg, st_recovery = recovery',
      st_contest_window = window', st_head = head, st_depth = 1 \<rparr>)"
proof -
  define b where "b = \<lparr> rb_key = public_key_bytes c kp, rb_key_alg = SIG_ALG_ED25519, rb_recovery = recovery,
      rb_contest_window = window \<rparr>"
  define b' where "b' = \<lparr> rb_key = key, rb_key_alg = alg, rb_recovery = recovery', rb_contest_window = window' \<rparr>"
  note g = genesis_record [OF assms(1-3), folded b_def]
  let ?refs = "[ref_record (RecordId (identity_id_bytes i))]"
  have refs: "list_all wf_ref ?refs"
    using g(4) by (simp add: wf_ref_def ref_record_def)
  obtain r' where r': "sign_as c \<lparr> b_kind = KIND_ROTATION, b_created_at = t', b_refs = ?refs, b_body = rotation_body_to_value b' \<rparr>
        kp i = Inr r'"
      "wf_record r'" "verify c r' = Inr ()" "r_kind r' = KIND_ROTATION" "r_refs r' = ?refs"
      "author_id (r_author r') = i" "author_key (r_author r') = public_key_bytes c kp"
      "r_sig_alg r' = SIG_ALG_ED25519" "rotation_body_parse r' = Inr b'"
    by (rule sign_rotation [where c = c and kp = kp and refs = ?refs and i = i and b = b' and t = t'])
      (use assms(1,2) refs g(4) in simp_all)
  have "r' = r"
    using r'(1) assms(4)
    by (simp add: rotate_def builder_new_def builder_created_at_def builder_body_def builder_ref_def b'_def)
  note r = r' [unfolded this]
  have wf: "list_all wf_record rs"
    using assms(6) g(1) r(2) by auto
  have ids: "rid c r \<noteq> rid c g"
    using assms(5) g(1) r(2) by (simp add: record_id_of_rid)
  have "geneses c rs = [g]"
    using assms(6) g(2) r(5) by (auto simp: geneses_def is_genesis_def)
  moreover have kids: "children_of c i rs h = (if h = record_id_bytes (rid c g) then [r] else [])" for h
    using assms(6) g(2) r by (auto simp: children_of_def rotation_for_def parent_of_def is_genesis_def
        is_record_def ref_record_def g(3))
  define st where "st = genesis_state (rid c g) b"
  have sign: "signing_child st r" and "\<not> recovery_child st r"
    using r by (simp_all add: st_def genesis_state_def signing_child_def recovery_child_def is_signing_key_def b_def)
  then have "chain_step c observed_at now (child_table c i rs) st = Inr (Some (rid c r, b'))"
    by (cases rule: child_table_step [OF wf, where c = c and i = i and observed_at = observed_at and now = now and st = st])
      (auto simp: kids st_def genesis_state_def r(9))
  moreover have "chain_step c observed_at now (child_table c i rs) (advance st (rid c r) b') = Inr None"
  proof -
    have "record_id_bytes (rid c r) \<noteq> record_id_bytes (rid c g)"
      using ids by (auto intro: record_id.expand)
    then show ?thesis
      by (simp add: chain_step_def child_table_def kids advance_def)
  qed
  ultimately have "walk c observed_at now (child_table c i rs) st = Some (Inr (advance st (rid c r) b'))"
    by (simp add: walk.simps)
  then have "verify_chain c rs observed_at now = Some (Inr (advance st (rid c r) b'))"
    using \<open>geneses c rs = [g]\<close> g(2) unfolding verify_chain_wf [OF wf]
    by (simp add: is_genesis_def st_def g(3))
  then show ?thesis
    using r(2) by (simp add: record_id_of_rid advance_def st_def genesis_state_def b'_def g(3))
qed

end
