(* ===== verification/IdentityExamples.thy ===== *)
theory IdentityExamples
  imports IdentitySpec
begin

text \<open>
  The properties of \<open>IdentitySpec\<close> applied at concrete records of the toy cryptography.
\<close>

section \<open>A concrete identity\<close>

text \<open>
  A genesis record and a rotation of the toy instance, for the witnesses: the identity of
  \<open>sample_keys\<close> with one recovery key and an hour's contest window, and its rotation to another key.
\<close>

definition sample_identity :: identity_id where
  "sample_identity = IdentityId
     [30, 119, 131, 139, 250, 221, 172, 236, 181, 23, 107, 55, 1, 123, 38, 228,
      242, 221, 255, 223, 146, 241, 231, 230, 240, 225, 235, 152, 136, 36, 129, 135]"

definition sample_rotation_id :: record_id where
  "sample_rotation_id = RecordId
     [209, 146, 225, 238, 237, 10, 249, 221, 22, 226, 241, 247, 254, 120, 115, 40,
      142, 11, 65, 2, 212, 106, 223, 11, 178, 115, 92, 153, 231, 113, 182, 87]"

definition sample_genesis :: erecord where
  "sample_genesis =
     \<lparr> r_kind = 1, r_author = \<lparr> author_id = identity_zero, author_key = replicate 32 7 \<rparr>,
       r_created_at = 0, r_refs = [],
       r_body = rotation_body_canonical
         \<lparr> rb_key = replicate 32 7, rb_key_alg = 1, rb_recovery = [(1, replicate 32 5)], rb_contest_window = 3600 \<rparr>,
       r_sig_alg = 1,
       r_sig = replicate 32 7 @
         [30, 119, 131, 139, 250, 221, 172, 236, 181, 23, 107, 55, 1, 124, 139, 90,
          87, 79, 108, 68, 5, 89, 33, 88, 85, 68, 90, 10, 236, 94, 247, 184] \<rparr>"

definition sample_rotation :: erecord where
  "sample_rotation =
     \<lparr> r_kind = 1, r_author = \<lparr> author_id = sample_identity, author_key = replicate 32 7 \<rparr>,
       r_created_at = 10, r_refs = [\<lparr> ref_type = 0, ref_hash = identity_id_bytes sample_identity \<rparr>],
       r_body = rotation_body_canonical
         \<lparr> rb_key = replicate 32 8, rb_key_alg = 1, rb_recovery = [], rb_contest_window = 0 \<rparr>,
       r_sig_alg = 1,
       r_sig = replicate 32 7 @
         [209, 146, 225, 238, 237, 10, 249, 221, 22, 226, 241, 247, 254, 121, 216, 158,
          243, 125, 174, 103, 71, 210, 25, 125, 23, 214, 203, 11, 75, 171, 44, 136] \<rparr>"

definition sample_state :: identity_state where
  "sample_state =
     \<lparr> st_identity_id = sample_identity, st_signing_key = replicate 32 7, st_key_alg = 1,
       st_recovery = [(1, replicate 32 5)], st_contest_window = 3600,
       st_head = RecordId (identity_id_bytes sample_identity), st_depth = 0 \<rparr>"

lemma sample_genesis_made:
  "genesis toy_crypto sample_keys [(1, replicate 32 5)] 3600 0 = Inr (sample_identity, sample_genesis)"
  by code_simp

lemma sample_rotation_made:
  "rotate toy_crypto sample_identity (RecordId (identity_id_bytes sample_identity)) (replicate 32 8) 1 [] 0 10 sample_keys
   = Inr sample_rotation"
  by code_simp

lemma sample_wf: "wf_record sample_genesis" "wf_record sample_rotation"
  by code_simp+

lemma sample_ids:
  "record_id_of toy_crypto sample_genesis = Inr (RecordId (identity_id_bytes sample_identity))"
  "record_id_of toy_crypto sample_rotation = Inr sample_rotation_id"
  by code_simp+

abbreviation seen_at_0 :: "record_id \<Rightarrow> i64 option" where
  "seen_at_0 \<equiv> \<lambda>_. Some 0"

lemma sample_choice:
  "choose_child toy_crypto seen_at_0 4000 sample_state [sample_rotation]
   = Inr (Some (sample_rotation_id,
       \<lparr> rb_key = replicate 32 8, rb_key_alg = 1, rb_recovery = [], rb_contest_window = 0 \<rparr>))"
  by code_simp

lemma sample_verified: "verify_chain toy_crypto [sample_genesis] (\<lambda>_. None) 0 = Some (Inr sample_state)"
  by code_simp

lemma sample_rid:
  "rid toy_crypto sample_genesis = RecordId (identity_id_bytes sample_identity)"
  "rid toy_crypto sample_rotation = sample_rotation_id"
  using sample_ids sample_wf by (simp_all add: record_id_of_rid)

lemma sample_ids_differ:
  "sample_rotation_id \<noteq> RecordId (identity_id_bytes sample_identity)"
  "record_id_bytes sample_rotation_id \<noteq> identity_id_bytes sample_identity"
  by code_simp+

section \<open>Witnesses\<close>



lemma contest_window_exact_witness: "is_final toy_crypto seen_at_0 4000 sample_state sample_rotation = Inr True"
  using contest_window_exact [OF sample_wf(2), of toy_crypto seen_at_0 4000 sample_state]
  by (simp add: sample_state_def)

lemma verify_chain_maximal_witness: "\<forall>st. \<not> chain_extends toy_crypto [sample_genesis] sample_state st"
  using verify_chain_maximal [of "[sample_genesis]" toy_crypto "\<lambda>_. None" 0 sample_state] sample_verified sample_wf
  by auto

lemma verify_chain_returns_witness:
  "\<exists>res. verify_chain toy_crypto [sample_genesis, sample_rotation] (\<lambda>_. None) 0 = Some res"
proof -
  have "r_refs sample_genesis = []" and "r_refs sample_rotation = [\<lparr> ref_type = 0, ref_hash = identity_id_bytes sample_identity \<rparr>]"
    by (simp_all add: sample_genesis_def sample_rotation_def)
  then have "parent_links toy_crypto [sample_genesis, sample_rotation]
      \<subseteq> {(identity_id_bytes sample_identity, record_id_bytes sample_rotation_id)}"
    using sample_ids by (auto simp: parent_links_def)
  moreover have "acyclic {(identity_id_bytes sample_identity, record_id_bytes sample_rotation_id)}"
    using sample_ids_differ(2) by (auto simp: acyclic_insert wf_acyclic)
  ultimately have "acyclic (parent_links toy_crypto [sample_genesis, sample_rotation])"
    by (rule acyclic_subset [rotated])
  then show ?thesis
    using verify_chain_returns [of "[sample_genesis, sample_rotation]" toy_crypto "\<lambda>_. None" 0] sample_wf by auto
qed

lemma verify_chain_permutation_witness:
  "verify_chain toy_crypto [sample_genesis, sample_rotation] (\<lambda>_. None) 0
   = verify_chain toy_crypto [sample_rotation, sample_genesis] (\<lambda>_. None) 0"
proof (rule verify_chain_permutation)
  show "no_id_collision toy_crypto [sample_genesis, sample_rotation]"
    using sample_ids_differ by (auto simp: no_id_collision_def sample_ids)
qed (use sample_wf in auto)

lemma rotation_body_round_trip_witness:
  "rotation_body_parse sample_rotation
   = Inr \<lparr> rb_key = replicate 32 8, rb_key_alg = 1, rb_recovery = [], rb_contest_window = 0 \<rparr>"
  using sample_rotation_made rotation_body_round_trip
  unfolding rotate_def Let_def builder_new_def builder_created_at_def builder_ref_def builder_body_def
  by fastforce

lemma genesis_verifies_witness:
  "verify_chain toy_crypto [sample_genesis] (\<lambda>_. None) 0 = Some (Inr sample_state)"
proof -
  have "keypair_ok sample_keys" and "public_key_bytes toy_crypto sample_keys = replicate 32 7"
    by code_simp+
  then show ?thesis
    using genesis_verifies [OF crypto_laws_toy _ sample_genesis_made]
    by (simp add: sample_state_def SIG_ALG_ED25519_def)
qed

lemma rotation_takes_over_witness:
  "verify_chain toy_crypto [sample_genesis, sample_rotation] (\<lambda>_. None) 0 = Some (Inr
    \<lparr> st_identity_id = sample_identity, st_signing_key = replicate 32 8, st_key_alg = 1, st_recovery = [],
      st_contest_window = 0, st_head = sample_rotation_id, st_depth = 1 \<rparr>)"
proof -
  have "keypair_ok sample_keys"
    by code_simp
  moreover have "record_id_of toy_crypto sample_rotation \<noteq> record_id_of toy_crypto sample_genesis"
    using sample_ids_differ by (simp add: sample_ids)
  ultimately show ?thesis
    using rotation_takes_over [OF crypto_laws_toy _ sample_genesis_made sample_rotation_made] sample_ids(2)
    by fastforce
qed

end
