(* ===== verification/KindsBase.thy ===== *)
theory KindsBase
  imports Envelope "HOL-Library.Sublist"
begin

text \<open>
  What the typed record kinds share (\<open>crates/evermesh-kernel/src/kinds/mod.rs\<close>): the kind ids, the
  field readers of record bodies and the checks on refs; the shape in which \<open>to_body\<close> builds a body;
  and the interface of a kind wrapper, \<open>parse\<close>, \<open>to_body\<close> and \<open>refs\<close>, as a locale.

  Length limits are integers, since \<open>usize::MAX\<close> is one of them.
\<close>

section \<open>Kind ids\<close>

definition KIND_PROFILE :: u64 where "KIND_PROFILE = 2"
definition KIND_DELEGATE :: u64 where "KIND_DELEGATE = 3"
definition KIND_MANIFEST :: u64 where "KIND_MANIFEST = 16"
definition KIND_SUPERSEDE :: u64 where "KIND_SUPERSEDE = 17"
definition KIND_RETRACT :: u64 where "KIND_RETRACT = 18"
definition KIND_MIRROR :: u64 where "KIND_MIRROR = 19"
definition KIND_SIMILARITY :: u64 where "KIND_SIMILARITY = 20"
definition KIND_COMMENT :: u64 where "KIND_COMMENT = 32"
definition KIND_REACTION :: u64 where "KIND_REACTION = 33"
definition KIND_FOLLOW :: u64 where "KIND_FOLLOW = 34"
definition KIND_PLAYLIST :: u64 where "KIND_PLAYLIST = 35"
definition KIND_CHANNEL :: u64 where "KIND_CHANNEL = 36"
definition KIND_CLAIM_AUTHOR :: u64 where "KIND_CLAIM_AUTHOR = 48"
definition KIND_CLAIM_LICENSE :: u64 where "KIND_CLAIM_LICENSE = 49"
definition KIND_CLAIM_TRANSFER :: u64 where "KIND_CLAIM_TRANSFER = 50"
definition KIND_CLAIM_DISPUTE :: u64 where "KIND_CLAIM_DISPUTE = 51"
definition KIND_NOTICE_TAKEDOWN :: u64 where "KIND_NOTICE_TAKEDOWN = 64"
definition KIND_NOTICE_COUNTER :: u64 where "KIND_NOTICE_COUNTER = 65"
definition KIND_FEED_TAKEDOWN :: u64 where "KIND_FEED_TAKEDOWN = 66"
definition KIND_ENDORSE_GATEWAY :: u64 where "KIND_ENDORSE_GATEWAY = 80"
definition KIND_RECEIPT :: u64 where "KIND_RECEIPT = 81"
definition KIND_ATTEST :: u64 where "KIND_ATTEST = 82"
definition KIND_ANCHOR :: u64 where "KIND_ANCHOR = 96"
definition KIND_KEYGRANT :: u64 where "KIND_KEYGRANT = 97"
definition KIND_LIVE_MANIFEST :: u64 where "KIND_LIVE_MANIFEST = 112"
definition KIND_LIVE_CHAT :: u64 where "KIND_LIVE_CHAT = 113"

section \<open>Field readers\<close>

definition field :: "val \<Rightarrow> string \<Rightarrow> val option" where
  "field body key = map_get body (str key)"

definition text_field :: "val \<Rightarrow> string \<Rightarrow> int \<Rightarrow> string \<Rightarrow> error + bytes option" where
  "text_field body key max_len msg =
     (case field body key of
        None \<Rightarrow> Inr None
      | Some v \<Rightarrow>
          and_then (ok_or (as_text v) (Kind msg)) (\<lambda>s.
          if max_len < int (length s) then Inl (Kind msg) else Inr (Some s)))"

definition required_text :: "val \<Rightarrow> string \<Rightarrow> int \<Rightarrow> string \<Rightarrow> error + bytes" where
  "required_text body key max_len msg =
     and_then (text_field body key max_len msg) (\<lambda>o'. ok_or o' (Kind msg))"

definition required_nonempty_text :: "val \<Rightarrow> string \<Rightarrow> int \<Rightarrow> string \<Rightarrow> error + bytes" where
  "required_nonempty_text body key max_len msg =
     and_then (required_text body key max_len msg) (\<lambda>s. if s = [] then Inl (Kind msg) else Inr s)"

definition u64_field :: "val \<Rightarrow> string \<Rightarrow> string \<Rightarrow> error + u64 option" where
  "u64_field body key msg =
     (case field body key of None \<Rightarrow> Inr None | Some v \<Rightarrow> ok_or (map_option Some (as_u64 v)) (Kind msg))"

definition required_u64 :: "val \<Rightarrow> string \<Rightarrow> string \<Rightarrow> error + u64" where
  "required_u64 body key msg = and_then (u64_field body key msg) (\<lambda>o'. ok_or o' (Kind msg))"

definition i64_field :: "val \<Rightarrow> string \<Rightarrow> string \<Rightarrow> error + i64 option" where
  "i64_field body key msg =
     (case field body key of None \<Rightarrow> Inr None | Some v \<Rightarrow> ok_or (map_option Some (as_i64 v)) (Kind msg))"

definition bool_field :: "val \<Rightarrow> string \<Rightarrow> string \<Rightarrow> error + bool option" where
  "bool_field body key msg =
     (case field body key of None \<Rightarrow> Inr None | Some v \<Rightarrow> ok_or (map_option Some (as_bool v)) (Kind msg))"

definition bool_or :: "val \<Rightarrow> string \<Rightarrow> bool \<Rightarrow> string \<Rightarrow> error + bool" where
  "bool_or body key dflt msg =
     and_then (bool_field body key msg) (\<lambda>o'. Inr (case o' of None \<Rightarrow> dflt | Some b \<Rightarrow> b))"

definition required_bool :: "val \<Rightarrow> string \<Rightarrow> string \<Rightarrow> error + bool" where
  "required_bool body key msg = and_then (bool_field body key msg) (\<lambda>o'. ok_or o' (Kind msg))"

definition bytes_field :: "val \<Rightarrow> string \<Rightarrow> string \<Rightarrow> error + bytes option" where
  "bytes_field body key msg =
     (case field body key of None \<Rightarrow> Inr None | Some v \<Rightarrow> ok_or (map_option Some (as_bytes v)) (Kind msg))"

definition required_bytes :: "val \<Rightarrow> string \<Rightarrow> string \<Rightarrow> error + bytes" where
  "required_bytes body key msg = and_then (bytes_field body key msg) (\<lambda>o'. ok_or o' (Kind msg))"

text \<open>\<open>try_into\<close> a \<open>[u8; 32]\<close>.\<close>

definition to_array32 :: "bytes \<Rightarrow> error \<Rightarrow> error + bytes" where
  "to_array32 b e = (if length b = 32 then Inr b else Inl e)"

definition bytes32_field :: "val \<Rightarrow> string \<Rightarrow> string \<Rightarrow> error + bytes option" where
  "bytes32_field body key msg =
     (case field body key of
        None \<Rightarrow> Inr None
      | Some v \<Rightarrow>
          and_then (ok_or (as_bytes v) (Kind msg)) (\<lambda>b.
          and_then (to_array32 b (Kind msg)) (\<lambda>arr. Inr (Some arr))))"

definition required_bytes32 :: "val \<Rightarrow> string \<Rightarrow> string \<Rightarrow> error + bytes" where
  "required_bytes32 body key msg = and_then (bytes32_field body key msg) (\<lambda>o'. ok_or o' (Kind msg))"

definition blob_id_field :: "val \<Rightarrow> string \<Rightarrow> string \<Rightarrow> error + blob_id option" where
  "blob_id_field body key msg = and_then (bytes32_field body key msg) (\<lambda>o'. Inr (map_option BlobId o'))"

definition required_blob_id :: "val \<Rightarrow> string \<Rightarrow> string \<Rightarrow> error + blob_id" where
  "required_blob_id body key msg = and_then (blob_id_field body key msg) (\<lambda>o'. ok_or o' (Kind msg))"

definition identity_id_field :: "val \<Rightarrow> string \<Rightarrow> string \<Rightarrow> error + identity_id option" where
  "identity_id_field body key msg = and_then (bytes32_field body key msg) (\<lambda>o'. Inr (map_option IdentityId o'))"

definition required_identity_id :: "val \<Rightarrow> string \<Rightarrow> string \<Rightarrow> error + identity_id" where
  "required_identity_id body key msg = and_then (identity_id_field body key msg) (\<lambda>o'. ok_or o' (Kind msg))"

definition array_field :: "val \<Rightarrow> string \<Rightarrow> string \<Rightarrow> error + val list option" where
  "array_field body key msg =
     (case field body key of None \<Rightarrow> Inr None | Some v \<Rightarrow> ok_or (map_option Some (as_array v)) (Kind msg))"

definition required_array :: "val \<Rightarrow> string \<Rightarrow> string \<Rightarrow> error + val list" where
  "required_array body key msg = and_then (array_field body key msg) (\<lambda>o'. ok_or o' (Kind msg))"

definition kind_parse_items :: "val \<Rightarrow> string \<Rightarrow> string \<Rightarrow> (val \<Rightarrow> error + 'a) \<Rightarrow> error + 'a list" where
  "kind_parse_items body key msg f =
     and_then (array_field body key msg) (\<lambda>o'. case o' of None \<Rightarrow> Inr [] | Some arr \<Rightarrow> try_map f arr)"

definition blob_id_item :: "string \<Rightarrow> val \<Rightarrow> error + blob_id" where
  "blob_id_item msg v =
     and_then (ok_or (as_bytes v) (Kind msg)) (\<lambda>b.
     and_then (to_array32 b (Kind msg)) (\<lambda>a. Inr (BlobId a)))"

definition blob_id_array :: "val \<Rightarrow> string \<Rightarrow> string \<Rightarrow> error + blob_id list" where
  "blob_id_array body key msg =
     and_then (array_field body key msg) (\<lambda>o'.
       case o' of None \<Rightarrow> Inr [] | Some arr \<Rightarrow> try_map (blob_id_item msg) arr)"

definition text_item :: "int \<Rightarrow> string \<Rightarrow> val \<Rightarrow> error + bytes" where
  "text_item max_item_len msg v =
     and_then (ok_or (as_text v) (Kind msg)) (\<lambda>s.
     if max_item_len < int (length s) then Inl (Kind msg) else Inr s)"

definition text_array :: "val \<Rightarrow> string \<Rightarrow> int \<Rightarrow> string \<Rightarrow> error + bytes list" where
  "text_array body key max_item_len msg =
     and_then (array_field body key msg) (\<lambda>o'.
       case o' of None \<Rightarrow> Inr [] | Some arr \<Rightarrow> try_map (text_item max_item_len msg) arr)"

definition refs_empty :: "erecord \<Rightarrow> string \<Rightarrow> error + unit" where
  "refs_empty record msg = (if r_refs record = [] then Inr () else Inl (Kind msg))"

definition refs_exact :: "erecord \<Rightarrow> nat \<Rightarrow> string \<Rightarrow> error + unit" where
  "refs_exact record n msg = (if length (r_refs record) = n then Inr () else Inl (Kind msg))"

definition refs_min :: "erecord \<Rightarrow> nat \<Rightarrow> string \<Rightarrow> error + unit" where
  "refs_min record n msg = (if n \<le> length (r_refs record) then Inr () else Inl (Kind msg))"

definition ref_record_id :: "eref \<Rightarrow> string \<Rightarrow> error + record_id" where
  "ref_record_id r msg = (if is_record r then Inr (RecordId (ref_hash r)) else Inl (Kind msg))"

definition validate_license :: "bytes \<Rightarrow> error + unit" where
  "validate_license s =
     (if s = [] \<or> 64 < length s then Inl (Kind ''license must be 1-64 bytes'') else Inr ())"

section \<open>What a successful read says\<close>

definition fits :: "int \<Rightarrow> bytes \<Rightarrow> bool" where
  "fits n s \<longleftrightarrow> int (length s) \<le> n"

lemma as_eq_Some [simp]:
  "as_text v = Some s \<longleftrightarrow> v = Text s" "as_u64 v = Some n \<longleftrightarrow> v = Uint n"
  "as_bytes v = Some b \<longleftrightarrow> v = Bytes b" "as_bool v = Some t \<longleftrightarrow> v = Bool t"
  "as_array v = Some vs \<longleftrightarrow> v = Array vs" "as_map v = Some m \<longleftrightarrow> v = Map m"
  by (cases v; auto)+

lemma to_array32_eq_Inr [result_simps]: "to_array32 b e = Inr a \<longleftrightarrow> a = b \<and> length b = 32"
  by (auto simp: to_array32_def)

text \<open>A field that may be absent, read with \<open>rd\<close>.\<close>

lemma option_field:
  "(case x of None \<Rightarrow> Inr None | Some v \<Rightarrow> ok_or (map_option Some (rd v)) e) = Inr y \<longleftrightarrow>
   (x = None \<and> y = None) \<or> (\<exists>v a. x = Some v \<and> rd v = Some a \<and> y = Some a)"
  by (auto simp: result_simps split: option.splits)

lemma map_option_eq_iff: "inj f \<Longrightarrow> map_option f x = map_option f y \<longleftrightarrow> x = y"
  by (metis inj_eq option.inj_map)

text \<open>A field that may be absent holds what \<open>map_option\<close> writes.\<close>

lemma optional_field:
  assumes "\<And>v a. rd v = Some a \<longleftrightarrow> v = w a"
  shows "(case x of None \<Rightarrow> Inr None | Some v \<Rightarrow> ok_or (map_option Some (rd v)) e) = Inr y
    \<longleftrightarrow> x = map_option w y"
  by (cases y) (auto simp: assms option_field)

lemma as_i64_eq_Some [simp]: "as_i64 v = Some x \<longleftrightarrow> v = from_i64 x"
  using as_i64_of_from_i64 from_i64_of_as_i64 by blast

lemma field_eq_Inr:
  "text_field b k n m = Inr y \<longleftrightarrow> field b k = map_option Text y \<and> pred_option (fits n) y"
  "u64_field b k m = Inr u \<longleftrightarrow> field b k = map_option Uint u"
  "i64_field b k m = Inr i \<longleftrightarrow> field b k = map_option from_i64 i"
  "bool_field b k m = Inr t \<longleftrightarrow> field b k = map_option Bool t"
  "bytes_field b k m = Inr z \<longleftrightarrow> field b k = map_option Bytes z"
  "array_field b k m = Inr a \<longleftrightarrow> field b k = map_option Array a"
  "bytes32_field b k m = Inr z \<longleftrightarrow> field b k = map_option Bytes z \<and> pred_option (\<lambda>s. length s = 32) z"
proof -
  show "text_field b k n m = Inr y \<longleftrightarrow> field b k = map_option Text y \<and> pred_option (fits n) y"
    by (cases y) (auto simp: text_field_def fits_def result_simps not_less split: option.splits if_splits)
  show "bytes32_field b k m = Inr z \<longleftrightarrow> field b k = map_option Bytes z \<and> pred_option (\<lambda>s. length s = 32) z"
    by (cases z) (auto simp: bytes32_field_def result_simps split: option.splits)
qed (simp_all add: u64_field_def i64_field_def bool_field_def bytes_field_def array_field_def optional_field)

lemma id_field_eq_Inr:
  "blob_id_field b k m = Inr ob \<longleftrightarrow> field b k = map_option (\<lambda>x. Bytes (blob_id_bytes x)) ob
     \<and> pred_option (\<lambda>x. length (blob_id_bytes x) = 32) ob"
  "identity_id_field b k m = Inr oi \<longleftrightarrow> field b k = map_option (\<lambda>x. Bytes (identity_id_bytes x)) oi
     \<and> pred_option (\<lambda>x. length (identity_id_bytes x) = 32) oi"
proof -
  have "map_option BlobId z = ob \<longleftrightarrow> z = map_option blob_id_bytes ob"
    "map_option IdentityId z = oi \<longleftrightarrow> z = map_option identity_id_bytes oi" for z
    by (auto simp: option.map_comp comp_def option.map_ident)
  then show "blob_id_field b k m = Inr ob \<longleftrightarrow> field b k = map_option (\<lambda>x. Bytes (blob_id_bytes x)) ob
     \<and> pred_option (\<lambda>x. length (blob_id_bytes x) = 32) ob"
    "identity_id_field b k m = Inr oi \<longleftrightarrow> field b k = map_option (\<lambda>x. Bytes (identity_id_bytes x)) oi
     \<and> pred_option (\<lambda>x. length (identity_id_bytes x) = 32) oi"
    by (simp_all add: blob_id_field_def identity_id_field_def and_then_eq_Inr field_eq_Inr
        option.map_comp comp_def option.pred_map)
qed

lemma required_eq_Inr:
  "required_text b k n m = Inr s \<longleftrightarrow> field b k = Some (Text s) \<and> fits n s"
  "required_nonempty_text b k n m = Inr s \<longleftrightarrow> field b k = Some (Text s) \<and> fits n s \<and> s \<noteq> []"
  "required_u64 b k m = Inr u \<longleftrightarrow> field b k = Some (Uint u)"
  "required_bool b k m = Inr t \<longleftrightarrow> field b k = Some (Bool t)"
  "required_bytes b k m = Inr z \<longleftrightarrow> field b k = Some (Bytes z)"
  "required_bytes32 b k m = Inr z \<longleftrightarrow> field b k = Some (Bytes z) \<and> length z = 32"
  "required_array b k m = Inr vs \<longleftrightarrow> field b k = Some (Array vs)"
  "required_blob_id b k m = Inr i \<longleftrightarrow> field b k = Some (Bytes (blob_id_bytes i)) \<and> length (blob_id_bytes i) = 32"
  "required_identity_id b k m = Inr j \<longleftrightarrow>
     field b k = Some (Bytes (identity_id_bytes j)) \<and> length (identity_id_bytes j) = 32"
  by (auto simp: required_text_def required_nonempty_text_def required_u64_def required_bool_def
      required_bytes_def required_bytes32_def required_array_def required_blob_id_def
      required_identity_id_def field_eq_Inr id_field_eq_Inr result_simps split: if_splits)

lemma bool_or_eq_Inr:
  "bool_or b k d m = Inr t \<longleftrightarrow> field b k = Some (Bool t) \<or> (field b k = None \<and> t = d)"
  by (auto simp: bool_or_def field_eq_Inr result_simps split: option.splits)

lemma array_items_eq_Inr:
  "blob_id_item m v = Inr x \<longleftrightarrow> v = Bytes (blob_id_bytes x) \<and> length (blob_id_bytes x) = 32"
  "text_item n m v = Inr s \<longleftrightarrow> v = Text s \<and> fits n s"
proof -
  show "blob_id_item m v = Inr x \<longleftrightarrow> v = Bytes (blob_id_bytes x) \<and> length (blob_id_bytes x) = 32"
    by (cases x) (auto simp: blob_id_item_def result_simps)
  show "text_item n m v = Inr s \<longleftrightarrow> v = Text s \<and> fits n s"
    by (cases v) (auto simp: text_item_def fits_def)
qed

lemma refs_eq_Inr:
  "refs_empty r m = Inr u \<longleftrightarrow> r_refs r = []"
  "refs_exact r n m = Inr u \<longleftrightarrow> length (r_refs r) = n"
  "refs_min r n m = Inr u \<longleftrightarrow> n \<le> length (r_refs r)"
  "ref_record_id e m = Inr i \<longleftrightarrow> e = ref_record i"
  "validate_license s = Inr u \<longleftrightarrow> s \<noteq> [] \<and> length s \<le> 64"
proof -
  show "refs_empty r m = Inr u \<longleftrightarrow> r_refs r = []" "refs_exact r n m = Inr u \<longleftrightarrow> length (r_refs r) = n"
    "refs_min r n m = Inr u \<longleftrightarrow> n \<le> length (r_refs r)"
    "validate_license s = Inr u \<longleftrightarrow> s \<noteq> [] \<and> length s \<le> 64"
    by (simp_all add: refs_empty_def refs_exact_def refs_min_def validate_license_def)
  show "ref_record_id e m = Inr i \<longleftrightarrow> e = ref_record i"
    by (cases e; cases i) (auto simp: ref_record_id_def is_record_def ref_record_def)
qed

text \<open>Reading an array of items that were written with \<open>w\<close>.\<close>

lemma try_map_written:
  assumes "\<And>v y. f v = Inr y \<longleftrightarrow> v = w y \<and> P y"
  shows "try_map f vs = Inr ys \<longleftrightarrow> vs = map w ys \<and> list_all P ys"
proof -
  have "list_all2 (\<lambda>v y. f v = Inr y) vs ys \<longleftrightarrow> vs = map w ys \<and> list_all P ys"
    by (induction ys arbitrary: vs) (auto simp: assms list_all2_Cons2)
  then show ?thesis
    by (simp add: try_map_eq_Inr)
qed

text \<open>An array that may be left out when it is empty.\<close>

definition array_or_empty :: "val option \<Rightarrow> val list option" where
  "array_or_empty o' = (case o' of None \<Rightarrow> Some [] | Some v \<Rightarrow> as_array v)"

lemma array_field_or_empty:
  "(\<exists>o'. array_field b k m = Inr o' \<and> (case o' of None \<Rightarrow> Inr [] | Some arr \<Rightarrow> try_map f arr) = Inr ys)
   \<longleftrightarrow> (\<exists>vs. array_or_empty (field b k) = Some vs \<and> try_map f vs = Inr ys)"
  by (cases "field b k") (auto simp: array_or_empty_def field_eq_Inr split: option.splits)

lemma array_eq_Inr:
  "blob_id_array b k m = Inr xs \<longleftrightarrow>
     array_or_empty (field b k) = Some (map (\<lambda>x. Bytes (blob_id_bytes x)) xs)
     \<and> list_all (\<lambda>x. length (blob_id_bytes x) = 32) xs"
  "text_array b k n m = Inr ss \<longleftrightarrow> array_or_empty (field b k) = Some (map Text ss) \<and> list_all (fits n) ss"
  "kind_parse_items b k m f = Inr ys \<longleftrightarrow> (\<exists>vs. array_or_empty (field b k) = Some vs \<and> try_map f vs = Inr ys)"
proof -
  have blobs: "try_map (blob_id_item m) vs = Inr xs \<longleftrightarrow>
      vs = map (\<lambda>x. Bytes (blob_id_bytes x)) xs \<and> list_all (\<lambda>x. length (blob_id_bytes x) = 32) xs" for vs
    by (rule try_map_written) (rule array_items_eq_Inr)
  have texts: "try_map (text_item n m) vs = Inr ss \<longleftrightarrow> vs = map Text ss \<and> list_all (fits n) ss" for vs
    by (rule try_map_written) (rule array_items_eq_Inr)
  show "blob_id_array b k m = Inr xs \<longleftrightarrow>
     array_or_empty (field b k) = Some (map (\<lambda>x. Bytes (blob_id_bytes x)) xs)
     \<and> list_all (\<lambda>x. length (blob_id_bytes x) = 32) xs"
    by (auto simp: blob_id_array_def and_then_eq_Inr array_field_or_empty blobs)
  show "text_array b k n m = Inr ss \<longleftrightarrow> array_or_empty (field b k) = Some (map Text ss) \<and> list_all (fits n) ss"
    by (auto simp: text_array_def and_then_eq_Inr array_field_or_empty texts)
  show "kind_parse_items b k m f = Inr ys \<longleftrightarrow> (\<exists>vs. array_or_empty (field b k) = Some vs \<and> try_map f vs = Inr ys)"
    by (simp add: kind_parse_items_def and_then_eq_Inr array_field_or_empty)
qed

section \<open>Bodies as \<open>to_body\<close> builds them\<close>

text \<open>Required entries, entries pushed when an option is set, and arrays pushed when non-empty.\<close>

definition entry :: "string \<Rightarrow> val \<Rightarrow> val \<times> val" where
  "entry k v = (Text (str k), v)"

definition opt_entry :: "string \<Rightarrow> ('a \<Rightarrow> val) \<Rightarrow> 'a option \<Rightarrow> (val \<times> val) list" where
  "opt_entry k w x = (case x of None \<Rightarrow> [] | Some a \<Rightarrow> [entry k (w a)])"

definition list_entry :: "string \<Rightarrow> ('a \<Rightarrow> val) \<Rightarrow> 'a list \<Rightarrow> (val \<times> val) list" where
  "list_entry k w xs = (if xs = [] then [] else [entry k (Array (map w xs))])"

text \<open>What such an entry puts under its key, if anything.\<close>

definition list_value :: "('a \<Rightarrow> val) \<Rightarrow> 'a list \<Rightarrow> val option" where
  "list_value w xs = (if xs = [] then None else Some (Array (map w xs)))"

definition or_else :: "'a option \<Rightarrow> 'a option \<Rightarrow> 'a option" where
  "or_else x y = (case x of None \<Rightarrow> y | Some a \<Rightarrow> Some a)"

lemma or_else_simps [simp]: "or_else x None = x" "or_else None y = y" "or_else (Some a) y = Some a"
  by (cases x) (simp_all add: or_else_def)

lemma field_Map [simp]:
  "field (Map []) k = None"
  "field (Map (entry k' v # es)) k = (if k' = k then Some v else field (Map es) k)"
  "field (Map (opt_entry k' w x @ es)) k =
     (if k' = k then or_else (map_option w x) (field (Map es) k) else field (Map es) k)"
  "field (Map (opt_entry k' w x)) k = (if k' = k then map_option w x else None)"
  "field (Map (list_entry k' w xs @ es)) k =
     (if k' = k then or_else (list_value w xs) (field (Map es) k) else field (Map es) k)"
  "field (Map (list_entry k' w xs)) k = (if k' = k then list_value w xs else None)"
  by (auto simp: field_def map_get_def entry_def opt_entry_def list_entry_def list_value_def or_else_def
      split: option.splits)

text \<open>The keys of such a body, in order, are among the given ones.\<close>

definition keyed :: "string list \<Rightarrow> (val \<times> val) list \<Rightarrow> bool" where
  "keyed ks es \<longleftrightarrow> subseq (map fst es) (map (\<lambda>k. Text (str k)) ks)"

lemma keyedI:
  "keyed [] []"
  "keyed ks es \<Longrightarrow> keyed (k # ks) (entry k v # es)"
  "keyed ks es \<Longrightarrow> keyed (k # ks) (opt_entry k w x @ es)"
  "keyed ks es \<Longrightarrow> keyed (k # ks) (list_entry k w xs @ es)"
  by (auto simp: keyed_def entry_def opt_entry_def list_entry_def split: option.splits)

lemma keyed_skip: "keyed ks es \<Longrightarrow> keyed (k # ks) es"
  by (simp add: keyed_def list_emb_Cons)

lemma keyed_last:
  "keyed [k] (opt_entry k w x)" "keyed [k] (list_entry k w xs)"
  using keyedI(3) [OF keyedI(1)] keyedI(4) [OF keyedI(1)] by simp_all

lemma encode_short_text:
  "\<lbrakk>length s < 24; length t < 24\<rbrakk> \<Longrightarrow> encode_canonical (Text s) = encode_canonical (Text t) \<longleftrightarrow> s = t"
proof -
  assume "length s < 24" and "length t < 24"
  moreover have "length (head 3 (word_of_nat n)) = 1" if "n < 24" for n
  proof -
    have "(word_of_nat n :: u64) < 24"
      using that by (simp add: word_less_nat_alt unsigned_of_nat take_bit_nat_eq_self)
    then show ?thesis
      by (simp add: head_eq head_tail_def)
  qed
  ultimately show ?thesis
    by (auto simp: append_eq_append_conv)
qed

lemma subseq_distinct: "subseq xs ys \<Longrightarrow> distinct ys \<Longrightarrow> set xs \<subseteq> set ys \<and> distinct xs"
  by (induction rule: list_emb.induct) auto

text \<open>A body with distinct short keys whose values encode has an encoding.\<close>

lemma keyed_encodes:
  assumes "keyed ks es" and "distinct ks" and "list_all (\<lambda>k. length k < 24) ks"
    and "\<And>e. e \<in> set es \<Longrightarrow> is_ok (encode_canonical (snd e))"
  shows "is_ok (encode_canonical (Map es))"
proof -
  have sub: "subseq (map fst es) (map (\<lambda>k. Text (str k)) ks)"
    using assms(1) by (simp add: keyed_def)
  have keys: "inj_on encode_canonical (set (map (\<lambda>k. Text (str k)) ks))"
  proof (rule inj_onI)
    fix x y
    assume "x \<in> set (map (\<lambda>k. Text (str k)) ks)" "y \<in> set (map (\<lambda>k. Text (str k)) ks)"
      and "encode_canonical x = encode_canonical y"
    with assms(3) show "x = y"
      by (fastforce simp: list_all_iff encode_short_text simp del: encode_canonical_simps)
  qed
  have set: "set (map fst es) \<subseteq> set (map (\<lambda>k. Text (str k)) ks)"
    and "distinct (map fst es)"
    using subseq_distinct [OF sub] assms(2) by (simp_all add: distinct_map inj_on_def)
  then have "distinct (map encode_canonical (map fst es))"
    using inj_on_subset [OF keys set] by (simp only: distinct_map [of encode_canonical])
  then have "distinct (map (\<lambda>e. encode_canonical (fst e)) es)"
    by (simp add: comp_def)
  moreover have "is_ok (encode_canonical (fst e))" if "e \<in> set es" for e
    using set that by auto
  ultimately show ?thesis
    using assms(4) by (simp add: encode_Map_ok_iff)
qed

lemma ref_record_eq_iff [simp]: "ref_record i = ref_record j \<longleftrightarrow> i = j"
  by (cases i; cases j) (simp add: ref_record_def)

section \<open>Reading a signed body\<close>

text \<open>Signing puts the body in canonical order, \<open>into_canonical\<close>. What a field reader finds there is
  the canonical form of what it would have found before.\<close>

lemma map_get_map_of: "map_get (Map es) key = map_of es (Text key)"
  by (induction es) (auto simp: map_get_def)

lemma map_of_canon_entry:
  "map_of (map canon_entry es) (Text key) = map_option into_canonical (map_of es (Text key))"
proof (induction es)
  case (Cons e es)
  have "into_canonical (fst e) = Text key \<longleftrightarrow> fst e = Text key"
    by (cases "fst e") (simp_all add: into_canonical_Map)
  with Cons show ?case
    by (cases "fst e = Text key") (auto simp: canon_entry_def)
qed simp

lemma field_into_canonical:
  assumes "is_ok (encode_canonical (Map es))"
  shows "field (into_canonical (Map es)) k = map_option into_canonical (field (Map es) k)"
proof -
  let ?fs = "map canon_entry es" and ?gs = "sort_key (\<lambda>e. keybuf (fst e)) (map canon_entry es)"
  have "map encode_canonical (map fst ?fs) = map (\<lambda>e. encode_canonical (fst e)) es"
    by (simp add: canon_entry_def encode_into_canonical)
  moreover have "distinct (map (\<lambda>e. encode_canonical (fst e)) es)"
    using assms unfolding encode_Map_ok_iff by (rule conjunct2)
  ultimately have "distinct (map encode_canonical (map fst ?fs))"
    by (simp only:)
  then have "distinct (map fst ?fs)"
    by (simp only: distinct_map [of encode_canonical])
  moreover from this have "distinct (map fst ?gs)"
    by (simp only: distinct_map distinct_sort set_sort)
  ultimately have "map_of ?gs = map_of ?fs"
    by (simp only: map_of_inject_set set_sort)
  then show ?thesis
    by (simp add: field_def into_canonical_Map map_get_map_of map_of_canon_entry)
qed

lemma into_canonical_from_i64 [simp]: "into_canonical (from_i64 n) = from_i64 n"
  by (simp add: into_canonical_id)

lemma try_map_built [simp]:
  "(\<And>x. x \<in> set xs \<Longrightarrow> f (g x) = Inr x) \<Longrightarrow> try_map f (map g xs) = Inr xs"
  using try_map_Inr_map [of xs f g id] by simp

lemma into_canonical_written [simp]:
  "map_option into_canonical (map_option Text x) = map_option Text x"
  "map_option into_canonical (map_option Uint u) = map_option Uint u"
  "map_option into_canonical (map_option from_i64 i) = map_option from_i64 i"
  "map_option into_canonical (map_option Bool t) = map_option Bool t"
  "map_option into_canonical (map_option (\<lambda>x. Bytes (h x)) z) = map_option (\<lambda>x. Bytes (h x)) z"
  "map_option into_canonical (map_option Bytes y) = map_option Bytes y"
  "map (into_canonical \<circ> (\<lambda>x. Bytes (h x))) zs = map (\<lambda>x. Bytes (h x)) zs"
  "map (into_canonical \<circ> Text) xs = map Text xs"
  by (simp_all add: option.map_comp comp_def)

lemma from_i64_eq_iff [simp]: "from_i64 x = from_i64 y \<longleftrightarrow> x = y"
  by (metis as_i64_eq_Some option.inject)

lemma id_bytes_eq_iff [simp]:
  "blob_id_bytes x = blob_id_bytes y \<longleftrightarrow> x = y" "identity_id_bytes i = identity_id_bytes j \<longleftrightarrow> i = j"
  by (cases x; cases y; simp) (cases i; cases j; simp)

lemma written_eq_iff [simp]:
  "map_option Text x = map_option Text y \<longleftrightarrow> x = y"
  "map_option Uint u = map_option Uint v \<longleftrightarrow> u = v"
  "map_option from_i64 p = map_option from_i64 q \<longleftrightarrow> p = q"
  "map_option Bool s = map_option Bool t \<longleftrightarrow> s = t"
  "map_option (\<lambda>x. Bytes (blob_id_bytes x)) b = map_option (\<lambda>x. Bytes (blob_id_bytes x)) b' \<longleftrightarrow> b = b'"
  "map_option (\<lambda>x. Bytes (identity_id_bytes x)) i = map_option (\<lambda>x. Bytes (identity_id_bytes x)) i' \<longleftrightarrow> i = i'"
  "map_option Bytes z = map_option Bytes z' \<longleftrightarrow> z = z'"
  "map Text ss = map Text ss' \<longleftrightarrow> ss = ss'"
  "map (\<lambda>x. Bytes (blob_id_bytes x)) bs = map (\<lambda>x. Bytes (blob_id_bytes x)) bs' \<longleftrightarrow> bs = bs'"
  by (simp_all add: map_option_eq_iff inj_map_eq_map inj_def)

lemma list_value_simps [simp]:
  "map_option into_canonical (list_value w xs) = list_value (into_canonical \<circ> w) xs"
  "array_or_empty (list_value w xs) = Some (map w xs)"
  by (simp_all add: list_value_def array_or_empty_def)

lemma try_map_valid: "try_map f vs = Inr xs \<Longrightarrow> (\<And>v x. f v = Inr x \<Longrightarrow> P x) \<Longrightarrow> list_all P xs"
  by (induction vs arbitrary: xs) (auto simp: and_then_eq_Inr)

text \<open>What a successful parse says about the fields, and what a built body holds.\<close>

lemma if_eq_Inr:
  "(if c then Inl e else a) = Inr y \<longleftrightarrow> \<not> c \<and> a = Inr y"
  "(if c then a else Inl e) = Inr y \<longleftrightarrow> c \<and> a = Inr y"
  by auto

lemmas parsed_simps = Let_def if_eq_Inr
  and_then_eq_Inr ok_or_eq_Inr to_array32_eq_Inr field_eq_Inr id_field_eq_Inr required_eq_Inr
  bool_or_eq_Inr array_items_eq_Inr refs_eq_Inr array_eq_Inr

lemmas built_simps = parsed_simps field_into_canonical

lemma entry_simps [simp]:
  "snd (entry k v) = v"
  "e \<in> set (opt_entry k w x) \<longleftrightarrow> (\<exists>a. x = Some a \<and> e = entry k (w a))"
  "e \<in> set (list_entry k w xs) \<longleftrightarrow> xs \<noteq> [] \<and> e = entry k (Array (map w xs))"
  by (auto simp: entry_def opt_entry_def list_entry_def split: option.splits)

lemma encode_Array_ok_iff [simp]:
  "is_ok (encode_canonical (Array vs)) \<longleftrightarrow> (\<forall>v\<in>set vs. is_ok (encode_canonical v))"
proof -
  have "is_ok (encode_canonical (Array vs)) \<longleftrightarrow> (\<exists>ys. try_map encode_canonical vs = Inr ys)"
    by (cases "try_map encode_canonical vs") (simp_all add: encode_canonical_Array)
  then show ?thesis
    by (simp add: try_map_all_ok)
qed

lemma encode_from_i64_ok [simp]: "is_ok (encode_canonical (from_i64 n))"
  by (simp add: canonical_is_ok)

lemmas keyed_simps = keyedI keyed_last

lemma ref_record_simps [simp]:
  "is_record (ref_record i)" "RecordId (ref_hash (ref_record i)) = i" "\<not> is_record (ref_blob b)"
  "is_blob (ref_blob b)" "BlobId (ref_hash (ref_blob b)) = b" "\<not> is_blob (ref_record i)"
  by (cases i; cases b; simp add: is_record_def is_blob_def ref_record_def ref_blob_def)+

text \<open>The parts of a well-formed record's body are canonical.\<close>

lemma wf_record_field: "\<lbrakk>field (r_body r) k = Some v; wf_record r\<rbrakk> \<Longrightarrow> canonical v"
  by (cases "r_body r")
    (auto simp: wf_record_def field_def map_get_map_of list_all_iff dest!: map_of_SomeD)

section \<open>The interface of a kind wrapper\<close>

text \<open>
  Each kind has \<open>parse\<close>, \<open>to_body\<close> and \<open>refs\<close>, and a predicate \<open>valid\<close> that states the rules the
  parser enforces.  The laws: a valid value has a body that is a map with an encoding; a record with
  its refs and its body, canonically ordered, parses to it; and only valid values are parsed, from records with their refs.
\<close>

definition publish :: "crypto \<Rightarrow> u64 \<Rightarrow> i64 \<Rightarrow> eref list \<Rightarrow> val \<Rightarrow> keypair \<Rightarrow> identity_id \<Rightarrow> fault + erecord" where
  "publish c k t refs body kp i =
     sign_as c (builder_body body (builder_refs refs (builder_created_at t (builder_new k)))) kp i"

locale kind_wrapper =
  fixes parse :: "erecord \<Rightarrow> error + 'a" and to_body :: "'a \<Rightarrow> val"
    and refs_of :: "'a \<Rightarrow> eref list" and valid :: "'a \<Rightarrow> bool"
  assumes body_map: "as_map (to_body x) \<noteq> None"
    and body_encodes: "valid x \<Longrightarrow> is_ok (encode_canonical (to_body x))"
    and parse_built: "\<lbrakk>valid x; r_refs r = refs_of x; r_body r = into_canonical (to_body x)\<rbrakk> \<Longrightarrow> parse r = Inr x"
    and parse_valid: "\<lbrakk>parse r = Inr x; wf_record r\<rbrakk> \<Longrightarrow> valid x"
    and parse_refs: "parse r = Inr x \<Longrightarrow> r_refs r = refs_of x"
begin

lemma publish_parses: "valid x \<Longrightarrow> \<exists>r. publish c k t (refs_of x) (to_body x) kp i = Inr r \<and> parse r = Inr x \<and> r_kind r = k"
  using body_map [of x] body_encodes [of x]
  by (auto simp: publish_def sign_as_cases signed_record_def unsigned_record_def Let_def builder_body_def
      builder_refs_def builder_created_at_def builder_new_def intro!: parse_built)

text \<open>A parsed value can be published again and is read back unchanged.\<close>

lemma republish:
  "\<lbrakk>parse r = Inr x; wf_record r\<rbrakk> \<Longrightarrow> \<exists>r'. publish c k t (refs_of x) (to_body x) kp i = Inr r' \<and> parse r' = Inr x"
  using publish_parses parse_valid by blast

end

end
