(* ===== verification/KindsMedia.thy ===== *)
theory KindsMedia
  imports KindsBase
begin

text \<open>
  The \<open>manifest\<close> kind and its parts (\<open>crates/evermesh-kernel/src/kinds/content.rs\<close>): hints, payment
  pointers, sponsorship segments, encryption, media, renditions and captions; and the statement a
  rendition's producer signs, with its check.
\<close>

section \<open>Hints, payment pointers, sponsorship and encryption\<close>

datatype hint = Hint u64 bytes

definition hint_to_value :: "hint \<Rightarrow> val" where
  "hint_to_value x = (case x of Hint t s \<Rightarrow> Array [Uint t, Text s])"

definition hint_parse :: "val \<Rightarrow> error + hint" where
  "hint_parse v =
     and_then (ok_or (as_array v) (Kind ''hint must be [type, url]'')) (\<lambda>arr.
     if length arr \<noteq> 2 then Inl (Kind ''hint must have exactly 2 elements'')
     else
       and_then (ok_or (as_u64 (arr ! 0)) (Kind ''hint type must be a uint'')) (\<lambda>t.
       and_then (ok_or (as_text (arr ! 1)) (Kind ''hint url must be text'')) (\<lambda>s.
       Inr (Hint t s))))"

lemma hint_encodes [simp]: "is_ok (encode_canonical (hint_to_value x))"
  by (cases x) (simp add: hint_to_value_def)

lemma hint_built [simp]: "hint_parse (into_canonical (hint_to_value x)) = Inr x"
  by (cases x) (simp add: hint_parse_def hint_to_value_def)

datatype payment_pointer = PaymentPointer u64 bytes

definition payment_pointer_to_value :: "payment_pointer \<Rightarrow> val" where
  "payment_pointer_to_value x = (case x of PaymentPointer t s \<Rightarrow> Array [Uint t, Text s])"

definition payment_pointer_parse :: "val \<Rightarrow> error + payment_pointer" where
  "payment_pointer_parse v =
     and_then (ok_or (as_array v) (Kind ''payment pointer must be [rail, pointer]'')) (\<lambda>arr.
     if length arr \<noteq> 2 then Inl (Kind ''payment pointer must have exactly 2 elements'')
     else
       and_then (ok_or (as_u64 (arr ! 0)) (Kind ''payment rail must be a uint'')) (\<lambda>t.
       and_then (ok_or (as_text (arr ! 1)) (Kind ''payment pointer must be text'')) (\<lambda>s.
       Inr (PaymentPointer t s))))"

lemma payment_pointer_encodes [simp]: "is_ok (encode_canonical (payment_pointer_to_value x))"
  by (cases x) (simp add: payment_pointer_to_value_def)

lemma payment_pointer_built [simp]: "payment_pointer_parse (into_canonical (payment_pointer_to_value x)) = Inr x"
  by (cases x) (simp add: payment_pointer_parse_def payment_pointer_to_value_def)

record sponsor =
  sp_start_ms :: u64
  sp_end_ms :: u64
  sp_label :: bytes

definition sponsor_to_value :: "sponsor \<Rightarrow> val" where
  "sponsor_to_value x =
     Map [entry ''start_ms'' (Uint (sp_start_ms x)), entry ''end_ms'' (Uint (sp_end_ms x)),
          entry ''label'' (Text (sp_label x))]"

definition sponsor_parse :: "val \<Rightarrow> error + sponsor" where
  "sponsor_parse v =
     and_then (required_u64 v ''start_ms'' ''sponsor: start_ms required'') (\<lambda>start_ms.
     and_then (required_u64 v ''end_ms'' ''sponsor: end_ms required'') (\<lambda>end_ms.
     and_then (required_text v ''label'' usize_max ''sponsor: label required'') (\<lambda>label.
     Inr \<lparr> sp_start_ms = start_ms, sp_end_ms = end_ms, sp_label = label \<rparr>)))"

definition sponsor_valid :: "sponsor \<Rightarrow> bool" where
  "sponsor_valid x \<longleftrightarrow> fits usize_max (sp_label x)"

lemma sponsor_encodes [simp]: "is_ok (encode_canonical (sponsor_to_value x))"
  unfolding sponsor_to_value_def
  by (rule keyed_encodes [of "[''start_ms'', ''end_ms'', ''label'']"]) (auto simp: keyed_simps)

lemma sponsor_built [simp]: "sponsor_valid x \<Longrightarrow> sponsor_parse (into_canonical (sponsor_to_value x)) = Inr x"
  using sponsor_encodes [of x]
  by (auto simp: sponsor_parse_def sponsor_to_value_def sponsor_valid_def built_simps)

lemma sponsor_parse_valid: "sponsor_parse v = Inr x \<Longrightarrow> sponsor_valid x"
  by (auto simp: sponsor_parse_def sponsor_valid_def parsed_simps)

lemma sponsor_items_valid: "try_map sponsor_parse vs = Inr xs \<Longrightarrow> list_all sponsor_valid xs"
  by (rule try_map_valid) (auto dest: sponsor_parse_valid)

record encryption =
  en_scheme :: u64
  en_key_hint :: "bytes option"

definition encryption_to_value :: "encryption \<Rightarrow> val" where
  "encryption_to_value x =
     Map ([entry ''scheme'' (Uint (en_scheme x))] @ opt_entry ''key_hint'' Text (en_key_hint x))"

definition encryption_parse :: "val \<Rightarrow> error + encryption" where
  "encryption_parse v =
     and_then (required_u64 v ''scheme'' ''encryption: scheme required'') (\<lambda>scheme.
     and_then (text_field v ''key_hint'' usize_max ''encryption: key_hint must be text'') (\<lambda>key_hint.
     Inr \<lparr> en_scheme = scheme, en_key_hint = key_hint \<rparr>))"

definition encryption_valid :: "encryption \<Rightarrow> bool" where
  "encryption_valid x \<longleftrightarrow> pred_option (fits usize_max) (en_key_hint x)"

lemma encryption_encodes [simp]: "is_ok (encode_canonical (encryption_to_value x))"
  unfolding encryption_to_value_def
  by (rule keyed_encodes [of "[''scheme'', ''key_hint'']"]) (auto simp: keyed_simps)

lemma encryption_built [simp]: "encryption_valid x \<Longrightarrow> encryption_parse (into_canonical (encryption_to_value x)) = Inr x"
  using encryption_encodes [of x]
  by (auto simp: encryption_parse_def encryption_to_value_def encryption_valid_def built_simps)

lemma encryption_parse_valid: "encryption_parse v = Inr x \<Longrightarrow> encryption_valid x"
  by (auto simp: encryption_parse_def encryption_valid_def parsed_simps)

section \<open>Media\<close>

definition CHUNK_SIZE_BYTES :: u64 where
  "CHUNK_SIZE_BYTES = 1048576"

record media =
  md_blob :: blob_id
  md_size :: u64
  md_chunk_root :: "bytes option"
  md_codec :: bytes
  md_duration_ms :: u64
  md_width :: "u64 option"
  md_height :: "u64 option"
  md_wrapped_blob_key :: "bytes option"

text \<open>Width and height are written only together.\<close>

definition dims_entries :: "u64 option \<Rightarrow> u64 option \<Rightarrow> (val \<times> val) list" where
  "dims_entries w h =
     (case (w, h) of
        (Some w', Some h') \<Rightarrow> [entry ''width'' (Uint w'), entry ''height'' (Uint h')]
      | _ \<Rightarrow> [])"

definition media_entries :: "media \<Rightarrow> (val \<times> val) list" where
  "media_entries x =
     [entry ''blob'' (Bytes (blob_id_bytes (md_blob x))), entry ''size'' (Uint (md_size x)),
      entry ''codec'' (Text (md_codec x)), entry ''duration'' (Uint (md_duration_ms x))]
     @ dims_entries (md_width x) (md_height x)
     @ opt_entry ''chunk_root'' Bytes (md_chunk_root x)
     @ opt_entry ''wrapped_key'' Bytes (md_wrapped_blob_key x)"

definition media_to_value :: "media \<Rightarrow> val" where
  "media_to_value x = Map (media_entries x)"

definition media_parse :: "val \<Rightarrow> error + media" where
  "media_parse v =
     and_then (required_blob_id v ''blob'' ''media: blob required (32 bytes)'') (\<lambda>blob.
     and_then (required_u64 v ''size'' ''media: size required'') (\<lambda>sz.
     and_then (required_nonempty_text v ''codec'' 256 ''media: codec required'') (\<lambda>codec.
     and_then (required_u64 v ''duration'' ''media: duration required'') (\<lambda>duration_ms.
     and_then (u64_field v ''width'' ''media: width must be a uint'') (\<lambda>width.
     and_then (u64_field v ''height'' ''media: height must be a uint'') (\<lambda>height.
     if (width \<noteq> None) \<noteq> (height \<noteq> None)
     then Inl (Kind ''media: width and height must be both present or both absent'')
     else
       and_then (bytes32_field v ''chunk_root'' ''media: chunk_root must be 32 bytes'') (\<lambda>chunk_root.
       if CHUNK_SIZE_BYTES < sz \<and> chunk_root = None
       then Inl (Kind ''media: chunk_root required when size exceeds 1 MiB'')
       else
         and_then (bytes_field v ''wrapped_key'' ''media: wrapped_key must be bytes'') (\<lambda>wrapped_blob_key.
         Inr \<lparr> md_blob = blob, md_size = sz, md_chunk_root = chunk_root, md_codec = codec,
               md_duration_ms = duration_ms, md_width = width, md_height = height,
               md_wrapped_blob_key = wrapped_blob_key \<rparr>))))))))"

definition media_valid :: "media \<Rightarrow> bool" where
  "media_valid x \<longleftrightarrow>
     length (blob_id_bytes (md_blob x)) = 32 \<and> md_codec x \<noteq> [] \<and> fits 256 (md_codec x)
     \<and> (md_width x = None \<longleftrightarrow> md_height x = None)
     \<and> pred_option (\<lambda>s. length s = 32) (md_chunk_root x)
     \<and> (CHUNK_SIZE_BYTES < md_size x \<longrightarrow> md_chunk_root x \<noteq> None)"

lemma field_dims [simp]:
  "w = None \<longleftrightarrow> h = None \<Longrightarrow> field (Map (dims_entries w h @ es)) k =
     (if k = ''width'' then or_else (map_option Uint w) (field (Map es) k)
      else if k = ''height'' then or_else (map_option Uint h) (field (Map es) k)
      else field (Map es) k)"
  by (auto simp: dims_entries_def split: option.splits)

lemma keyed_dims: "keyed ks es \<Longrightarrow> keyed (''width'' # ''height'' # ks) (dims_entries w h @ es)"
  unfolding dims_entries_def
  by (cases w; cases h) (auto intro: keyedI keyed_skip)

lemma set_dims [simp]:
  "e \<in> set (dims_entries w h) \<longleftrightarrow>
   (\<exists>w' h'. w = Some w' \<and> h = Some h' \<and> (e = entry ''width'' (Uint w') \<or> e = entry ''height'' (Uint h')))"
  by (auto simp: dims_entries_def split: option.splits)

lemma media_encodes [simp]: "is_ok (encode_canonical (media_to_value x))"
  unfolding media_to_value_def
  by (rule keyed_encodes [of "[''blob'', ''size'', ''codec'', ''duration'', ''width'', ''height'', ''chunk_root'', ''wrapped_key'']"]) (auto simp: keyed_simps media_entries_def keyed_dims)

lemma media_built [simp]: "media_valid x \<Longrightarrow> media_parse (into_canonical (media_to_value x)) = Inr x"
  using media_encodes [of x]
  by (auto simp: media_parse_def media_to_value_def media_valid_def built_simps media_entries_def)

lemma media_parse_valid: "media_parse v = Inr x \<Longrightarrow> media_valid x"
  by (auto simp: media_parse_def media_valid_def parsed_simps)

section \<open>Renditions and captions\<close>

record rendition =
  rd_media :: media
  rd_bitrate :: u64
  rd_produced_by :: "identity_id \<times> bytes"
  rd_derivation_sig :: bytes

definition rendition_to_value :: "rendition \<Rightarrow> val" where
  "rendition_to_value x =
     Map (media_entries (rd_media x)
          @ [entry ''bitrate'' (Uint (rd_bitrate x)),
             entry ''produced_by''
               (Array [Bytes (identity_id_bytes (fst (rd_produced_by x))), Bytes (snd (rd_produced_by x))]),
             entry ''derivation_sig'' (Bytes (rd_derivation_sig x))])"

definition rendition_parse :: "val \<Rightarrow> error + rendition" where
  "rendition_parse v =
     and_then (media_parse v) (\<lambda>media.
     and_then (required_u64 v ''bitrate'' ''rendition: bitrate required'') (\<lambda>bitrate.
     and_then (ok_or (field v ''produced_by'') (Kind ''rendition: produced_by required'')) (\<lambda>produced_by_v.
     and_then (ok_or (as_array produced_by_v) (Kind ''rendition: produced_by must be [identity, key]'')) (\<lambda>arr.
     if length arr \<noteq> 2 then Inl (Kind ''rendition: produced_by must have exactly 2 elements'')
     else
       and_then (ok_or (as_bytes (arr ! 0)) (Kind ''rendition: produced_by identity must be bytes'')) (\<lambda>identity_bytes.
       and_then (to_array32 identity_bytes (Kind ''rendition: produced_by identity must be 32 bytes'')) (\<lambda>identity.
       and_then (ok_or (as_bytes (arr ! 1)) (Kind ''rendition: produced_by key must be bytes'')) (\<lambda>key.
       and_then (required_bytes v ''derivation_sig'' ''rendition: derivation_sig required'') (\<lambda>derivation_sig.
       Inr \<lparr> rd_media = media, rd_bitrate = bitrate, rd_produced_by = (IdentityId identity, key),
             rd_derivation_sig = derivation_sig \<rparr>))))))))"

definition rendition_valid :: "rendition \<Rightarrow> bool" where
  "rendition_valid x \<longleftrightarrow>
     media_valid (rd_media x) \<and> length (identity_id_bytes (fst (rd_produced_by x))) = 32"

text \<open>A rendition splices its media into its own map; the media is read back from there.\<close>

lemma media_spliced:
  assumes "media_valid x" and "is_ok (encode_canonical (Map (media_entries x @ es)))"
    and "\<And>k. k \<in> {''width'', ''height'', ''chunk_root'', ''wrapped_key''} \<Longrightarrow> field (Map es) k = None"
  shows "media_parse (into_canonical (Map (media_entries x @ es))) = Inr x"
  using assms
  by (auto simp: media_parse_def media_entries_def media_valid_def built_simps)

lemma rendition_encodes [simp]: "is_ok (encode_canonical (rendition_to_value x))"
  unfolding rendition_to_value_def
  by (rule keyed_encodes [of "[''blob'', ''size'', ''codec'', ''duration'', ''width'', ''height'',
        ''chunk_root'', ''wrapped_key'', ''bitrate'', ''produced_by'', ''derivation_sig'']"])
    (auto simp: keyed_simps keyed_dims media_entries_def)

lemma rendition_built [simp]:
  assumes "rendition_valid x"
  shows "rendition_parse (into_canonical (rendition_to_value x)) = Inr x"
proof -
  let ?v = "into_canonical (rendition_to_value x)"
  have m: "media_parse ?v = Inr (rd_media x)"
    using assms rendition_encodes [of x] unfolding rendition_to_value_def rendition_valid_def
    by (intro media_spliced) auto
  have "field ?v ''bitrate'' = Some (Uint (rd_bitrate x))"
    "field ?v ''produced_by'' =
       Some (Array [Bytes (identity_id_bytes (fst (rd_produced_by x))), Bytes (snd (rd_produced_by x))])"
    "field ?v ''derivation_sig'' = Some (Bytes (rd_derivation_sig x))"
    using assms rendition_encodes [of x] unfolding rendition_to_value_def rendition_valid_def media_valid_def
    by (simp_all add: field_into_canonical media_entries_def)
  then show ?thesis
    using assms
    by (auto simp: rendition_parse_def rendition_valid_def parsed_simps m identity_id.expand prod_eq_iff)
qed

lemma rendition_parse_valid: "rendition_parse v = Inr x \<Longrightarrow> rendition_valid x"
  by (auto simp: rendition_parse_def rendition_valid_def parsed_simps dest: media_parse_valid)

lemma rendition_items_valid: "try_map rendition_parse vs = Inr xs \<Longrightarrow> list_all rendition_valid xs"
  by (rule try_map_valid) (auto dest: rendition_parse_valid)

record caption =
  cp_blob :: blob_id
  cp_language :: bytes
  cp_format :: bytes
  cp_wrapped_blob_key :: "bytes option"

definition caption_to_value :: "caption \<Rightarrow> val" where
  "caption_to_value x =
     Map ([entry ''blob'' (Bytes (blob_id_bytes (cp_blob x))), entry ''language'' (Text (cp_language x)),
           entry ''format'' (Text (cp_format x))]
          @ opt_entry ''wrapped_key'' Bytes (cp_wrapped_blob_key x))"

definition caption_parse :: "val \<Rightarrow> error + caption" where
  "caption_parse v =
     and_then (required_blob_id v ''blob'' ''caption: blob required (32 bytes)'') (\<lambda>blob.
     and_then (required_nonempty_text v ''language'' 64 ''caption: language required'') (\<lambda>language.
     and_then (required_nonempty_text v ''format'' 64 ''caption: format required'') (\<lambda>format.
     and_then (bytes_field v ''wrapped_key'' ''caption: wrapped_key must be bytes'') (\<lambda>wrapped_blob_key.
     Inr \<lparr> cp_blob = blob, cp_language = language, cp_format = format,
           cp_wrapped_blob_key = wrapped_blob_key \<rparr>))))"

definition caption_valid :: "caption \<Rightarrow> bool" where
  "caption_valid x \<longleftrightarrow>
     length (blob_id_bytes (cp_blob x)) = 32 \<and> cp_language x \<noteq> [] \<and> fits 64 (cp_language x)
     \<and> cp_format x \<noteq> [] \<and> fits 64 (cp_format x)"

lemma caption_encodes [simp]: "is_ok (encode_canonical (caption_to_value x))"
  unfolding caption_to_value_def
  by (rule keyed_encodes [of "[''blob'', ''language'', ''format'', ''wrapped_key'']"]) (auto simp: keyed_simps)

lemma caption_built [simp]: "caption_valid x \<Longrightarrow> caption_parse (into_canonical (caption_to_value x)) = Inr x"
  using caption_encodes [of x]
  by (auto simp: caption_parse_def caption_to_value_def caption_valid_def built_simps)

lemma caption_parse_valid: "caption_parse v = Inr x \<Longrightarrow> caption_valid x"
  by (auto simp: caption_parse_def caption_valid_def parsed_simps)

lemma caption_items_valid: "try_map caption_parse vs = Inr xs \<Longrightarrow> list_all caption_valid xs"
  by (rule try_map_valid) (auto dest: caption_parse_valid)

end
