(* ===== verification/KindsManifest.thy ===== *)
theory KindsManifest
  imports KindsMedia
begin

text \<open>
  The \<open>manifest\<close> kind itself (\<open>crates/evermesh-kernel/src/kinds/content.rs\<close>): the identity of a work,
  with its original encoding, its renditions and captions, and the rule that every one of them
  carries a wrapped key when the manifest is encrypted.
\<close>

section \<open>The manifest\<close>

record manifest =
  mf_title :: bytes
  mf_description :: "bytes option"
  mf_tags :: "bytes list"
  mf_language :: "bytes option"
  mf_original :: media
  mf_renditions :: "rendition list"
  mf_captions :: "caption list"
  mf_thumbnail :: "blob_id option"
  mf_encryption :: "encryption option"
  mf_license :: bytes
  mf_sponsorship :: "sponsor list"
  mf_payment :: "payment_pointer list"
  mf_hints :: "hint list"
  mf_channel :: "record_id option"

definition require_wrapped_64 :: "bytes option \<Rightarrow> string \<Rightarrow> error + unit" where
  "require_wrapped_64 key msg =
     (case key of Some k \<Rightarrow> if length k = 64 then Inr () else Inl (Kind msg) | None \<Rightarrow> Inl (Kind msg))"

text \<open>The block of \<open>Manifest::parse\<close> that runs when the manifest is encrypted.\<close>

definition manifest_keys :: "encryption option \<Rightarrow> media \<Rightarrow> rendition list \<Rightarrow> caption list \<Rightarrow> error + unit" where
  "manifest_keys enc original renditions captions =
     (if enc \<noteq> None then
        and_then (require_wrapped_64 (md_wrapped_blob_key original)
                    ''manifest: encrypted original must carry a 64-byte wrapped_blob_key'') (\<lambda>_.
        and_then (try_map (\<lambda>r. require_wrapped_64 (md_wrapped_blob_key (rd_media r))
                    ''manifest: encrypted rendition must carry a 64-byte wrapped_blob_key'') renditions) (\<lambda>_.
        and_then (try_map (\<lambda>c. require_wrapped_64 (cp_wrapped_blob_key c)
                    ''manifest: encrypted caption must carry a 64-byte wrapped_blob_key'') captions) (\<lambda>_.
        Inr ())))
      else Inr ())"

definition encryption_field :: "val option \<Rightarrow> error + encryption option" where
  "encryption_field o' =
     (case o' of
        None \<Rightarrow> Inr None
      | Some v \<Rightarrow> if v = Null then Inr None else and_then (encryption_parse v) (\<lambda>e. Inr (Some e)))"

definition manifest_parse :: "erecord \<Rightarrow> error + manifest" where
  "manifest_parse record =
     (if 1 < length (r_refs record) then Inl (Kind ''manifest: refs must be empty or one channel ref'')
      else
        and_then
          (case r_refs record of
             [] \<Rightarrow> Inr None
           | r # _ \<Rightarrow> and_then (ref_record_id r ''manifest: channel ref must be a record ref'') (\<lambda>i. Inr (Some i)))
          (\<lambda>channel.
        let body = r_body record in
        and_then (required_nonempty_text body ''title'' 512 ''manifest: title required'') (\<lambda>title.
        and_then (text_field body ''description'' 16384 ''manifest: description too long'') (\<lambda>description.
        and_then (text_array body ''tags'' 64 ''manifest: tag too long (<=64 bytes)'') (\<lambda>tags.
        if 32 < length tags then Inl (Kind ''manifest: at most 32 tags'')
        else
          and_then (text_field body ''language'' usize_max ''manifest: language must be text'') (\<lambda>language.
          and_then (ok_or (field body ''original'') (Kind ''manifest: original required'')) (\<lambda>original_v.
          and_then (media_parse original_v) (\<lambda>original.
          and_then (kind_parse_items body ''renditions'' ''manifest: renditions must be an array'' rendition_parse) (\<lambda>renditions.
          and_then (kind_parse_items body ''captions'' ''manifest: captions must be an array'' caption_parse) (\<lambda>captions.
          and_then (blob_id_field body ''thumbnail'' ''manifest: thumbnail must be 32 bytes'') (\<lambda>thumbnail.
          and_then (encryption_field (field body ''encryption'')) (\<lambda>enc.
          and_then (required_text body ''license'' 4096 ''manifest: license required'') (\<lambda>license.
          and_then (validate_license license) (\<lambda>_.
          and_then (kind_parse_items body ''sponsorship'' ''manifest: sponsorship must be an array'' sponsor_parse) (\<lambda>sponsorship.
          and_then (kind_parse_items body ''payment'' ''manifest: payment must be an array'' payment_pointer_parse) (\<lambda>payment.
          and_then (kind_parse_items body ''hints'' ''manifest: hints must be an array'' hint_parse) (\<lambda>hints.
          and_then (manifest_keys enc original renditions captions) (\<lambda>_.
          Inr \<lparr> mf_title = title, mf_description = description, mf_tags = tags, mf_language = language,
                mf_original = original, mf_renditions = renditions, mf_captions = captions,
                mf_thumbnail = thumbnail, mf_encryption = enc, mf_license = license,
                mf_sponsorship = sponsorship, mf_payment = payment, mf_hints = hints,
                mf_channel = channel \<rparr>))))))))))))))))))"

definition manifest_to_body :: "manifest \<Rightarrow> val" where
  "manifest_to_body x =
     Map ([entry ''title'' (Text (mf_title x)), entry ''original'' (media_to_value (mf_original x)),
           entry ''license'' (Text (mf_license x))]
          @ opt_entry ''description'' Text (mf_description x)
          @ list_entry ''tags'' Text (mf_tags x)
          @ opt_entry ''language'' Text (mf_language x)
          @ list_entry ''renditions'' rendition_to_value (mf_renditions x)
          @ list_entry ''captions'' caption_to_value (mf_captions x)
          @ opt_entry ''thumbnail'' (\<lambda>i. Bytes (blob_id_bytes i)) (mf_thumbnail x)
          @ opt_entry ''encryption'' encryption_to_value (mf_encryption x)
          @ list_entry ''sponsorship'' sponsor_to_value (mf_sponsorship x)
          @ list_entry ''payment'' payment_pointer_to_value (mf_payment x)
          @ list_entry ''hints'' hint_to_value (mf_hints x))"

definition manifest_refs :: "manifest \<Rightarrow> eref list" where
  "manifest_refs x = (case mf_channel x of Some i \<Rightarrow> [ref_record i] | None \<Rightarrow> [])"

definition wrapped_64 :: "bytes option \<Rightarrow> bool" where
  "wrapped_64 key \<longleftrightarrow> (case key of Some k \<Rightarrow> length k = 64 | None \<Rightarrow> False)"

definition manifest_valid :: "manifest \<Rightarrow> bool" where
  "manifest_valid x \<longleftrightarrow>
     mf_title x \<noteq> [] \<and> fits 512 (mf_title x) \<and> pred_option (fits 16384) (mf_description x)
     \<and> length (mf_tags x) \<le> 32 \<and> list_all (fits 64) (mf_tags x)
     \<and> pred_option (fits usize_max) (mf_language x) \<and> media_valid (mf_original x)
     \<and> list_all rendition_valid (mf_renditions x) \<and> list_all caption_valid (mf_captions x)
     \<and> pred_option (\<lambda>i. length (blob_id_bytes i) = 32) (mf_thumbnail x)
     \<and> pred_option encryption_valid (mf_encryption x)
     \<and> mf_license x \<noteq> [] \<and> length (mf_license x) \<le> 64 \<and> list_all sponsor_valid (mf_sponsorship x)
     \<and> (mf_encryption x \<noteq> None \<longrightarrow> wrapped_64 (md_wrapped_blob_key (mf_original x))
          \<and> list_all (\<lambda>r. wrapped_64 (md_wrapped_blob_key (rd_media r))) (mf_renditions x)
          \<and> list_all (\<lambda>c. wrapped_64 (cp_wrapped_blob_key c)) (mf_captions x))"

text \<open>What the sub-parsers accept.\<close>

lemma require_wrapped_64_eq_Inr: "require_wrapped_64 k m = Inr u \<longleftrightarrow> wrapped_64 k"
  by (auto simp: require_wrapped_64_def wrapped_64_def split: option.split)

lemma manifest_keys_eq_Inr:
  "manifest_keys enc orig rends caps = Inr u \<longleftrightarrow>
   (enc \<noteq> None \<longrightarrow> wrapped_64 (md_wrapped_blob_key orig)
      \<and> list_all (\<lambda>r. wrapped_64 (md_wrapped_blob_key (rd_media r))) rends
      \<and> list_all (\<lambda>c. wrapped_64 (cp_wrapped_blob_key c)) caps)"
  by (simp add: manifest_keys_def and_then_eq_Inr require_wrapped_64_eq_Inr try_map_all_ok list_all_iff is_ok_iff)

lemma encryption_field_built:
  "pred_option encryption_valid e \<Longrightarrow>
   encryption_field (map_option into_canonical (map_option encryption_to_value e)) = Inr e"
proof (cases e)
  case (Some a)
  have "into_canonical (encryption_to_value a) \<noteq> Null"
    by (simp add: encryption_to_value_def into_canonical_Map)
  moreover assume "pred_option encryption_valid e"
  ultimately show ?thesis
    by (simp add: Some encryption_field_def)
qed (simp add: encryption_field_def)

lemma encryption_field_valid: "encryption_field o' = Inr e \<Longrightarrow> pred_option encryption_valid e"
  by (auto simp: encryption_field_def and_then_eq_Inr encryption_parse_valid split: option.splits if_splits)

lemma manifest_encodes: "is_ok (encode_canonical (manifest_to_body x))"
  unfolding manifest_to_body_def
  by (rule keyed_encodes [of "[''title'', ''original'', ''license'', ''description'', ''tags'', ''language'', ''renditions'', ''captions'', ''thumbnail'', ''encryption'', ''sponsorship'', ''payment'', ''hints'']"])
    (auto simp: keyed_simps)

lemma manifest_parse_built:
  "\<lbrakk>manifest_valid x; r_refs r = manifest_refs x; r_body r = into_canonical (manifest_to_body x)\<rbrakk>
   \<Longrightarrow> manifest_parse r = Inr x"
  using manifest_encodes [of x]
  by (cases "mf_channel x") (auto simp: manifest_parse_def manifest_valid_def manifest_to_body_def manifest_refs_def built_simps list_all_iff manifest_keys_eq_Inr encryption_field_built fits_def)

lemma manifest_parse_valid: "\<lbrakk>manifest_parse r = Inr x; wf_record r\<rbrakk> \<Longrightarrow> manifest_valid x"
  by (auto simp: manifest_parse_def manifest_valid_def parsed_simps manifest_keys_eq_Inr
      dest: media_parse_valid rendition_items_valid caption_items_valid sponsor_items_valid encryption_field_valid)

lemma manifest_parse_refs: "manifest_parse r = Inr x \<Longrightarrow> r_refs r = manifest_refs x"
  by (auto simp: manifest_parse_def manifest_refs_def parsed_simps length_Suc_conv split: list.splits)

interpretation manifest: kind_wrapper manifest_parse manifest_to_body "manifest_refs" manifest_valid
  by unfold_locales
    (simp add: manifest_to_body_def, (blast intro: manifest_encodes manifest_parse_built manifest_parse_valid
      manifest_parse_refs)+)

end
