(* ===== verification/KindsContent.thy ===== *)
theory KindsContent
  imports KindsMedia IdentityChain
begin

text \<open>
  The rest of \<open>crates/evermesh-kernel/src/kinds/content.rs\<close>: the derivation statement of a rendition
  and its check, and the kinds \<open>delegate\<close>, \<open>supersede\<close>, \<open>retract\<close>, \<open>mirror\<close> and \<open>similarity\<close> with
  the cross-record checks of the first three.
\<close>

section \<open>Derivations\<close>

definition DERIVATION_SIG_PREFIX :: bytes where
  "DERIVATION_SIG_PREFIX = str ''evermesh:derivation:v1''"

definition dim :: "u64 option \<Rightarrow> val" where
  "dim d = (case d of Some v \<Rightarrow> Uint v | None \<Rightarrow> Null)"

definition derivation_statement ::
  "blob_id \<Rightarrow> blob_id \<Rightarrow> bytes \<Rightarrow> u64 option \<Rightarrow> u64 option \<Rightarrow> u64 \<Rightarrow> error + bytes" where
  "derivation_statement original rendition codec width height bitrate =
     encode_canonical
       (Array [Bytes (blob_id_bytes original), Bytes (blob_id_bytes rendition), Text codec,
               dim width, dim height, Uint bitrate])"

definition verify_derivation :: "crypto \<Rightarrow> rendition \<Rightarrow> blob_id \<Rightarrow> error + unit" where
  "verify_derivation c rendition original =
     and_then (derivation_statement original (md_blob (rd_media rendition)) (md_codec (rd_media rendition))
                 (md_width (rd_media rendition)) (md_height (rd_media rendition)) (rd_bitrate rendition)) (\<lambda>stmt.
     let msg = DERIVATION_SIG_PREFIX @ blake3 c stmt in
     and_then (to_array32 (snd (rd_produced_by rendition)) (Kind ''rendition: produced_by key must be 32 bytes'')) (\<lambda>key.
     if \<not> vk_from_bytes_ok c key then Inl (Kind ''rendition: produced_by key is invalid'')
     else if length (rd_derivation_sig rendition) \<noteq> 64
     then Inl (Kind ''rendition: derivation_sig must be 64 bytes'')
     else if verify_strict c key msg (rd_derivation_sig rendition) then Inr ()
     else Inl (Kind ''rendition: derivation signature invalid'')))"

section \<open>delegate\<close>

record delegate =
  dg_grantee :: identity_id
  dg_capability :: bytes
  dg_expires_at :: "i64 option"
  dg_target :: "record_id option"

definition delegate_parse :: "erecord \<Rightarrow> error + delegate" where
  "delegate_parse record =
     (let body = r_body record in
     and_then (required_identity_id body ''grantee'' ''delegate: grantee required (32 bytes)'') (\<lambda>grantee.
     and_then (required_nonempty_text body ''capability'' 256 ''delegate: capability required'') (\<lambda>capability.
     and_then (i64_field body ''expires_at'' ''delegate: expires_at must be an int'') (\<lambda>expires_at.
     and_then (bool_or body ''revoked'' False ''delegate: revoked must be a bool'') (\<lambda>revoked.
     and_then
       (if revoked \<and> length (r_refs record) = 1
        then and_then (ref_record_id (r_refs record ! 0) ''delegate: revocation ref must be a record ref'')
               (\<lambda>i. Inr (Some i))
        else if \<not> revoked \<and> length (r_refs record) = 0 then Inr None
        else Inl (Kind (''delegate: refs must be empty for a grant, or exactly one record ref ''
                        @ ''for a revocation (with revoked = true)'')))
       (\<lambda>target.
     Inr \<lparr> dg_grantee = grantee, dg_capability = capability, dg_expires_at = expires_at,
           dg_target = target \<rparr>))))))"

definition delegate_to_body :: "delegate \<Rightarrow> val" where
  "delegate_to_body x =
     Map ([entry ''grantee'' (Bytes (identity_id_bytes (dg_grantee x))),
           entry ''capability'' (Text (dg_capability x))]
          @ opt_entry ''expires_at'' from_i64 (dg_expires_at x)
          @ opt_entry ''revoked'' (\<lambda>_. Bool True) (dg_target x))"

definition delegate_refs :: "delegate \<Rightarrow> eref list" where
  "delegate_refs x = (case dg_target x of Some i \<Rightarrow> [ref_record i] | None \<Rightarrow> [])"

definition delegate_valid :: "delegate \<Rightarrow> bool" where
  "delegate_valid x \<longleftrightarrow>
     length (identity_id_bytes (dg_grantee x)) = 32 \<and> dg_capability x \<noteq> [] \<and> fits 256 (dg_capability x)"

lemma delegate_target:
  "(if rv \<and> length rs = Suc 0 then and_then (ref_record_id (rs ! 0) m) (\<lambda>i. Inr (Some i))
    else if \<not> rv \<and> length rs = 0 then Inr None else Inl e) = Inr t
   \<longleftrightarrow> rv = (t \<noteq> None) \<and> rs = (case t of Some i \<Rightarrow> [ref_record i] | None \<Rightarrow> [])"
  by (cases t) (auto simp: and_then_eq_Inr refs_eq_Inr length_Suc_conv)

lemma delegate_encodes: "is_ok (encode_canonical (delegate_to_body x))"
  unfolding delegate_to_body_def
  by (rule keyed_encodes [of "[''grantee'', ''capability'', ''expires_at'', ''revoked'']"])
    (auto simp: keyed_simps)

lemma delegate_parse_built:
  "\<lbrakk>delegate_valid x; r_refs r = delegate_refs x; r_body r = into_canonical (delegate_to_body x)\<rbrakk>
   \<Longrightarrow> delegate_parse r = Inr x"
  using delegate_encodes [of x]
  by (cases "dg_target x") (auto simp: delegate_parse_def delegate_valid_def delegate_to_body_def delegate_refs_def built_simps delegate_target ex_bool_eq)

lemma delegate_parse_valid: "\<lbrakk>delegate_parse r = Inr x; wf_record r\<rbrakk> \<Longrightarrow> delegate_valid x"
  by (auto simp: delegate_parse_def delegate_valid_def parsed_simps delegate_target)

lemma delegate_parse_refs: "delegate_parse r = Inr x \<Longrightarrow> r_refs r = delegate_refs x"
  by (auto simp: delegate_parse_def delegate_refs_def parsed_simps delegate_target)

interpretation delegate: kind_wrapper delegate_parse delegate_to_body "delegate_refs" delegate_valid
  by unfold_locales
    (simp add: delegate_to_body_def, (blast intro: delegate_encodes delegate_parse_built delegate_parse_valid
      delegate_parse_refs)+)

definition check_delegate_revocation :: "bytes \<Rightarrow> delegate \<Rightarrow> bytes \<Rightarrow> delegate \<Rightarrow> error + unit" where
  "check_delegate_revocation revocation_author revocation grant_author grant =
     (if revocation_author \<noteq> grant_author
      then Inl (Kind ''delegate: revocation author must equal grant author'')
      else if dg_grantee revocation \<noteq> dg_grantee grant \<or> dg_capability revocation \<noteq> dg_capability grant
      then Inl (Kind ''delegate: revocation grantee/capability must match the grant'')
      else Inr ())"

section \<open>supersede\<close>

record supersede =
  su_target :: record_id
  su_target_kind :: u64
  su_replacement_body :: val

definition supersede_parse :: "erecord \<Rightarrow> error + supersede" where
  "supersede_parse record =
     and_then (refs_exact record 1 ''supersede: refs must be exactly one target ref'') (\<lambda>_.
     and_then (ref_record_id (r_refs record ! 0) ''supersede: ref must be a record ref'') (\<lambda>target.
     let body = r_body record in
     and_then (required_u64 body ''target_kind'' ''supersede: target_kind required'') (\<lambda>target_kind.
     if target_kind = KIND_ROTATION then Inl (Kind ''supersede/target-rotation'')
     else
       and_then (ok_or (field body ''body'') (Kind ''supersede: body required'')) (\<lambda>replacement_body.
       if as_map replacement_body = None then Inl (Kind ''supersede: body must be a map'')
       else Inr \<lparr> su_target = target, su_target_kind = target_kind,
                  su_replacement_body = replacement_body \<rparr>))))"

definition supersede_to_body :: "supersede \<Rightarrow> val" where
  "supersede_to_body x =
     Map [entry ''target_kind'' (Uint (su_target_kind x)), entry ''body'' (su_replacement_body x)]"

definition supersede_refs :: "supersede \<Rightarrow> eref list" where
  "supersede_refs x = [ref_record (su_target x)]"

definition supersede_valid :: "supersede \<Rightarrow> bool" where
  "supersede_valid x \<longleftrightarrow>
     su_target_kind x \<noteq> KIND_ROTATION \<and> as_map (su_replacement_body x) \<noteq> None
     \<and> canonical (su_replacement_body x)"

lemma supersede_encodes: "supersede_valid x \<Longrightarrow> is_ok (encode_canonical (supersede_to_body x))"
  unfolding supersede_to_body_def
  by (rule keyed_encodes [of "[''target_kind'', ''body'']"])
    (auto simp: keyed_simps supersede_valid_def canonical_is_ok)

lemma supersede_parse_built:
  "\<lbrakk>supersede_valid x; r_refs r = supersede_refs x; r_body r = into_canonical (supersede_to_body x)\<rbrakk>
   \<Longrightarrow> supersede_parse r = Inr x"
  using supersede_encodes [of x]
  by (auto simp: supersede_parse_def supersede_valid_def supersede_to_body_def supersede_refs_def built_simps into_canonical_id)

lemma supersede_parse_valid: "\<lbrakk>supersede_parse r = Inr x; wf_record r\<rbrakk> \<Longrightarrow> supersede_valid x"
  by (auto simp: supersede_parse_def supersede_valid_def parsed_simps dest: wf_record_field)

lemma supersede_parse_refs: "supersede_parse r = Inr x \<Longrightarrow> r_refs r = supersede_refs x"
  by (auto simp: supersede_parse_def supersede_refs_def parsed_simps length_Suc_conv)

interpretation supersede: kind_wrapper supersede_parse supersede_to_body "supersede_refs" supersede_valid
  by unfold_locales
    (simp add: supersede_to_body_def, (blast intro: supersede_encodes supersede_parse_built supersede_parse_valid
      supersede_parse_refs)+)

section \<open>retract\<close>

record retract =
  rt_target :: record_id
  rt_reason :: "bytes option"

definition retract_parse :: "erecord \<Rightarrow> error + retract" where
  "retract_parse record =
     and_then (refs_exact record 1 ''retract: refs must be exactly one target ref'') (\<lambda>_.
     and_then (ref_record_id (r_refs record ! 0) ''retract: ref must be a record ref'') (\<lambda>target.
     let body = r_body record in
     and_then (text_field body ''reason'' usize_max ''retract: reason must be text'') (\<lambda>reason.
     Inr \<lparr> rt_target = target, rt_reason = reason \<rparr>)))"

definition retract_to_body :: "retract \<Rightarrow> val" where
  "retract_to_body x = Map (opt_entry ''reason'' Text (rt_reason x))"

definition retract_refs :: "retract \<Rightarrow> eref list" where
  "retract_refs x = [ref_record (rt_target x)]"

definition retract_valid :: "retract \<Rightarrow> bool" where
  "retract_valid x \<longleftrightarrow> pred_option (fits usize_max) (rt_reason x)"

lemma retract_encodes: "is_ok (encode_canonical (retract_to_body x))"
  unfolding retract_to_body_def
  by (rule keyed_encodes [of "[''reason'']"])
    (auto simp: keyed_simps)

lemma retract_parse_built:
  "\<lbrakk>retract_valid x; r_refs r = retract_refs x; r_body r = into_canonical (retract_to_body x)\<rbrakk>
   \<Longrightarrow> retract_parse r = Inr x"
  using retract_encodes [of x]
  by (auto simp: retract_parse_def retract_valid_def retract_to_body_def retract_refs_def built_simps)

lemma retract_parse_valid: "\<lbrakk>retract_parse r = Inr x; wf_record r\<rbrakk> \<Longrightarrow> retract_valid x"
  by (auto simp: retract_parse_def retract_valid_def parsed_simps)

lemma retract_parse_refs: "retract_parse r = Inr x \<Longrightarrow> r_refs r = retract_refs x"
  by (auto simp: retract_parse_def retract_refs_def parsed_simps length_Suc_conv)

interpretation retract: kind_wrapper retract_parse retract_to_body "retract_refs" retract_valid
  by unfold_locales
    (simp add: retract_to_body_def, (blast intro: retract_encodes retract_parse_built retract_parse_valid
      retract_parse_refs)+)

definition check_retract_target_kind :: "u64 \<Rightarrow> error + unit" where
  "check_retract_target_kind target_kind =
     (if target_kind = KIND_ROTATION then Inl (Kind ''retract: target must not be a rotation record'')
      else Inr ())"

section \<open>mirror\<close>

record mirror =
  mi_targets :: "eref list"
  mi_hints :: "hint list"

definition mirror_parse :: "erecord \<Rightarrow> error + mirror" where
  "mirror_parse record =
     and_then (refs_min record 1 ''mirror: at least one ref required'') (\<lambda>_.
     let targets = r_refs record in
     and_then (kind_parse_items (r_body record) ''hints'' ''mirror: hints must be an array'' hint_parse) (\<lambda>hints.
     Inr \<lparr> mi_targets = targets, mi_hints = hints \<rparr>))"

definition mirror_to_body :: "mirror \<Rightarrow> val" where
  "mirror_to_body x = Map (list_entry ''hints'' hint_to_value (mi_hints x))"

definition mirror_refs :: "mirror \<Rightarrow> eref list" where
  "mirror_refs x = mi_targets x"

definition mirror_valid :: "mirror \<Rightarrow> bool" where
  "mirror_valid x \<longleftrightarrow> mi_targets x \<noteq> []"

lemma mirror_encodes: "is_ok (encode_canonical (mirror_to_body x))"
  unfolding mirror_to_body_def
  by (rule keyed_encodes [of "[''hints'']"])
    (auto simp: keyed_simps)

lemma mirror_parse_built:
  "\<lbrakk>mirror_valid x; r_refs r = mirror_refs x; r_body r = into_canonical (mirror_to_body x)\<rbrakk>
   \<Longrightarrow> mirror_parse r = Inr x"
  using mirror_encodes [of x]
  by (auto simp: mirror_parse_def mirror_valid_def mirror_to_body_def mirror_refs_def built_simps Suc_le_eq)

lemma mirror_parse_valid: "\<lbrakk>mirror_parse r = Inr x; wf_record r\<rbrakk> \<Longrightarrow> mirror_valid x"
  by (auto simp: mirror_parse_def mirror_valid_def parsed_simps Suc_le_eq)

lemma mirror_parse_refs: "mirror_parse r = Inr x \<Longrightarrow> r_refs r = mirror_refs x"
  by (auto simp: mirror_parse_def mirror_refs_def parsed_simps length_Suc_conv)

interpretation mirror: kind_wrapper mirror_parse mirror_to_body "mirror_refs" mirror_valid
  by unfold_locales
    (simp add: mirror_to_body_def, (blast intro: mirror_encodes mirror_parse_built mirror_parse_valid
      mirror_parse_refs)+)

section \<open>similarity\<close>

record similarity =
  si_candidate :: eref
  si_canonical :: record_id
  si_method :: bytes
  si_score :: u64

definition similarity_parse :: "erecord \<Rightarrow> error + similarity" where
  "similarity_parse record =
     and_then (refs_exact record 2 ''similarity: refs must have exactly 2 elements'') (\<lambda>_.
     let candidate = r_refs record ! 0 in
     and_then (ref_record_id (r_refs record ! 1)
                 ''similarity: refs[1] must be a record ref (canonical manifest)'') (\<lambda>canon.
     let body = r_body record in
     and_then (required_nonempty_text body ''method'' usize_max ''similarity: method required'') (\<lambda>meth.
     and_then (required_u64 body ''score'' ''similarity: score required'') (\<lambda>score.
     if 10000 < score then Inl (Kind ''similarity/score-overflow'')
     else Inr \<lparr> si_candidate = candidate, si_canonical = canon, si_method = meth, si_score = score \<rparr>))))"

definition similarity_to_body :: "similarity \<Rightarrow> val" where
  "similarity_to_body x =
     Map [entry ''method'' (Text (si_method x)), entry ''score'' (Uint (si_score x))]"

definition similarity_refs :: "similarity \<Rightarrow> eref list" where
  "similarity_refs x = [si_candidate x, ref_record (si_canonical x)]"

definition similarity_valid :: "similarity \<Rightarrow> bool" where
  "similarity_valid x \<longleftrightarrow> si_method x \<noteq> [] \<and> fits usize_max (si_method x) \<and> si_score x \<le> 10000"

lemma similarity_encodes: "is_ok (encode_canonical (similarity_to_body x))"
  unfolding similarity_to_body_def
  by (rule keyed_encodes [of "[''method'', ''score'']"])
    (auto simp: keyed_simps)

lemma similarity_parse_built:
  "\<lbrakk>similarity_valid x; r_refs r = similarity_refs x; r_body r = into_canonical (similarity_to_body x)\<rbrakk>
   \<Longrightarrow> similarity_parse r = Inr x"
  using similarity_encodes [of x]
  by (auto simp: similarity_parse_def similarity_valid_def similarity_to_body_def similarity_refs_def built_simps not_less)

lemma similarity_parse_valid: "\<lbrakk>similarity_parse r = Inr x; wf_record r\<rbrakk> \<Longrightarrow> similarity_valid x"
  by (auto simp: similarity_parse_def similarity_valid_def parsed_simps not_less)

lemma similarity_parse_refs: "similarity_parse r = Inr x \<Longrightarrow> r_refs r = similarity_refs x"
  by (auto simp: similarity_parse_def similarity_refs_def parsed_simps length_Suc_conv eval_nat_numeral)

interpretation similarity: kind_wrapper similarity_parse similarity_to_body "similarity_refs" similarity_valid
  by unfold_locales
    (simp add: similarity_to_body_def, (blast intro: similarity_encodes similarity_parse_built similarity_parse_valid
      similarity_parse_refs)+)

end
