(* ===== verification/KindsSocial.thy ===== *)
theory KindsSocial
  imports KindsMedia
begin

text \<open>
  The social kinds (\<open>crates/evermesh-kernel/src/kinds/social.rs\<close>): \<open>profile\<close>, \<open>comment\<close> with its
  thread check, \<open>reaction\<close>, \<open>follow\<close>, \<open>playlist\<close> and \<open>channel\<close>.
\<close>

section \<open>profile\<close>

record profile =
  pf_name :: bytes
  pf_about :: "bytes option"
  pf_avatar :: "blob_id option"
  pf_payment :: "payment_pointer list"
  pf_relays :: "bytes list"
  pf_seeds :: "bytes list"
  pf_enc_key :: "(u64 \<times> bytes) option"

text \<open>The two matches of \<open>Profile::parse\<close>, on \<open>payment\<close> and on \<open>enc_key\<close>.\<close>

definition payment_field :: "val option \<Rightarrow> error + payment_pointer list" where
  "payment_field o' =
     (case o' of
        None \<Rightarrow> Inr []
      | Some v \<Rightarrow>
          and_then (ok_or (as_array v) (Kind ''profile: payment must be an array'')) (\<lambda>arr.
          try_map payment_pointer_parse arr))"

definition enc_key_field :: "val option \<Rightarrow> error + (u64 \<times> bytes) option" where
  "enc_key_field o' =
     (case o' of
        None \<Rightarrow> Inr None
      | Some v \<Rightarrow>
          and_then (ok_or (as_array v) (Kind ''profile: enc_key must be [alg, key]'')) (\<lambda>arr.
          if length arr \<noteq> 2 then Inl (Kind ''profile: enc_key must have exactly 2 elements'')
          else
            and_then (ok_or (as_u64 (arr ! 0)) (Kind ''profile: enc_key alg must be a uint'')) (\<lambda>alg.
            and_then (ok_or (as_bytes (arr ! 1)) (Kind ''profile: enc_key key must be bytes'')) (\<lambda>key.
            Inr (Some (alg, key))))))"

definition profile_parse :: "erecord \<Rightarrow> error + profile" where
  "profile_parse record =
     and_then (refs_empty record ''profile: refs must be empty'') (\<lambda>_.
     let body = r_body record in
     and_then (required_nonempty_text body ''name'' 256 ''profile: name required'') (\<lambda>name.
     and_then (text_field body ''about'' usize_max ''profile: about must be text'') (\<lambda>about.
     and_then (blob_id_field body ''avatar'' ''profile: avatar must be 32 bytes'') (\<lambda>avatar.
     and_then (payment_field (field body ''payment'')) (\<lambda>payment.
     and_then (text_array body ''relays'' usize_max ''profile: relay url must be text'') (\<lambda>relays.
     and_then (text_array body ''seeds'' usize_max ''profile: seed url must be text'') (\<lambda>seeds.
     and_then (enc_key_field (field body ''enc_key'')) (\<lambda>enc_key.
     Inr \<lparr> pf_name = name, pf_about = about, pf_avatar = avatar, pf_payment = payment,
           pf_relays = relays, pf_seeds = seeds, pf_enc_key = enc_key \<rparr>))))))))"

definition enc_key_to_value :: "u64 \<times> bytes \<Rightarrow> val" where
  "enc_key_to_value k = Array [Uint (fst k), Bytes (snd k)]"

definition profile_to_body :: "profile \<Rightarrow> val" where
  "profile_to_body x =
     Map ([entry ''name'' (Text (pf_name x))]
          @ opt_entry ''about'' Text (pf_about x)
          @ opt_entry ''avatar'' (\<lambda>i. Bytes (blob_id_bytes i)) (pf_avatar x)
          @ list_entry ''payment'' payment_pointer_to_value (pf_payment x)
          @ list_entry ''relays'' Text (pf_relays x)
          @ list_entry ''seeds'' Text (pf_seeds x)
          @ opt_entry ''enc_key'' enc_key_to_value (pf_enc_key x))"

definition profile_valid :: "profile \<Rightarrow> bool" where
  "profile_valid x \<longleftrightarrow>
     pf_name x \<noteq> [] \<and> fits 256 (pf_name x) \<and> pred_option (fits usize_max) (pf_about x)
     \<and> pred_option (\<lambda>i. length (blob_id_bytes i) = 32) (pf_avatar x)
     \<and> list_all (fits usize_max) (pf_relays x) \<and> list_all (fits usize_max) (pf_seeds x)"

lemma payment_field_eq_Inr:
  "payment_field o' = Inr ps \<longleftrightarrow> (\<exists>vs. array_or_empty o' = Some vs \<and> try_map payment_pointer_parse vs = Inr ps)"
  by (auto simp: payment_field_def array_or_empty_def and_then_eq_Inr ok_or_eq_Inr split: option.splits)

lemma enc_key_built [simp]:
  "enc_key_field (map_option into_canonical (map_option enc_key_to_value k)) = Inr k"
  by (cases k) (simp_all add: enc_key_field_def enc_key_to_value_def)

lemma enc_key_encodes [simp]: "is_ok (encode_canonical (enc_key_to_value k))"
  by (simp add: enc_key_to_value_def)

lemma profile_encodes: "is_ok (encode_canonical (profile_to_body x))"
  unfolding profile_to_body_def
  by (rule keyed_encodes [of "[''name'', ''about'', ''avatar'', ''payment'', ''relays'', ''seeds'', ''enc_key'']"])
    (auto simp: keyed_simps)

lemma profile_parse_built:
  "\<lbrakk>profile_valid x; r_refs r = []; r_body r = into_canonical (profile_to_body x)\<rbrakk>
   \<Longrightarrow> profile_parse r = Inr x"
  using profile_encodes [of x]
  by (auto simp: profile_parse_def profile_valid_def profile_to_body_def built_simps payment_field_eq_Inr)

lemma profile_parse_valid: "\<lbrakk>profile_parse r = Inr x; wf_record r\<rbrakk> \<Longrightarrow> profile_valid x"
  by (auto simp: profile_parse_def profile_valid_def parsed_simps payment_field_eq_Inr)

lemma profile_parse_refs: "profile_parse r = Inr x \<Longrightarrow> r_refs r = []"
  by (auto simp: profile_parse_def parsed_simps length_Suc_conv)

interpretation profile: kind_wrapper profile_parse profile_to_body "\<lambda>_. []" profile_valid
  by unfold_locales
    (simp add: profile_to_body_def, (blast intro: profile_encodes profile_parse_built profile_parse_valid
      profile_parse_refs)+)

section \<open>comment\<close>

record comment =
  co_subject :: record_id
  co_parent :: "record_id option"
  co_text :: bytes
  co_media :: "blob_id list"

definition comment_parse :: "erecord \<Rightarrow> error + comment" where
  "comment_parse record =
     (let refs = r_refs record in
     if refs = [] \<or> 2 < length refs
     then Inl (Kind ''comment: refs must have 1 (subject) or 2 (subject, parent) elements'')
     else
       and_then (ref_record_id (refs ! 0) ''comment: subject ref must be a record ref'') (\<lambda>subject.
       and_then
         (if length refs = 2
          then and_then (ref_record_id (refs ! 1) ''comment: parent ref must be a record ref'') (\<lambda>i. Inr (Some i))
          else Inr None) (\<lambda>parent.
       let body = r_body record in
       and_then (required_nonempty_text body ''text'' 8192 ''comment: text required'') (\<lambda>txt.
       and_then (blob_id_array body ''media'' ''comment: media must be an array of blob ids'') (\<lambda>media.
       Inr \<lparr> co_subject = subject, co_parent = parent, co_text = txt, co_media = media \<rparr>)))))"

definition comment_to_body :: "comment \<Rightarrow> val" where
  "comment_to_body x =
     Map ([entry ''text'' (Text (co_text x))]
          @ list_entry ''media'' (\<lambda>b. Bytes (blob_id_bytes b)) (co_media x))"

definition comment_refs :: "comment \<Rightarrow> eref list" where
  "comment_refs x =
     [ref_record (co_subject x)] @ (case co_parent x of Some p \<Rightarrow> [ref_record p] | None \<Rightarrow> [])"

definition comment_valid :: "comment \<Rightarrow> bool" where
  "comment_valid x \<longleftrightarrow>
     co_text x \<noteq> [] \<and> fits 8192 (co_text x) \<and> list_all (\<lambda>b. length (blob_id_bytes b) = 32) (co_media x)"

lemma comment_encodes: "is_ok (encode_canonical (comment_to_body x))"
  unfolding comment_to_body_def
  by (rule keyed_encodes [of "[''text'', ''media'']"])
    (auto simp: keyed_simps)

lemma comment_parse_built:
  "\<lbrakk>comment_valid x; r_refs r = comment_refs x; r_body r = into_canonical (comment_to_body x)\<rbrakk>
   \<Longrightarrow> comment_parse r = Inr x"
  using comment_encodes [of x]
  by (cases "co_parent x") (auto simp: comment_parse_def comment_valid_def comment_to_body_def comment_refs_def built_simps)

lemma comment_parse_valid: "\<lbrakk>comment_parse r = Inr x; wf_record r\<rbrakk> \<Longrightarrow> comment_valid x"
  by (auto simp: comment_parse_def comment_valid_def parsed_simps)

lemma comment_parse_refs: "comment_parse r = Inr x \<Longrightarrow> r_refs r = comment_refs x"
  by (auto simp: comment_parse_def comment_refs_def parsed_simps length_Suc_conv le_Suc_eq eval_nat_numeral not_less split: if_splits)

interpretation comment: kind_wrapper comment_parse comment_to_body "comment_refs" comment_valid
  by unfold_locales
    (simp add: comment_to_body_def, (blast intro: comment_encodes comment_parse_built comment_parse_valid
      comment_parse_refs)+)

definition check_comment_thread :: "comment \<Rightarrow> comment \<Rightarrow> error + unit" where
  "check_comment_thread comment parent =
     (case co_parent comment of
        None \<Rightarrow> Inr ()
      | Some _ \<Rightarrow>
          if co_subject comment = co_subject parent then Inr ()
          else Inl (Kind ''comment/parent-subject-mismatch''))"

section \<open>reaction\<close>

record reaction =
  re_target :: record_id
  re_reaction :: bytes

definition reaction_parse :: "erecord \<Rightarrow> error + reaction" where
  "reaction_parse record =
     and_then (refs_exact record 1 ''reaction: refs must be exactly one target ref'') (\<lambda>_.
     and_then (ref_record_id (r_refs record ! 0) ''reaction: ref must be a record ref'') (\<lambda>target.
     let body = r_body record in
     and_then (required_text body ''reaction'' 32 ''reaction: reaction required (<=32 bytes)'') (\<lambda>reaction.
     Inr \<lparr> re_target = target, re_reaction = reaction \<rparr>)))"

definition reaction_to_body :: "reaction \<Rightarrow> val" where
  "reaction_to_body x = Map [entry ''reaction'' (Text (re_reaction x))]"

definition reaction_refs :: "reaction \<Rightarrow> eref list" where
  "reaction_refs x = [ref_record (re_target x)]"

definition reaction_valid :: "reaction \<Rightarrow> bool" where
  "reaction_valid x \<longleftrightarrow> fits 32 (re_reaction x)"

lemma reaction_encodes: "is_ok (encode_canonical (reaction_to_body x))"
  unfolding reaction_to_body_def
  by (rule keyed_encodes [of "[''reaction'']"])
    (auto simp: keyed_simps)

lemma reaction_parse_built:
  "\<lbrakk>reaction_valid x; r_refs r = reaction_refs x; r_body r = into_canonical (reaction_to_body x)\<rbrakk>
   \<Longrightarrow> reaction_parse r = Inr x"
  using reaction_encodes [of x]
  by (auto simp: reaction_parse_def reaction_valid_def reaction_to_body_def reaction_refs_def built_simps)

lemma reaction_parse_valid: "\<lbrakk>reaction_parse r = Inr x; wf_record r\<rbrakk> \<Longrightarrow> reaction_valid x"
  by (auto simp: reaction_parse_def reaction_valid_def parsed_simps)

lemma reaction_parse_refs: "reaction_parse r = Inr x \<Longrightarrow> r_refs r = reaction_refs x"
  by (auto simp: reaction_parse_def reaction_refs_def parsed_simps length_Suc_conv)

interpretation reaction: kind_wrapper reaction_parse reaction_to_body "reaction_refs" reaction_valid
  by unfold_locales
    (simp add: reaction_to_body_def, (blast intro: reaction_encodes reaction_parse_built reaction_parse_valid
      reaction_parse_refs)+)

section \<open>follow\<close>

record follow =
  fo_followed :: identity_id
  fo_note :: "bytes option"

definition follow_parse :: "erecord \<Rightarrow> error + follow" where
  "follow_parse record =
     and_then (refs_exact record 1 ''follow: refs must be exactly one followed-identity ref'') (\<lambda>_.
     let r = r_refs record ! 0 in
     if \<not> is_record r then Inl (Kind ''follow: ref must be a record ref'')
     else
       let followed = IdentityId (ref_hash r); body = r_body record in
       and_then (text_field body ''note'' usize_max ''follow: note must be text'') (\<lambda>note.
       Inr \<lparr> fo_followed = followed, fo_note = note \<rparr>))"

definition follow_to_body :: "follow \<Rightarrow> val" where
  "follow_to_body x = Map (opt_entry ''note'' Text (fo_note x))"

definition follow_refs :: "follow \<Rightarrow> eref list" where
  "follow_refs x = [ref_record (RecordId (identity_id_bytes (fo_followed x)))]"

definition follow_valid :: "follow \<Rightarrow> bool" where
  "follow_valid x \<longleftrightarrow> pred_option (fits usize_max) (fo_note x)"

lemma is_record_ref: "is_record r \<longleftrightarrow> r = ref_record (RecordId (ref_hash r))"
  by (cases r) (auto simp: is_record_def ref_record_def)

lemma ref_hash_record [simp]: "ref_hash (ref_record i) = record_id_bytes i"
  by (simp add: ref_record_def)

lemma follow_encodes: "is_ok (encode_canonical (follow_to_body x))"
  unfolding follow_to_body_def
  by (rule keyed_encodes [of "[''note'']"])
    (auto simp: keyed_simps)

lemma follow_parse_built:
  "\<lbrakk>follow_valid x; r_refs r = follow_refs x; r_body r = into_canonical (follow_to_body x)\<rbrakk>
   \<Longrightarrow> follow_parse r = Inr x"
  using follow_encodes [of x]
  by (auto simp: follow_parse_def follow_valid_def follow_to_body_def follow_refs_def built_simps)

lemma follow_parse_valid: "\<lbrakk>follow_parse r = Inr x; wf_record r\<rbrakk> \<Longrightarrow> follow_valid x"
  by (auto simp: follow_parse_def follow_valid_def parsed_simps)

lemma follow_parse_refs: "follow_parse r = Inr x \<Longrightarrow> r_refs r = follow_refs x"
  by (auto simp: follow_parse_def follow_refs_def parsed_simps length_Suc_conv is_record_ref)

interpretation follow: kind_wrapper follow_parse follow_to_body "follow_refs" follow_valid
  by unfold_locales
    (simp add: follow_to_body_def, (blast intro: follow_encodes follow_parse_built follow_parse_valid
      follow_parse_refs)+)

section \<open>playlist\<close>

record playlist =
  pl_title :: bytes
  pl_description :: "bytes option"
  pl_entries :: "record_id list"

text \<open>One step of the loop over the entries.\<close>

definition playlist_entry :: "val \<Rightarrow> error + record_id" where
  "playlist_entry v =
     and_then (ok_or (as_bytes v) (Kind ''playlist: entry must be bytes'')) (\<lambda>b.
     and_then (to_array32 b (Kind ''playlist: entry must be 32 bytes'')) (\<lambda>a.
     Inr (RecordId a)))"

definition playlist_parse :: "erecord \<Rightarrow> error + playlist" where
  "playlist_parse record =
     and_then (refs_empty record ''playlist: refs must be empty'') (\<lambda>_.
     let body = r_body record in
     and_then (required_nonempty_text body ''title'' 512 ''playlist: title required'') (\<lambda>title.
     and_then (text_field body ''description'' 16384 ''playlist: description too long'') (\<lambda>description.
     and_then (required_array body ''entries'' ''playlist: entries required'') (\<lambda>entries_v.
     if entries_v = [] then Inl (Kind ''playlist: entries must be non-empty'')
     else
       and_then (try_map playlist_entry entries_v) (\<lambda>entries.
       Inr \<lparr> pl_title = title, pl_description = description, pl_entries = entries \<rparr>)))))"

definition playlist_to_body :: "playlist \<Rightarrow> val" where
  "playlist_to_body x =
     Map ([entry ''title'' (Text (pl_title x)),
           entry ''entries'' (Array (map (\<lambda>i. Bytes (record_id_bytes i)) (pl_entries x)))]
          @ opt_entry ''description'' Text (pl_description x))"

definition playlist_valid :: "playlist \<Rightarrow> bool" where
  "playlist_valid x \<longleftrightarrow>
     pl_title x \<noteq> [] \<and> fits 512 (pl_title x) \<and> pred_option (fits 16384) (pl_description x)
     \<and> pl_entries x \<noteq> [] \<and> list_all (\<lambda>i. length (record_id_bytes i) = 32) (pl_entries x)"

lemma playlist_entry_eq_Inr:
  "playlist_entry v = Inr i \<longleftrightarrow> v = Bytes (record_id_bytes i) \<and> length (record_id_bytes i) = 32"
  by (cases i) (auto simp: playlist_entry_def parsed_simps)

lemma playlist_entries_eq_Inr:
  "try_map playlist_entry vs = Inr is \<longleftrightarrow>
   vs = map (\<lambda>i. Bytes (record_id_bytes i)) is \<and> list_all (\<lambda>i. length (record_id_bytes i) = 32) is"
  by (rule try_map_written) (rule playlist_entry_eq_Inr)

lemma record_ids_eq_iff [simp]:
  "map (\<lambda>i. Bytes (record_id_bytes i)) is = map (\<lambda>i. Bytes (record_id_bytes i)) js \<longleftrightarrow> is = js"
  by (intro inj_map_eq_map) (simp add: inj_def record_id.expand)

lemma playlist_encodes: "is_ok (encode_canonical (playlist_to_body x))"
  unfolding playlist_to_body_def
  by (rule keyed_encodes [of "[''title'', ''entries'', ''description'']"])
    (auto simp: keyed_simps)

lemma playlist_parse_built:
  "\<lbrakk>playlist_valid x; r_refs r = []; r_body r = into_canonical (playlist_to_body x)\<rbrakk>
   \<Longrightarrow> playlist_parse r = Inr x"
  using playlist_encodes [of x]
  by (auto simp: playlist_parse_def playlist_valid_def playlist_to_body_def built_simps playlist_entries_eq_Inr)

lemma playlist_parse_valid: "\<lbrakk>playlist_parse r = Inr x; wf_record r\<rbrakk> \<Longrightarrow> playlist_valid x"
  by (auto simp: playlist_parse_def playlist_valid_def parsed_simps playlist_entries_eq_Inr)

lemma playlist_parse_refs: "playlist_parse r = Inr x \<Longrightarrow> r_refs r = []"
  by (auto simp: playlist_parse_def parsed_simps length_Suc_conv)

interpretation playlist: kind_wrapper playlist_parse playlist_to_body "\<lambda>_. []" playlist_valid
  by unfold_locales
    (simp add: playlist_to_body_def, (blast intro: playlist_encodes playlist_parse_built playlist_parse_valid
      playlist_parse_refs)+)

section \<open>channel\<close>

record channel =
  ch_title :: bytes
  ch_description :: "bytes option"
  ch_avatar :: "blob_id option"
  ch_banner :: "blob_id option"

definition channel_parse :: "erecord \<Rightarrow> error + channel" where
  "channel_parse record =
     and_then (refs_empty record ''channel: refs must be empty'') (\<lambda>_.
     let body = r_body record in
     and_then (required_nonempty_text body ''title'' 512 ''channel: title required'') (\<lambda>title.
     and_then (text_field body ''description'' 16384 ''channel: description too long'') (\<lambda>description.
     and_then (blob_id_field body ''avatar'' ''channel: avatar must be 32 bytes'') (\<lambda>avatar.
     and_then (blob_id_field body ''banner'' ''channel: banner must be 32 bytes'') (\<lambda>banner.
     Inr \<lparr> ch_title = title, ch_description = description, ch_avatar = avatar, ch_banner = banner \<rparr>)))))"

definition channel_to_body :: "channel \<Rightarrow> val" where
  "channel_to_body x =
     Map ([entry ''title'' (Text (ch_title x))]
          @ opt_entry ''description'' Text (ch_description x)
          @ opt_entry ''avatar'' (\<lambda>i. Bytes (blob_id_bytes i)) (ch_avatar x)
          @ opt_entry ''banner'' (\<lambda>i. Bytes (blob_id_bytes i)) (ch_banner x))"

definition channel_valid :: "channel \<Rightarrow> bool" where
  "channel_valid x \<longleftrightarrow>
     ch_title x \<noteq> [] \<and> fits 512 (ch_title x) \<and> pred_option (fits 16384) (ch_description x)
     \<and> pred_option (\<lambda>i. length (blob_id_bytes i) = 32) (ch_avatar x)
     \<and> pred_option (\<lambda>i. length (blob_id_bytes i) = 32) (ch_banner x)"

lemma channel_encodes: "is_ok (encode_canonical (channel_to_body x))"
  unfolding channel_to_body_def
  by (rule keyed_encodes [of "[''title'', ''description'', ''avatar'', ''banner'']"])
    (auto simp: keyed_simps)

lemma channel_parse_built:
  "\<lbrakk>channel_valid x; r_refs r = []; r_body r = into_canonical (channel_to_body x)\<rbrakk>
   \<Longrightarrow> channel_parse r = Inr x"
  using channel_encodes [of x]
  by (auto simp: channel_parse_def channel_valid_def channel_to_body_def built_simps)

lemma channel_parse_valid: "\<lbrakk>channel_parse r = Inr x; wf_record r\<rbrakk> \<Longrightarrow> channel_valid x"
  by (auto simp: channel_parse_def channel_valid_def parsed_simps)

lemma channel_parse_refs: "channel_parse r = Inr x \<Longrightarrow> r_refs r = []"
  by (auto simp: channel_parse_def parsed_simps length_Suc_conv)

interpretation channel: kind_wrapper channel_parse channel_to_body "\<lambda>_. []" channel_valid
  by unfold_locales
    (simp add: channel_to_body_def, (blast intro: channel_encodes channel_parse_built channel_parse_valid
      channel_parse_refs)+)

end
