(* ===== verification/KindsClaims.thy ===== *)
theory KindsClaims
  imports KindsBase
begin

text \<open>
  The claim kinds (\<open>crates/evermesh-kernel/src/kinds/claims.rs\<close>): \<open>claim.author\<close>, \<open>claim.license\<close>,
  \<open>claim.transfer\<close> and \<open>claim.dispute\<close>, each about the one record its ref names.
\<close>

section \<open>claim.author\<close>

record claim_author =
  ca_subject :: record_id
  ca_statement :: "bytes option"
  ca_evidence :: "blob_id list"

definition claim_author_parse :: "erecord \<Rightarrow> error + claim_author" where
  "claim_author_parse record =
     and_then (refs_exact record 1 ''claim.author: refs must be exactly one subject ref'') (\<lambda>_.
     and_then (ref_record_id (r_refs record ! 0) ''claim.author: ref must be a record ref'') (\<lambda>subject.
     let body = r_body record in
     and_then (text_field body ''statement'' usize_max ''claim.author: statement must be text'') (\<lambda>statement.
     and_then (blob_id_array body ''evidence'' ''claim.author: evidence must be an array of blob ids'') (\<lambda>evidence.
     Inr \<lparr> ca_subject = subject, ca_statement = statement, ca_evidence = evidence \<rparr>))))"

definition claim_author_to_body :: "claim_author \<Rightarrow> val" where
  "claim_author_to_body x =
     Map (opt_entry ''statement'' Text (ca_statement x)
          @ list_entry ''evidence'' (\<lambda>b. Bytes (blob_id_bytes b)) (ca_evidence x))"

definition claim_author_refs :: "claim_author \<Rightarrow> eref list" where
  "claim_author_refs x = [ref_record (ca_subject x)]"

definition claim_author_valid :: "claim_author \<Rightarrow> bool" where
  "claim_author_valid x \<longleftrightarrow>
     pred_option (fits usize_max) (ca_statement x)
     \<and> list_all (\<lambda>b. length (blob_id_bytes b) = 32) (ca_evidence x)"

lemma claim_author_encodes: "is_ok (encode_canonical (claim_author_to_body x))"
  unfolding claim_author_to_body_def
  by (rule keyed_encodes [of "[''statement'', ''evidence'']"])
    (auto simp: keyed_simps)

lemma claim_author_parse_built:
  "\<lbrakk>claim_author_valid x; r_refs r = claim_author_refs x; r_body r = into_canonical (claim_author_to_body x)\<rbrakk>
   \<Longrightarrow> claim_author_parse r = Inr x"
  using claim_author_encodes [of x]
  by (auto simp: claim_author_parse_def claim_author_valid_def claim_author_to_body_def claim_author_refs_def built_simps)

lemma claim_author_parse_valid: "\<lbrakk>claim_author_parse r = Inr x; wf_record r\<rbrakk> \<Longrightarrow> claim_author_valid x"
  by (auto simp: claim_author_parse_def claim_author_valid_def parsed_simps)

lemma claim_author_parse_refs: "claim_author_parse r = Inr x \<Longrightarrow> r_refs r = claim_author_refs x"
  by (auto simp: claim_author_parse_def claim_author_refs_def parsed_simps length_Suc_conv)

interpretation claim_author: kind_wrapper claim_author_parse claim_author_to_body "claim_author_refs" claim_author_valid
  by unfold_locales
    (simp add: claim_author_to_body_def, (blast intro: claim_author_encodes claim_author_parse_built claim_author_parse_valid
      claim_author_parse_refs)+)

section \<open>claim.license\<close>

record claim_license =
  cl_subject :: record_id
  cl_license :: bytes
  cl_terms :: "bytes option"

definition claim_license_parse :: "erecord \<Rightarrow> error + claim_license" where
  "claim_license_parse record =
     and_then (refs_exact record 1 ''claim.license: refs must be exactly one subject ref'') (\<lambda>_.
     and_then (ref_record_id (r_refs record ! 0) ''claim.license: ref must be a record ref'') (\<lambda>subject.
     let body = r_body record in
     and_then (required_text body ''license'' 4096 ''claim.license: license required'') (\<lambda>license.
     and_then (validate_license license) (\<lambda>_.
     and_then (text_field body ''terms'' usize_max ''claim.license: terms must be text'') (\<lambda>terms.
     Inr \<lparr> cl_subject = subject, cl_license = license, cl_terms = terms \<rparr>)))))"

definition claim_license_to_body :: "claim_license \<Rightarrow> val" where
  "claim_license_to_body x =
     Map ([entry ''license'' (Text (cl_license x))] @ opt_entry ''terms'' Text (cl_terms x))"

definition claim_license_refs :: "claim_license \<Rightarrow> eref list" where
  "claim_license_refs x = [ref_record (cl_subject x)]"

definition claim_license_valid :: "claim_license \<Rightarrow> bool" where
  "claim_license_valid x \<longleftrightarrow>
     cl_license x \<noteq> [] \<and> length (cl_license x) \<le> 64 \<and> pred_option (fits usize_max) (cl_terms x)"

lemma claim_license_encodes: "is_ok (encode_canonical (claim_license_to_body x))"
  unfolding claim_license_to_body_def
  by (rule keyed_encodes [of "[''license'', ''terms'']"])
    (auto simp: keyed_simps)

lemma claim_license_parse_built:
  "\<lbrakk>claim_license_valid x; r_refs r = claim_license_refs x; r_body r = into_canonical (claim_license_to_body x)\<rbrakk>
   \<Longrightarrow> claim_license_parse r = Inr x"
  using claim_license_encodes [of x]
  by (auto simp: claim_license_parse_def claim_license_valid_def claim_license_to_body_def claim_license_refs_def built_simps fits_def)

lemma claim_license_parse_valid: "\<lbrakk>claim_license_parse r = Inr x; wf_record r\<rbrakk> \<Longrightarrow> claim_license_valid x"
  by (auto simp: claim_license_parse_def claim_license_valid_def parsed_simps)

lemma claim_license_parse_refs: "claim_license_parse r = Inr x \<Longrightarrow> r_refs r = claim_license_refs x"
  by (auto simp: claim_license_parse_def claim_license_refs_def parsed_simps length_Suc_conv)

interpretation claim_license: kind_wrapper claim_license_parse claim_license_to_body "claim_license_refs" claim_license_valid
  by unfold_locales
    (simp add: claim_license_to_body_def, (blast intro: claim_license_encodes claim_license_parse_built claim_license_parse_valid
      claim_license_parse_refs)+)

section \<open>claim.transfer\<close>

record claim_transfer =
  ct_subject :: record_id
  ct_assignee :: identity_id
  ct_note :: "bytes option"

definition claim_transfer_parse :: "erecord \<Rightarrow> error + claim_transfer" where
  "claim_transfer_parse record =
     and_then (refs_exact record 1 ''claim.transfer: refs must be exactly one subject ref'') (\<lambda>_.
     and_then (ref_record_id (r_refs record ! 0) ''claim.transfer: ref must be a record ref'') (\<lambda>subject.
     let body = r_body record in
     and_then (required_identity_id body ''assignee'' ''claim.transfer: assignee required (32 bytes)'') (\<lambda>assignee.
     and_then (text_field body ''note'' usize_max ''claim.transfer: note must be text'') (\<lambda>note.
     Inr \<lparr> ct_subject = subject, ct_assignee = assignee, ct_note = note \<rparr>))))"

definition claim_transfer_to_body :: "claim_transfer \<Rightarrow> val" where
  "claim_transfer_to_body x =
     Map ([entry ''assignee'' (Bytes (identity_id_bytes (ct_assignee x)))] @ opt_entry ''note'' Text (ct_note x))"

definition claim_transfer_refs :: "claim_transfer \<Rightarrow> eref list" where
  "claim_transfer_refs x = [ref_record (ct_subject x)]"

definition claim_transfer_valid :: "claim_transfer \<Rightarrow> bool" where
  "claim_transfer_valid x \<longleftrightarrow>
     length (identity_id_bytes (ct_assignee x)) = 32 \<and> pred_option (fits usize_max) (ct_note x)"

lemma claim_transfer_encodes: "is_ok (encode_canonical (claim_transfer_to_body x))"
  unfolding claim_transfer_to_body_def
  by (rule keyed_encodes [of "[''assignee'', ''note'']"])
    (auto simp: keyed_simps)

lemma claim_transfer_parse_built:
  "\<lbrakk>claim_transfer_valid x; r_refs r = claim_transfer_refs x; r_body r = into_canonical (claim_transfer_to_body x)\<rbrakk>
   \<Longrightarrow> claim_transfer_parse r = Inr x"
  using claim_transfer_encodes [of x]
  by (auto simp: claim_transfer_parse_def claim_transfer_valid_def claim_transfer_to_body_def claim_transfer_refs_def built_simps)

lemma claim_transfer_parse_valid: "\<lbrakk>claim_transfer_parse r = Inr x; wf_record r\<rbrakk> \<Longrightarrow> claim_transfer_valid x"
  by (auto simp: claim_transfer_parse_def claim_transfer_valid_def parsed_simps)

lemma claim_transfer_parse_refs: "claim_transfer_parse r = Inr x \<Longrightarrow> r_refs r = claim_transfer_refs x"
  by (auto simp: claim_transfer_parse_def claim_transfer_refs_def parsed_simps length_Suc_conv)

interpretation claim_transfer: kind_wrapper claim_transfer_parse claim_transfer_to_body "claim_transfer_refs" claim_transfer_valid
  by unfold_locales
    (simp add: claim_transfer_to_body_def, (blast intro: claim_transfer_encodes claim_transfer_parse_built claim_transfer_parse_valid
      claim_transfer_parse_refs)+)

section \<open>claim.dispute\<close>

record claim_dispute =
  cd_target :: record_id
  cd_statement :: bytes
  cd_evidence :: "blob_id list"

definition claim_dispute_parse :: "erecord \<Rightarrow> error + claim_dispute" where
  "claim_dispute_parse record =
     and_then (refs_exact record 1 ''claim.dispute: refs must be exactly one target ref'') (\<lambda>_.
     and_then (ref_record_id (r_refs record ! 0) ''claim.dispute: ref must be a record ref'') (\<lambda>target.
     let body = r_body record in
     and_then (required_nonempty_text body ''statement'' usize_max ''claim.dispute: statement required'') (\<lambda>statement.
     and_then (blob_id_array body ''evidence'' ''claim.dispute: evidence must be an array of blob ids'') (\<lambda>evidence.
     Inr \<lparr> cd_target = target, cd_statement = statement, cd_evidence = evidence \<rparr>))))"

definition claim_dispute_to_body :: "claim_dispute \<Rightarrow> val" where
  "claim_dispute_to_body x =
     Map ([entry ''statement'' (Text (cd_statement x))]
          @ list_entry ''evidence'' (\<lambda>b. Bytes (blob_id_bytes b)) (cd_evidence x))"

definition claim_dispute_refs :: "claim_dispute \<Rightarrow> eref list" where
  "claim_dispute_refs x = [ref_record (cd_target x)]"

definition claim_dispute_valid :: "claim_dispute \<Rightarrow> bool" where
  "claim_dispute_valid x \<longleftrightarrow>
     cd_statement x \<noteq> [] \<and> fits usize_max (cd_statement x)
     \<and> list_all (\<lambda>b. length (blob_id_bytes b) = 32) (cd_evidence x)"

lemma claim_dispute_encodes: "is_ok (encode_canonical (claim_dispute_to_body x))"
  unfolding claim_dispute_to_body_def
  by (rule keyed_encodes [of "[''statement'', ''evidence'']"])
    (auto simp: keyed_simps)

lemma claim_dispute_parse_built:
  "\<lbrakk>claim_dispute_valid x; r_refs r = claim_dispute_refs x; r_body r = into_canonical (claim_dispute_to_body x)\<rbrakk>
   \<Longrightarrow> claim_dispute_parse r = Inr x"
  using claim_dispute_encodes [of x]
  by (auto simp: claim_dispute_parse_def claim_dispute_valid_def claim_dispute_to_body_def claim_dispute_refs_def built_simps)

lemma claim_dispute_parse_valid: "\<lbrakk>claim_dispute_parse r = Inr x; wf_record r\<rbrakk> \<Longrightarrow> claim_dispute_valid x"
  by (auto simp: claim_dispute_parse_def claim_dispute_valid_def parsed_simps)

lemma claim_dispute_parse_refs: "claim_dispute_parse r = Inr x \<Longrightarrow> r_refs r = claim_dispute_refs x"
  by (auto simp: claim_dispute_parse_def claim_dispute_refs_def parsed_simps length_Suc_conv)

interpretation claim_dispute: kind_wrapper claim_dispute_parse claim_dispute_to_body "claim_dispute_refs" claim_dispute_valid
  by unfold_locales
    (simp add: claim_dispute_to_body_def, (blast intro: claim_dispute_encodes claim_dispute_parse_built claim_dispute_parse_valid
      claim_dispute_parse_refs)+)

definition check_dispute_target_kind :: "u64 \<Rightarrow> error + unit" where
  "check_dispute_target_kind target_kind =
     (if target_kind = KIND_CLAIM_AUTHOR \<or> target_kind = KIND_CLAIM_LICENSE
         \<or> target_kind = KIND_CLAIM_TRANSFER \<or> target_kind = KIND_NOTICE_TAKEDOWN
         \<or> target_kind = KIND_NOTICE_COUNTER
      then Inr ()
      else Inl (Kind ''claim.dispute: target must be a claim or notice record''))"

end
