(* ===== verification/KindsCompliance.thy ===== *)
theory KindsCompliance
  imports KindsBase
begin

text \<open>
  The compliance kinds (\<open>crates/evermesh-kernel/src/kinds/compliance.rs\<close>): \<open>notice.takedown\<close> and
  \<open>notice.counter\<close> with their claimant, and the takedown feed \<open>feed.takedown\<close> with its entries.
\<close>

section \<open>The claimant of a notice\<close>

record claimant =
  cm_name :: bytes
  cm_contact :: bytes
  cm_on_behalf_of :: "bytes option"

definition claimant_to_value :: "claimant \<Rightarrow> val" where
  "claimant_to_value x =
     Map ([entry ''name'' (Text (cm_name x)), entry ''contact'' (Text (cm_contact x))]
          @ opt_entry ''on_behalf_of'' Text (cm_on_behalf_of x))"

definition claimant_parse :: "val \<Rightarrow> error + claimant" where
  "claimant_parse v =
     and_then (required_nonempty_text v ''name'' usize_max ''claimant: name required'') (\<lambda>name.
     and_then (required_nonempty_text v ''contact'' usize_max ''claimant: contact required'') (\<lambda>contact.
     and_then (text_field v ''on_behalf_of'' usize_max ''claimant: on_behalf_of must be text'') (\<lambda>on_behalf_of.
     Inr \<lparr> cm_name = name, cm_contact = contact, cm_on_behalf_of = on_behalf_of \<rparr>)))"

definition claimant_valid :: "claimant \<Rightarrow> bool" where
  "claimant_valid x \<longleftrightarrow>
     cm_name x \<noteq> [] \<and> fits usize_max (cm_name x) \<and> cm_contact x \<noteq> [] \<and> fits usize_max (cm_contact x)
     \<and> pred_option (fits usize_max) (cm_on_behalf_of x)"

lemma claimant_encodes [simp]: "is_ok (encode_canonical (claimant_to_value x))"
  unfolding claimant_to_value_def
  by (rule keyed_encodes [of "[''name'', ''contact'', ''on_behalf_of'']"]) (auto simp: keyed_simps)

lemma claimant_built [simp]:
  "claimant_valid x \<Longrightarrow> claimant_parse (into_canonical (claimant_to_value x)) = Inr x"
  using claimant_encodes [of x]
  by (auto simp: claimant_parse_def claimant_to_value_def claimant_valid_def built_simps)

lemma claimant_parse_valid: "claimant_parse v = Inr x \<Longrightarrow> claimant_valid x"
  by (auto simp: claimant_parse_def claimant_valid_def parsed_simps)

section \<open>notice.takedown\<close>

record notice_takedown =
  nt_subjects :: "eref list"
  nt_regime :: bytes
  nt_claimant :: claimant
  nt_statement :: bytes
  nt_work :: bytes
  nt_signature_name :: bytes

definition notice_takedown_parse :: "erecord \<Rightarrow> error + notice_takedown" where
  "notice_takedown_parse record =
     and_then (refs_min record 1 ''notice.takedown: at least one subject ref required'') (\<lambda>_.
     let subjects = r_refs record; body = r_body record in
     and_then (required_nonempty_text body ''regime'' usize_max ''notice.takedown: regime required'') (\<lambda>regime.
     and_then (ok_or (field body ''claimant'') (Kind ''notice.takedown: claimant required'')) (\<lambda>claimant_v.
     and_then (claimant_parse claimant_v) (\<lambda>claimant.
     and_then (required_nonempty_text body ''statement'' usize_max ''notice.takedown: statement required'') (\<lambda>statement.
     and_then (required_nonempty_text body ''work'' usize_max ''notice.takedown: work required'') (\<lambda>work.
     and_then (required_nonempty_text body ''signature_name'' usize_max
                 ''notice.takedown: signature_name required'') (\<lambda>signature_name.
     Inr \<lparr> nt_subjects = subjects, nt_regime = regime, nt_claimant = claimant, nt_statement = statement,
           nt_work = work, nt_signature_name = signature_name \<rparr>)))))))"

definition notice_takedown_to_body :: "notice_takedown \<Rightarrow> val" where
  "notice_takedown_to_body x =
     Map [entry ''regime'' (Text (nt_regime x)), entry ''claimant'' (claimant_to_value (nt_claimant x)),
          entry ''statement'' (Text (nt_statement x)), entry ''work'' (Text (nt_work x)),
          entry ''signature_name'' (Text (nt_signature_name x))]"

definition notice_takedown_refs :: "notice_takedown \<Rightarrow> eref list" where
  "notice_takedown_refs x = nt_subjects x"

definition notice_takedown_valid :: "notice_takedown \<Rightarrow> bool" where
  "notice_takedown_valid x \<longleftrightarrow>
     nt_subjects x \<noteq> [] \<and> claimant_valid (nt_claimant x)
     \<and> list_all (\<lambda>s. s \<noteq> [] \<and> fits usize_max s)
         [nt_regime x, nt_statement x, nt_work x, nt_signature_name x]"

lemma notice_takedown_encodes: "is_ok (encode_canonical (notice_takedown_to_body x))"
  unfolding notice_takedown_to_body_def
  by (rule keyed_encodes [of "[''regime'', ''claimant'', ''statement'', ''work'', ''signature_name'']"])
    (auto simp: keyed_simps)

lemma notice_takedown_parse_built:
  "\<lbrakk>notice_takedown_valid x; r_refs r = notice_takedown_refs x; r_body r = into_canonical (notice_takedown_to_body x)\<rbrakk>
   \<Longrightarrow> notice_takedown_parse r = Inr x"
  using notice_takedown_encodes [of x]
  by (auto simp: notice_takedown_parse_def notice_takedown_valid_def notice_takedown_to_body_def notice_takedown_refs_def built_simps Suc_le_eq)

lemma notice_takedown_parse_valid: "\<lbrakk>notice_takedown_parse r = Inr x; wf_record r\<rbrakk> \<Longrightarrow> notice_takedown_valid x"
  by (auto simp: notice_takedown_parse_def notice_takedown_valid_def parsed_simps Suc_le_eq dest!: claimant_parse_valid)

lemma notice_takedown_parse_refs: "notice_takedown_parse r = Inr x \<Longrightarrow> r_refs r = notice_takedown_refs x"
  by (auto simp: notice_takedown_parse_def notice_takedown_refs_def parsed_simps length_Suc_conv)

interpretation notice_takedown: kind_wrapper notice_takedown_parse notice_takedown_to_body "notice_takedown_refs" notice_takedown_valid
  by unfold_locales
    (simp add: notice_takedown_to_body_def, (blast intro: notice_takedown_encodes notice_takedown_parse_built notice_takedown_parse_valid
      notice_takedown_parse_refs)+)

section \<open>notice.counter\<close>

record notice_counter =
  nc_target :: record_id
  nc_regime :: bytes
  nc_claimant :: claimant
  nc_statement :: bytes
  nc_work :: "bytes option"
  nc_signature_name :: bytes

definition notice_counter_parse :: "erecord \<Rightarrow> error + notice_counter" where
  "notice_counter_parse record =
     and_then (refs_exact record 1 ''notice.counter: refs must be exactly one target ref'') (\<lambda>_.
     and_then (ref_record_id (r_refs record ! 0) ''notice.counter: ref must be a record ref'') (\<lambda>target.
     let body = r_body record in
     and_then (required_nonempty_text body ''regime'' usize_max ''notice.counter: regime required'') (\<lambda>regime.
     and_then (ok_or (field body ''claimant'') (Kind ''notice.counter: claimant required'')) (\<lambda>claimant_v.
     and_then (claimant_parse claimant_v) (\<lambda>claimant.
     and_then (required_nonempty_text body ''statement'' usize_max ''notice.counter: statement required'') (\<lambda>statement.
     and_then (text_field body ''work'' usize_max ''notice.counter: work must be text'') (\<lambda>work.
     and_then (required_nonempty_text body ''signature_name'' usize_max
                 ''notice.counter: signature_name required'') (\<lambda>signature_name.
     Inr \<lparr> nc_target = target, nc_regime = regime, nc_claimant = claimant, nc_statement = statement,
           nc_work = work, nc_signature_name = signature_name \<rparr>))))))))"

definition notice_counter_to_body :: "notice_counter \<Rightarrow> val" where
  "notice_counter_to_body x =
     Map ([entry ''regime'' (Text (nc_regime x)), entry ''claimant'' (claimant_to_value (nc_claimant x)),
           entry ''statement'' (Text (nc_statement x)), entry ''signature_name'' (Text (nc_signature_name x))]
          @ opt_entry ''work'' Text (nc_work x))"

definition notice_counter_refs :: "notice_counter \<Rightarrow> eref list" where
  "notice_counter_refs x = [ref_record (nc_target x)]"

definition notice_counter_valid :: "notice_counter \<Rightarrow> bool" where
  "notice_counter_valid x \<longleftrightarrow>
     claimant_valid (nc_claimant x) \<and> pred_option (fits usize_max) (nc_work x)
     \<and> list_all (\<lambda>s. s \<noteq> [] \<and> fits usize_max s) [nc_regime x, nc_statement x, nc_signature_name x]"

lemma notice_counter_encodes: "is_ok (encode_canonical (notice_counter_to_body x))"
  unfolding notice_counter_to_body_def
  by (rule keyed_encodes [of "[''regime'', ''claimant'', ''statement'', ''signature_name'', ''work'']"])
    (auto simp: keyed_simps)

lemma notice_counter_parse_built:
  "\<lbrakk>notice_counter_valid x; r_refs r = notice_counter_refs x; r_body r = into_canonical (notice_counter_to_body x)\<rbrakk>
   \<Longrightarrow> notice_counter_parse r = Inr x"
  using notice_counter_encodes [of x]
  by (auto simp: notice_counter_parse_def notice_counter_valid_def notice_counter_to_body_def notice_counter_refs_def built_simps)

lemma notice_counter_parse_valid: "\<lbrakk>notice_counter_parse r = Inr x; wf_record r\<rbrakk> \<Longrightarrow> notice_counter_valid x"
  by (auto simp: notice_counter_parse_def notice_counter_valid_def parsed_simps dest!: claimant_parse_valid)

lemma notice_counter_parse_refs: "notice_counter_parse r = Inr x \<Longrightarrow> r_refs r = notice_counter_refs x"
  by (auto simp: notice_counter_parse_def notice_counter_refs_def parsed_simps length_Suc_conv)

interpretation notice_counter: kind_wrapper notice_counter_parse notice_counter_to_body "notice_counter_refs" notice_counter_valid
  by unfold_locales
    (simp add: notice_counter_to_body_def, (blast intro: notice_counter_encodes notice_counter_parse_built notice_counter_parse_valid
      notice_counter_parse_refs)+)

section \<open>feed.takedown\<close>

record feed_entry =
  fe_ref_type :: u64
  fe_hash :: bytes
  fe_reason :: bytes
  fe_notice :: "record_id option"

definition feed_entry_to_value :: "feed_entry \<Rightarrow> val" where
  "feed_entry_to_value x =
     Array ([Uint (fe_ref_type x), Bytes (fe_hash x), Text (fe_reason x)]
            @ (case fe_notice x of Some n \<Rightarrow> [Bytes (record_id_bytes n)] | None \<Rightarrow> []))"

definition feed_entry_parse :: "val \<Rightarrow> error + feed_entry" where
  "feed_entry_parse v =
     and_then (ok_or (as_array v) (Kind ''feed.takedown: add entry must be an array'')) (\<lambda>arr.
     if length arr < 3 \<or> 4 < length arr
     then Inl (Kind ''feed.takedown: add entry must be [ref_type, hash, reason, notice?]'')
     else
       and_then (ok_or (as_u64 (arr ! 0)) (Kind ''feed.takedown: entry ref_type must be a uint'')) (\<lambda>ref_type.
       if 1 < ref_type then Inl (Kind ''feed.takedown: entry ref_type must be 0 or 1'')
       else
         and_then (ok_or (as_bytes (arr ! 1)) (Kind ''feed.takedown: entry hash must be bytes'')) (\<lambda>hash_bytes.
         and_then (to_array32 hash_bytes (Kind ''feed.takedown: entry hash must be 32 bytes'')) (\<lambda>hash.
         and_then (ok_or (as_text (arr ! 2)) (Kind ''feed.takedown: entry reason must be text'')) (\<lambda>reason.
         and_then
           (if length arr \<le> 3 then Inr None
            else case arr ! 3 of
              Null \<Rightarrow> Inr None
            | v \<Rightarrow>
                and_then (ok_or (as_bytes v) (Kind ''feed.takedown: entry notice must be bytes'')) (\<lambda>b.
                and_then (to_array32 b (Kind ''feed.takedown: entry notice must be 32 bytes'')) (\<lambda>a.
                Inr (Some (RecordId a)))))
           (\<lambda>notice.
         Inr \<lparr> fe_ref_type = ref_type, fe_hash = hash, fe_reason = reason, fe_notice = notice \<rparr>))))))"

definition feed_entry_valid :: "feed_entry \<Rightarrow> bool" where
  "feed_entry_valid x \<longleftrightarrow>
     fe_ref_type x \<le> 1 \<and> length (fe_hash x) = 32
     \<and> pred_option (\<lambda>n. length (record_id_bytes n) = 32) (fe_notice x)"

lemma feed_entry_built [simp]:
  "feed_entry_valid x \<Longrightarrow> feed_entry_parse (into_canonical (feed_entry_to_value x)) = Inr x"
  by (cases "fe_notice x")
    (simp_all add: feed_entry_parse_def feed_entry_to_value_def feed_entry_valid_def to_array32_def not_less)

lemma feed_entry_parse_valid: "feed_entry_parse v = Inr x \<Longrightarrow> feed_entry_valid x"
  by (auto simp: feed_entry_parse_def feed_entry_valid_def parsed_simps not_less split: if_splits val.splits)

lemma feed_entry_items_valid: "try_map feed_entry_parse vs = Inr xs \<Longrightarrow> list_all feed_entry_valid xs"
  by (rule try_map_valid) (auto dest: feed_entry_parse_valid)

lemma feed_entry_encodes [simp]: "is_ok (encode_canonical (feed_entry_to_value x))"
  by (cases "fe_notice x") (simp_all add: feed_entry_to_value_def)

record feed_remove_entry =
  fr_ref_type :: u64
  fr_hash :: bytes

definition feed_remove_entry_to_value :: "feed_remove_entry \<Rightarrow> val" where
  "feed_remove_entry_to_value x = Array [Uint (fr_ref_type x), Bytes (fr_hash x)]"

definition feed_remove_entry_parse :: "val \<Rightarrow> error + feed_remove_entry" where
  "feed_remove_entry_parse v =
     and_then (ok_or (as_array v) (Kind ''feed.takedown: remove entry must be an array'')) (\<lambda>arr.
     if length arr \<noteq> 2 then Inl (Kind ''feed.takedown: remove entry must be [ref_type, hash]'')
     else
       and_then (ok_or (as_u64 (arr ! 0)) (Kind ''feed.takedown: entry ref_type must be a uint'')) (\<lambda>ref_type.
       if 1 < ref_type then Inl (Kind ''feed.takedown: entry ref_type must be 0 or 1'')
       else
         and_then (ok_or (as_bytes (arr ! 1)) (Kind ''feed.takedown: entry hash must be bytes'')) (\<lambda>hash_bytes.
         and_then (to_array32 hash_bytes (Kind ''feed.takedown: entry hash must be 32 bytes'')) (\<lambda>hash.
         Inr \<lparr> fr_ref_type = ref_type, fr_hash = hash \<rparr>))))"

definition feed_remove_entry_valid :: "feed_remove_entry \<Rightarrow> bool" where
  "feed_remove_entry_valid x \<longleftrightarrow> fr_ref_type x \<le> 1 \<and> length (fr_hash x) = 32"

lemma feed_remove_entry_built [simp]:
  "feed_remove_entry_valid x \<Longrightarrow> feed_remove_entry_parse (into_canonical (feed_remove_entry_to_value x)) = Inr x"
  by (simp add: feed_remove_entry_parse_def feed_remove_entry_to_value_def feed_remove_entry_valid_def
      to_array32_def not_less)

lemma feed_remove_entry_parse_valid: "feed_remove_entry_parse v = Inr x \<Longrightarrow> feed_remove_entry_valid x"
  by (auto simp: feed_remove_entry_parse_def feed_remove_entry_valid_def parsed_simps not_less)

lemma feed_remove_entry_items_valid: "try_map feed_remove_entry_parse vs = Inr xs \<Longrightarrow> list_all feed_remove_entry_valid xs"
  by (rule try_map_valid) (auto dest: feed_remove_entry_parse_valid)

lemma feed_remove_entry_encodes [simp]: "is_ok (encode_canonical (feed_remove_entry_to_value x))"
  by (simp add: feed_remove_entry_to_value_def)

record feed_takedown =
  ft_feed :: bytes
  ft_seq :: u64
  ft_add :: "feed_entry list"
  ft_remove :: "feed_remove_entry list"

definition feed_takedown_parse :: "erecord \<Rightarrow> error + feed_takedown" where
  "feed_takedown_parse record =
     and_then (refs_empty record ''feed.takedown: refs must be empty'') (\<lambda>_.
     let body = r_body record in
     and_then (required_nonempty_text body ''feed'' usize_max ''feed.takedown: feed required'') (\<lambda>feed.
     and_then (required_u64 body ''seq'' ''feed.takedown: seq required'') (\<lambda>seq.
     and_then (required_array body ''add'' ''feed.takedown: add required (may be empty)'') (\<lambda>add_v.
     and_then (try_map feed_entry_parse add_v) (\<lambda>add.
     and_then (required_array body ''remove'' ''feed.takedown: remove required (may be empty)'') (\<lambda>remove_v.
     and_then (try_map feed_remove_entry_parse remove_v) (\<lambda>remove.
     Inr \<lparr> ft_feed = feed, ft_seq = seq, ft_add = add, ft_remove = remove \<rparr>)))))))"

definition feed_takedown_to_body :: "feed_takedown \<Rightarrow> val" where
  "feed_takedown_to_body x =
     Map [entry ''feed'' (Text (ft_feed x)), entry ''seq'' (Uint (ft_seq x)),
          entry ''add'' (Array (map feed_entry_to_value (ft_add x))),
          entry ''remove'' (Array (map feed_remove_entry_to_value (ft_remove x)))]"

definition feed_takedown_valid :: "feed_takedown \<Rightarrow> bool" where
  "feed_takedown_valid x \<longleftrightarrow>
     ft_feed x \<noteq> [] \<and> fits usize_max (ft_feed x)
     \<and> list_all feed_entry_valid (ft_add x) \<and> list_all feed_remove_entry_valid (ft_remove x)"

lemma feed_takedown_encodes: "is_ok (encode_canonical (feed_takedown_to_body x))"
  unfolding feed_takedown_to_body_def
  by (rule keyed_encodes [of "[''feed'', ''seq'', ''add'', ''remove'']"])
    (auto simp: keyed_simps)

lemma feed_takedown_parse_built:
  "\<lbrakk>feed_takedown_valid x; r_refs r = []; r_body r = into_canonical (feed_takedown_to_body x)\<rbrakk>
   \<Longrightarrow> feed_takedown_parse r = Inr x"
  using feed_takedown_encodes [of x]
  by (auto simp: feed_takedown_parse_def feed_takedown_valid_def feed_takedown_to_body_def built_simps list_all_iff)

lemma feed_takedown_parse_valid: "\<lbrakk>feed_takedown_parse r = Inr x; wf_record r\<rbrakk> \<Longrightarrow> feed_takedown_valid x"
  by (auto simp: feed_takedown_parse_def feed_takedown_valid_def parsed_simps
      dest!: feed_entry_items_valid feed_remove_entry_items_valid)

lemma feed_takedown_parse_refs: "feed_takedown_parse r = Inr x \<Longrightarrow> r_refs r = []"
  by (auto simp: feed_takedown_parse_def parsed_simps length_Suc_conv)

interpretation feed_takedown: kind_wrapper feed_takedown_parse feed_takedown_to_body "\<lambda>_. []" feed_takedown_valid
  by unfold_locales
    (simp add: feed_takedown_to_body_def, (blast intro: feed_takedown_encodes feed_takedown_parse_built feed_takedown_parse_valid
      feed_takedown_parse_refs)+)

end
