(* ===== verification/KindsTrust.thy ===== *)
theory KindsTrust
  imports KindsBase
begin

text \<open>
  The trust and economics kinds (\<open>crates/evermesh-kernel/src/kinds/trust.rs\<close>): \<open>endorse.gateway\<close>,
  \<open>receipt\<close> and \<open>attest\<close>, each with its parser, its body and refs, the rules a parsed value obeys,
  and its interpretation as a kind wrapper.
\<close>

section \<open>endorse.gateway\<close>

definition is_https_origin :: "bytes \<Rightarrow> bool" where
  "is_https_origin url \<longleftrightarrow>
     take (length (str ''https://'')) url = str ''https://'' \<and> length (str ''https://'') < length url"

lemma is_https_origin_nonempty: "is_https_origin url \<Longrightarrow> url \<noteq> []"
  by (auto simp: is_https_origin_def)

record endorse_gateway =
  eg_url :: bytes
  eg_note :: "bytes option"

definition endorse_gateway_parse :: "erecord \<Rightarrow> error + endorse_gateway" where
  "endorse_gateway_parse record =
     and_then (refs_empty record ''endorse.gateway: refs must be empty'') (\<lambda>_.
     let body = r_body record in
     and_then (required_nonempty_text body ''url'' usize_max ''endorse.gateway: url required'') (\<lambda>url.
     if \<not> is_https_origin url then Inl (Kind ''endorse.gateway: url must be an https origin'')
     else
       and_then (text_field body ''note'' usize_max ''endorse.gateway: note must be text'') (\<lambda>note.
       Inr \<lparr> eg_url = url, eg_note = note \<rparr>)))"

definition endorse_gateway_to_body :: "endorse_gateway \<Rightarrow> val" where
  "endorse_gateway_to_body x =
     Map ([entry ''url'' (Text (eg_url x))] @ opt_entry ''note'' Text (eg_note x))"

definition endorse_gateway_valid :: "endorse_gateway \<Rightarrow> bool" where
  "endorse_gateway_valid x \<longleftrightarrow>
     is_https_origin (eg_url x) \<and> fits usize_max (eg_url x) \<and> pred_option (fits usize_max) (eg_note x)"

lemma endorse_gateway_encodes: "is_ok (encode_canonical (endorse_gateway_to_body x))"
  unfolding endorse_gateway_to_body_def
  by (rule keyed_encodes [of "[''url'', ''note'']"]) (auto simp: keyed_simps)

lemma endorse_gateway_parse_built:
  "\<lbrakk>endorse_gateway_valid x; r_refs r = []; r_body r = into_canonical (endorse_gateway_to_body x)\<rbrakk> \<Longrightarrow> endorse_gateway_parse r = Inr x"
  using endorse_gateway_encodes [of x]
  by (auto simp: endorse_gateway_parse_def endorse_gateway_valid_def endorse_gateway_to_body_def
        is_https_origin_nonempty built_simps)

lemma endorse_gateway_parse_valid: "\<lbrakk>endorse_gateway_parse r = Inr x; wf_record r\<rbrakk> \<Longrightarrow> endorse_gateway_valid x"
  by (auto simp: endorse_gateway_parse_def endorse_gateway_valid_def parsed_simps)

lemma endorse_gateway_parse_refs: "endorse_gateway_parse r = Inr x \<Longrightarrow> r_refs r = []"
  by (auto simp: endorse_gateway_parse_def parsed_simps length_Suc_conv)

interpretation endorse_gateway: kind_wrapper endorse_gateway_parse endorse_gateway_to_body
  "\<lambda>_. []" endorse_gateway_valid
  by unfold_locales (simp add: endorse_gateway_to_body_def, (blast intro: endorse_gateway_encodes endorse_gateway_parse_built endorse_gateway_parse_valid
      endorse_gateway_parse_refs)+)

section \<open>receipt\<close>

record receipt =
  rc_subject :: record_id
  rc_amount :: u64
  rc_currency :: bytes
  rc_rail :: u64
  rc_payee :: identity_id
  rc_proof :: "bytes option"
  rc_message :: "bytes option"

definition receipt_parse :: "erecord \<Rightarrow> error + receipt" where
  "receipt_parse record =
     and_then (refs_exact record 1 ''receipt: refs must be exactly one subject ref'') (\<lambda>_.
     and_then (ref_record_id (r_refs record ! 0) ''receipt: ref must be a record ref'') (\<lambda>subject.
     let body = r_body record in
     and_then (required_u64 body ''amount'' ''receipt: amount required'') (\<lambda>amount.
     if amount = 0 then Inl (Kind ''receipt: amount must be > 0'')
     else
       and_then (required_nonempty_text body ''currency'' usize_max ''receipt: currency required'') (\<lambda>currency.
       and_then (required_u64 body ''rail'' ''receipt: rail required'') (\<lambda>rail.
       and_then (required_identity_id body ''payee'' ''receipt: payee required (32 bytes)'') (\<lambda>payee.
       and_then (text_field body ''proof'' usize_max ''receipt: proof must be text'') (\<lambda>prf.
       and_then (text_field body ''message'' usize_max ''receipt: message must be text'') (\<lambda>message.
       Inr \<lparr> rc_subject = subject, rc_amount = amount, rc_currency = currency, rc_rail = rail,
             rc_payee = payee, rc_proof = prf, rc_message = message \<rparr>))))))))"

definition receipt_to_body :: "receipt \<Rightarrow> val" where
  "receipt_to_body x =
     Map ([entry ''amount'' (Uint (rc_amount x)), entry ''currency'' (Text (rc_currency x)),
           entry ''rail'' (Uint (rc_rail x)), entry ''payee'' (Bytes (identity_id_bytes (rc_payee x)))]
          @ opt_entry ''proof'' Text (rc_proof x) @ opt_entry ''message'' Text (rc_message x))"

definition receipt_refs :: "receipt \<Rightarrow> eref list" where
  "receipt_refs x = [ref_record (rc_subject x)]"

definition receipt_valid :: "receipt \<Rightarrow> bool" where
  "receipt_valid x \<longleftrightarrow>
     0 < rc_amount x \<and> rc_currency x \<noteq> [] \<and> fits usize_max (rc_currency x)
     \<and> length (identity_id_bytes (rc_payee x)) = 32
     \<and> pred_option (fits usize_max) (rc_proof x) \<and> pred_option (fits usize_max) (rc_message x)"

lemma receipt_encodes: "is_ok (encode_canonical (receipt_to_body x))"
  unfolding receipt_to_body_def
  by (rule keyed_encodes [of "[''amount'', ''currency'', ''rail'', ''payee'', ''proof'', ''message'']"])
    (auto simp: keyed_simps)

lemma receipt_parse_built:
  "\<lbrakk>receipt_valid x; r_refs r = receipt_refs x; r_body r = into_canonical (receipt_to_body x)\<rbrakk> \<Longrightarrow> receipt_parse r = Inr x"
  using receipt_encodes [of x]
  by (auto simp: receipt_parse_def receipt_valid_def receipt_to_body_def receipt_refs_def built_simps)

lemma receipt_parse_valid: "\<lbrakk>receipt_parse r = Inr x; wf_record r\<rbrakk> \<Longrightarrow> receipt_valid x"
  by (auto simp: receipt_parse_def receipt_valid_def parsed_simps word_gt_0)

lemma receipt_parse_refs: "receipt_parse r = Inr x \<Longrightarrow> r_refs r = receipt_refs x"
  by (auto simp: receipt_parse_def receipt_refs_def parsed_simps length_Suc_conv)

interpretation receipt: kind_wrapper receipt_parse receipt_to_body receipt_refs receipt_valid
  by unfold_locales (simp add: receipt_to_body_def, (blast intro: receipt_encodes receipt_parse_built receipt_parse_valid
      receipt_parse_refs)+)

section \<open>attest\<close>

record attest =
  at_subject :: record_id
  at_statement :: bytes
  at_data :: "val option"

definition attest_parse :: "erecord \<Rightarrow> error + attest" where
  "attest_parse record =
     and_then (refs_exact record 1 ''attest: refs must be exactly one subject ref'') (\<lambda>_.
     and_then (ref_record_id (r_refs record ! 0) ''attest: ref must be a record ref'') (\<lambda>subject.
     let body = r_body record in
     and_then (required_nonempty_text body ''statement'' usize_max ''attest: statement required'') (\<lambda>statement.
     and_then (case field body ''data'' of
                 None \<Rightarrow> Inr None
               | Some v \<Rightarrow> if as_map v = None then Inl (Kind ''attest: data must be a map'') else Inr (Some v)) (\<lambda>data.
     Inr \<lparr> at_subject = subject, at_statement = statement, at_data = data \<rparr>))))"

definition attest_to_body :: "attest \<Rightarrow> val" where
  "attest_to_body x = Map ([entry ''statement'' (Text (at_statement x))] @ opt_entry ''data'' id (at_data x))"

definition attest_refs :: "attest \<Rightarrow> eref list" where
  "attest_refs x = [ref_record (at_subject x)]"

definition attest_valid :: "attest \<Rightarrow> bool" where
  "attest_valid x \<longleftrightarrow>
     at_statement x \<noteq> [] \<and> fits usize_max (at_statement x)
     \<and> pred_option (\<lambda>v. as_map v \<noteq> None \<and> canonical v) (at_data x)"

lemma attest_encodes: "attest_valid x \<Longrightarrow> is_ok (encode_canonical (attest_to_body x))"
  unfolding attest_to_body_def
  by (rule keyed_encodes [of "[''statement'', ''data'']"])
    (auto simp: keyed_simps attest_valid_def canonical_is_ok)

lemma attest_parse_built:
  "\<lbrakk>attest_valid x; r_refs r = attest_refs x; r_body r = into_canonical (attest_to_body x)\<rbrakk> \<Longrightarrow> attest_parse r = Inr x"
  using attest_encodes [of x]
  by (cases "at_data x") (auto simp: attest_parse_def attest_valid_def attest_to_body_def attest_refs_def
        built_simps into_canonical_id)

lemma attest_parse_valid: "\<lbrakk>attest_parse r = Inr x; wf_record r\<rbrakk> \<Longrightarrow> attest_valid x"
  by (auto simp: attest_parse_def attest_valid_def parsed_simps split: option.splits
      dest: wf_record_field)

lemma attest_parse_refs: "attest_parse r = Inr x \<Longrightarrow> r_refs r = attest_refs x"
  by (auto simp: attest_parse_def attest_refs_def parsed_simps length_Suc_conv split: option.splits)

interpretation attest: kind_wrapper attest_parse attest_to_body attest_refs attest_valid
  by unfold_locales (simp add: attest_to_body_def, (blast intro: attest_encodes attest_parse_built attest_parse_valid
      attest_parse_refs)+)

end
