(* ===== verification/KindsInfra.thy ===== *)
theory KindsInfra
  imports KindsBase
begin

text \<open>
  The infrastructure and privacy kinds (\<open>crates/evermesh-kernel/src/kinds/infra.rs\<close>): \<open>anchor\<close> with its
  proof, inline or by reference, and \<open>keygrant\<close>.
\<close>

section \<open>anchor\<close>

definition MAX_INLINE_PROOF :: nat where
  "MAX_INLINE_PROOF = 4096"

datatype anchor_proof = ProofInline bytes | ProofBlob blob_id

definition anchor_proof_to_bytes :: "anchor_proof \<Rightarrow> bytes" where
  "anchor_proof_to_bytes p = (case p of ProofInline b \<Rightarrow> b | ProofBlob i \<Rightarrow> blob_id_bytes i)"

definition anchor_proof_parse :: "bytes \<Rightarrow> error + anchor_proof" where
  "anchor_proof_parse raw =
     (if length raw = 32 then Inr (ProofBlob (BlobId raw))
      else if length raw \<le> MAX_INLINE_PROOF then Inr (ProofInline raw)
      else Inl (Kind ''anchor: proof too large; use a blob reference (32 bytes)''))"

text \<open>An inline proof of 32 bytes would be read back as a blob id.\<close>

definition anchor_proof_valid :: "anchor_proof \<Rightarrow> bool" where
  "anchor_proof_valid p =
     (case p of ProofInline b \<Rightarrow> length b \<noteq> 32 \<and> length b \<le> 4096 | ProofBlob i \<Rightarrow> length (blob_id_bytes i) = 32)"

lemma anchor_proof_parse_iff:
  "anchor_proof_parse raw = Inr p \<longleftrightarrow> raw = anchor_proof_to_bytes p \<and> anchor_proof_valid p"
  by (cases p) (auto simp: anchor_proof_parse_def anchor_proof_to_bytes_def anchor_proof_valid_def
      MAX_INLINE_PROOF_def)

lemma anchor_proof_to_bytes_inj:
  "\<lbrakk>anchor_proof_to_bytes p = anchor_proof_to_bytes q; anchor_proof_valid p; anchor_proof_valid q\<rbrakk> \<Longrightarrow> p = q"
  using anchor_proof_parse_iff by (metis sum.inject(2))

record anchor =
  an_root :: bytes
  an_count :: u64
  an_system :: bytes
  an_proof :: anchor_proof

definition anchor_parse :: "erecord \<Rightarrow> error + anchor" where
  "anchor_parse record =
     and_then (refs_empty record ''anchor: refs must be empty'') (\<lambda>_.
     let body = r_body record in
     and_then (required_bytes32 body ''root'' ''anchor: root required (32 bytes)'') (\<lambda>root.
     and_then (required_u64 body ''count'' ''anchor: count required'') (\<lambda>cnt.
     and_then (required_nonempty_text body ''system'' usize_max ''anchor: system required'') (\<lambda>sys.
     and_then (required_bytes body ''proof'' ''anchor: proof required'') (\<lambda>raw.
     and_then (anchor_proof_parse raw) (\<lambda>prf.
     Inr \<lparr> an_root = root, an_count = cnt, an_system = sys, an_proof = prf \<rparr>))))))"

definition anchor_to_body :: "anchor \<Rightarrow> val" where
  "anchor_to_body x =
     Map [entry ''root'' (Bytes (an_root x)), entry ''count'' (Uint (an_count x)),
          entry ''system'' (Text (an_system x)),
          entry ''proof'' (Bytes (anchor_proof_to_bytes (an_proof x)))]"

definition anchor_valid :: "anchor \<Rightarrow> bool" where
  "anchor_valid x \<longleftrightarrow>
     length (an_root x) = 32 \<and> an_system x \<noteq> [] \<and> fits usize_max (an_system x)
     \<and> anchor_proof_valid (an_proof x)"

lemma anchor_encodes: "is_ok (encode_canonical (anchor_to_body x))"
  unfolding anchor_to_body_def
  by (rule keyed_encodes [of "[''root'', ''count'', ''system'', ''proof'']"])
    (auto simp: keyed_simps)

lemma anchor_parse_built:
  "\<lbrakk>anchor_valid x; r_refs r = []; r_body r = into_canonical (anchor_to_body x)\<rbrakk>
   \<Longrightarrow> anchor_parse r = Inr x"
  using anchor_encodes [of x]
  by (auto simp: anchor_parse_def anchor_valid_def anchor_to_body_def built_simps anchor_proof_parse_iff)

lemma anchor_parse_valid: "\<lbrakk>anchor_parse r = Inr x; wf_record r\<rbrakk> \<Longrightarrow> anchor_valid x"
  by (auto simp: anchor_parse_def anchor_valid_def parsed_simps anchor_proof_parse_iff)

lemma anchor_parse_refs: "anchor_parse r = Inr x \<Longrightarrow> r_refs r = []"
  by (auto simp: anchor_parse_def parsed_simps length_Suc_conv)

interpretation anchor: kind_wrapper anchor_parse anchor_to_body "\<lambda>_. []" anchor_valid
  by unfold_locales
    (simp add: anchor_to_body_def, (blast intro: anchor_encodes anchor_parse_built anchor_parse_valid
      anchor_parse_refs)+)

section \<open>keygrant\<close>

record keygrant =
  kg_subject :: record_id
  kg_recipient :: identity_id
  kg_wrap_alg :: u64
  kg_wrapped_key :: bytes
  kg_note :: "bytes option"

definition keygrant_parse :: "erecord \<Rightarrow> error + keygrant" where
  "keygrant_parse record =
     and_then (refs_exact record 1 ''keygrant: refs must be exactly one subject ref'') (\<lambda>_.
     and_then (ref_record_id (r_refs record ! 0) ''keygrant: ref must be a record ref'') (\<lambda>subject.
     let body = r_body record in
     and_then (required_identity_id body ''recipient'' ''keygrant: recipient required (32 bytes)'') (\<lambda>recipient.
     and_then (required_u64 body ''wrap_alg'' ''keygrant: wrap_alg required'') (\<lambda>wrap_alg.
     and_then (required_bytes body ''wrapped_key'' ''keygrant: wrapped_key required'') (\<lambda>wrapped_key.
     and_then (text_field body ''note'' usize_max ''keygrant: note must be text'') (\<lambda>note.
     Inr \<lparr> kg_subject = subject, kg_recipient = recipient, kg_wrap_alg = wrap_alg,
           kg_wrapped_key = wrapped_key, kg_note = note \<rparr>))))))"

definition keygrant_to_body :: "keygrant \<Rightarrow> val" where
  "keygrant_to_body x =
     Map ([entry ''recipient'' (Bytes (identity_id_bytes (kg_recipient x))),
           entry ''wrap_alg'' (Uint (kg_wrap_alg x)), entry ''wrapped_key'' (Bytes (kg_wrapped_key x))]
          @ opt_entry ''note'' Text (kg_note x))"

definition keygrant_refs :: "keygrant \<Rightarrow> eref list" where
  "keygrant_refs x = [ref_record (kg_subject x)]"

definition keygrant_valid :: "keygrant \<Rightarrow> bool" where
  "keygrant_valid x \<longleftrightarrow>
     length (identity_id_bytes (kg_recipient x)) = 32 \<and> pred_option (fits usize_max) (kg_note x)"

lemma keygrant_encodes: "is_ok (encode_canonical (keygrant_to_body x))"
  unfolding keygrant_to_body_def
  by (rule keyed_encodes [of "[''recipient'', ''wrap_alg'', ''wrapped_key'', ''note'']"])
    (auto simp: keyed_simps)

lemma keygrant_parse_built:
  "\<lbrakk>keygrant_valid x; r_refs r = keygrant_refs x; r_body r = into_canonical (keygrant_to_body x)\<rbrakk>
   \<Longrightarrow> keygrant_parse r = Inr x"
  using keygrant_encodes [of x]
  by (auto simp: keygrant_parse_def keygrant_valid_def keygrant_to_body_def keygrant_refs_def built_simps)

lemma keygrant_parse_valid: "\<lbrakk>keygrant_parse r = Inr x; wf_record r\<rbrakk> \<Longrightarrow> keygrant_valid x"
  by (auto simp: keygrant_parse_def keygrant_valid_def parsed_simps)

lemma keygrant_parse_refs: "keygrant_parse r = Inr x \<Longrightarrow> r_refs r = keygrant_refs x"
  by (auto simp: keygrant_parse_def keygrant_refs_def parsed_simps length_Suc_conv)

interpretation keygrant: kind_wrapper keygrant_parse keygrant_to_body "keygrant_refs" keygrant_valid
  by unfold_locales
    (simp add: keygrant_to_body_def, (blast intro: keygrant_encodes keygrant_parse_built keygrant_parse_valid
      keygrant_parse_refs)+)

end
