(* ===== verification/KindsLive.thy ===== *)
theory KindsLive
  imports KindsBase
begin

text \<open>
  The live kinds (\<open>crates/evermesh-kernel/src/kinds/live.rs\<close>): \<open>live.manifest\<close> with its segments, and
  \<open>live.chat\<close>.
\<close>

section \<open>live.manifest\<close>

record live_segment =
  seg_blob :: blob_id
  seg_duration_ms :: u64

definition live_segment_parse :: "val \<Rightarrow> error + live_segment" where
  "live_segment_parse v =
     and_then (ok_or (as_array v) (Kind ''live.manifest: segment must be [blob, duration_ms]'')) (\<lambda>arr.
     if length arr \<noteq> 2 then Inl (Kind ''live.manifest: segment must have exactly 2 elements'')
     else
       and_then (ok_or (as_bytes (arr ! 0)) (Kind ''live.manifest: segment blob must be bytes'')) (\<lambda>blob_bytes.
       and_then (to_array32 blob_bytes (Kind ''live.manifest: segment blob must be 32 bytes'')) (\<lambda>blob.
       and_then (ok_or (as_u64 (arr ! 1)) (Kind ''live.manifest: segment duration_ms must be a uint'')) (\<lambda>duration_ms.
       Inr \<lparr> seg_blob = BlobId blob, seg_duration_ms = duration_ms \<rparr>))))"

definition live_segment_to_value :: "live_segment \<Rightarrow> val" where
  "live_segment_to_value s = Array [Bytes (blob_id_bytes (seg_blob s)), Uint (seg_duration_ms s)]"

definition live_segment_valid :: "live_segment \<Rightarrow> bool" where
  "live_segment_valid s \<longleftrightarrow> length (blob_id_bytes (seg_blob s)) = 32"

lemma live_segment_built [simp]:
  "live_segment_valid s \<Longrightarrow> live_segment_parse (into_canonical (live_segment_to_value s)) = Inr s"
  by (simp add: live_segment_parse_def live_segment_to_value_def live_segment_valid_def to_array32_def)

lemma live_segment_parse_valid: "live_segment_parse v = Inr s \<Longrightarrow> live_segment_valid s"
  by (auto simp: live_segment_parse_def live_segment_valid_def parsed_simps)

lemma live_segment_items_valid: "try_map live_segment_parse vs = Inr xs \<Longrightarrow> list_all live_segment_valid xs"
  by (rule try_map_valid) (auto dest: live_segment_parse_valid)

lemma live_segment_encodes [simp]: "is_ok (encode_canonical (live_segment_to_value s))"
  by (simp add: live_segment_to_value_def)

record live_manifest =
  lm_stream :: "record_id option"
  lm_title :: "bytes option"
  lm_seq :: u64
  lm_segments :: "live_segment list"
  lm_is_final :: bool

definition live_manifest_parse :: "erecord \<Rightarrow> error + live_manifest" where
  "live_manifest_parse record =
     and_then
       (case r_refs record of
          [] \<Rightarrow> Inr None
        | [r] \<Rightarrow> and_then (ref_record_id r ''live.manifest: ref must be a record ref'') (\<lambda>i. Inr (Some i))
        | _ \<Rightarrow> Inl (Kind ''live.manifest: refs must be empty (first record) or exactly one stream ref''))
       (\<lambda>stream.
     let body = r_body record in
     and_then (text_field body ''title'' 512 ''live.manifest: title too long'') (\<lambda>title.
     if stream = None \<and> title = None
     then Inl (Kind ''live.manifest: title required in the first record of a stream'')
     else
       and_then (required_u64 body ''seq'' ''live.manifest: seq required'') (\<lambda>seq.
       and_then (required_array body ''segments'' ''live.manifest: segments required'') (\<lambda>segments_v.
       and_then (try_map live_segment_parse segments_v) (\<lambda>segments.
       and_then (required_bool body ''final'' ''live.manifest: final required'') (\<lambda>is_final.
       Inr \<lparr> lm_stream = stream, lm_title = title, lm_seq = seq, lm_segments = segments,
             lm_is_final = is_final \<rparr>))))))"

definition live_manifest_to_body :: "live_manifest \<Rightarrow> val" where
  "live_manifest_to_body x =
     Map (opt_entry ''title'' Text (lm_title x)
          @ [entry ''seq'' (Uint (lm_seq x)),
             entry ''segments'' (Array (map live_segment_to_value (lm_segments x))),
             entry ''final'' (Bool (lm_is_final x))])"

definition live_manifest_refs :: "live_manifest \<Rightarrow> eref list" where
  "live_manifest_refs x = (case lm_stream x of Some i \<Rightarrow> [ref_record i] | None \<Rightarrow> [])"

definition live_manifest_valid :: "live_manifest \<Rightarrow> bool" where
  "live_manifest_valid x \<longleftrightarrow>
     pred_option (fits 512) (lm_title x) \<and> (lm_stream x = None \<longrightarrow> lm_title x \<noteq> None)
     \<and> list_all live_segment_valid (lm_segments x)"

lemma live_manifest_encodes: "is_ok (encode_canonical (live_manifest_to_body x))"
  unfolding live_manifest_to_body_def
  by (rule keyed_encodes [of "[''title'', ''seq'', ''segments'', ''final'']"])
    (auto simp: keyed_simps)

lemma live_manifest_parse_built:
  "\<lbrakk>live_manifest_valid x; r_refs r = live_manifest_refs x; r_body r = into_canonical (live_manifest_to_body x)\<rbrakk>
   \<Longrightarrow> live_manifest_parse r = Inr x"
  using live_manifest_encodes [of x]
  by (cases "lm_stream x") (auto simp: live_manifest_parse_def live_manifest_valid_def live_manifest_to_body_def live_manifest_refs_def built_simps list_all_iff)

lemma live_manifest_parse_valid: "\<lbrakk>live_manifest_parse r = Inr x; wf_record r\<rbrakk> \<Longrightarrow> live_manifest_valid x"
  by (auto simp: live_manifest_parse_def live_manifest_valid_def parsed_simps list_all_iff split: list.splits dest!: live_segment_items_valid)

lemma live_manifest_parse_refs: "live_manifest_parse r = Inr x \<Longrightarrow> r_refs r = live_manifest_refs x"
  by (auto simp: live_manifest_parse_def live_manifest_refs_def parsed_simps length_Suc_conv split: list.splits)

interpretation live_manifest: kind_wrapper live_manifest_parse live_manifest_to_body "live_manifest_refs" live_manifest_valid
  by unfold_locales
    (simp add: live_manifest_to_body_def, (blast intro: live_manifest_encodes live_manifest_parse_built live_manifest_parse_valid
      live_manifest_parse_refs)+)

section \<open>live.chat\<close>

record live_chat =
  lc_stream :: record_id
  lc_text :: bytes

definition live_chat_parse :: "erecord \<Rightarrow> error + live_chat" where
  "live_chat_parse record =
     and_then (refs_exact record 1 ''live.chat: refs must be exactly one stream ref'') (\<lambda>_.
     and_then (ref_record_id (r_refs record ! 0) ''live.chat: ref must be a record ref'') (\<lambda>stream.
     let body = r_body record in
     and_then (required_nonempty_text body ''text'' 2048 ''live.chat: text required (<=2048 bytes)'') (\<lambda>txt.
     Inr \<lparr> lc_stream = stream, lc_text = txt \<rparr>)))"

definition live_chat_to_body :: "live_chat \<Rightarrow> val" where
  "live_chat_to_body x = Map [entry ''text'' (Text (lc_text x))]"

definition live_chat_refs :: "live_chat \<Rightarrow> eref list" where
  "live_chat_refs x = [ref_record (lc_stream x)]"

definition live_chat_valid :: "live_chat \<Rightarrow> bool" where
  "live_chat_valid x \<longleftrightarrow> lc_text x \<noteq> [] \<and> fits 2048 (lc_text x)"

lemma live_chat_encodes: "is_ok (encode_canonical (live_chat_to_body x))"
  unfolding live_chat_to_body_def
  by (rule keyed_encodes [of "[''text'']"])
    (auto simp: keyed_simps)

lemma live_chat_parse_built:
  "\<lbrakk>live_chat_valid x; r_refs r = live_chat_refs x; r_body r = into_canonical (live_chat_to_body x)\<rbrakk>
   \<Longrightarrow> live_chat_parse r = Inr x"
  using live_chat_encodes [of x]
  by (auto simp: live_chat_parse_def live_chat_valid_def live_chat_to_body_def live_chat_refs_def built_simps)

lemma live_chat_parse_valid: "\<lbrakk>live_chat_parse r = Inr x; wf_record r\<rbrakk> \<Longrightarrow> live_chat_valid x"
  by (auto simp: live_chat_parse_def live_chat_valid_def parsed_simps)

lemma live_chat_parse_refs: "live_chat_parse r = Inr x \<Longrightarrow> r_refs r = live_chat_refs x"
  by (auto simp: live_chat_parse_def live_chat_refs_def parsed_simps length_Suc_conv)

interpretation live_chat: kind_wrapper live_chat_parse live_chat_to_body "live_chat_refs" live_chat_valid
  by unfold_locales
    (simp add: live_chat_to_body_def, (blast intro: live_chat_encodes live_chat_parse_built live_chat_parse_valid
      live_chat_parse_refs)+)

end
