(* ===== verification/Kinds.thy ===== *)
theory Kinds
  imports KindsManifest KindsContent KindsSocial KindsClaims KindsCompliance KindsTrust KindsInfra KindsLive
begin

text \<open>
  The kind registry of \<open>crates/evermesh-kernel/src/kinds/mod.rs\<close>: names and ids of the kinds, the
  refs rule of rotations, the full check of a manifest, and \<open>validate\<close>, which dispatches a record
  to the wrapper of its kind.
\<close>

section \<open>Names and ids\<close>

definition kind_name :: "u64 \<Rightarrow> string option" where
  "kind_name kind =
     (if kind = KIND_ROTATION then Some ''rotation''
      else if kind = KIND_PROFILE then Some ''profile''
      else if kind = KIND_DELEGATE then Some ''delegate''
      else if kind = KIND_MANIFEST then Some ''manifest''
      else if kind = KIND_SUPERSEDE then Some ''supersede''
      else if kind = KIND_RETRACT then Some ''retract''
      else if kind = KIND_MIRROR then Some ''mirror''
      else if kind = KIND_SIMILARITY then Some ''similarity''
      else if kind = KIND_COMMENT then Some ''comment''
      else if kind = KIND_REACTION then Some ''reaction''
      else if kind = KIND_FOLLOW then Some ''follow''
      else if kind = KIND_PLAYLIST then Some ''playlist''
      else if kind = KIND_CHANNEL then Some ''channel''
      else if kind = KIND_CLAIM_AUTHOR then Some ''claim.author''
      else if kind = KIND_CLAIM_LICENSE then Some ''claim.license''
      else if kind = KIND_CLAIM_TRANSFER then Some ''claim.transfer''
      else if kind = KIND_CLAIM_DISPUTE then Some ''claim.dispute''
      else if kind = KIND_NOTICE_TAKEDOWN then Some ''notice.takedown''
      else if kind = KIND_NOTICE_COUNTER then Some ''notice.counter''
      else if kind = KIND_FEED_TAKEDOWN then Some ''feed.takedown''
      else if kind = KIND_ENDORSE_GATEWAY then Some ''endorse.gateway''
      else if kind = KIND_RECEIPT then Some ''receipt''
      else if kind = KIND_ATTEST then Some ''attest''
      else if kind = KIND_ANCHOR then Some ''anchor''
      else if kind = KIND_KEYGRANT then Some ''keygrant''
      else if kind = KIND_LIVE_MANIFEST then Some ''live.manifest''
      else if kind = KIND_LIVE_CHAT then Some ''live.chat''
      else None)"

definition kind_id :: "string \<Rightarrow> u64 option" where
  "kind_id name =
     (if name = ''rotation'' then Some KIND_ROTATION
      else if name = ''profile'' then Some KIND_PROFILE
      else if name = ''delegate'' then Some KIND_DELEGATE
      else if name = ''manifest'' then Some KIND_MANIFEST
      else if name = ''supersede'' then Some KIND_SUPERSEDE
      else if name = ''retract'' then Some KIND_RETRACT
      else if name = ''mirror'' then Some KIND_MIRROR
      else if name = ''similarity'' then Some KIND_SIMILARITY
      else if name = ''comment'' then Some KIND_COMMENT
      else if name = ''reaction'' then Some KIND_REACTION
      else if name = ''follow'' then Some KIND_FOLLOW
      else if name = ''playlist'' then Some KIND_PLAYLIST
      else if name = ''channel'' then Some KIND_CHANNEL
      else if name = ''claim.author'' then Some KIND_CLAIM_AUTHOR
      else if name = ''claim.license'' then Some KIND_CLAIM_LICENSE
      else if name = ''claim.transfer'' then Some KIND_CLAIM_TRANSFER
      else if name = ''claim.dispute'' then Some KIND_CLAIM_DISPUTE
      else if name = ''notice.takedown'' then Some KIND_NOTICE_TAKEDOWN
      else if name = ''notice.counter'' then Some KIND_NOTICE_COUNTER
      else if name = ''feed.takedown'' then Some KIND_FEED_TAKEDOWN
      else if name = ''endorse.gateway'' then Some KIND_ENDORSE_GATEWAY
      else if name = ''receipt'' then Some KIND_RECEIPT
      else if name = ''attest'' then Some KIND_ATTEST
      else if name = ''anchor'' then Some KIND_ANCHOR
      else if name = ''keygrant'' then Some KIND_KEYGRANT
      else if name = ''live.manifest'' then Some KIND_LIVE_MANIFEST
      else if name = ''live.chat'' then Some KIND_LIVE_CHAT
      else None)"

section \<open>Validation\<close>

definition validate_manifest :: "crypto \<Rightarrow> erecord \<Rightarrow> error + unit" where
  "validate_manifest c record =
     and_then (manifest_parse record) (\<lambda>manifest.
     and_then (try_map (\<lambda>rendition. verify_derivation c rendition (md_blob (mf_original manifest)))
                 (mf_renditions manifest)) (\<lambda>_.
     Inr ()))"

definition validate_rotation_refs :: "erecord \<Rightarrow> error + unit" where
  "validate_rotation_refs record =
     (let is_genesis = (author_id (r_author record) = identity_zero) in
      if is_genesis then refs_empty record ''rotation: genesis record must have empty refs''
      else if length (r_refs record) \<noteq> 1 \<or> \<not> is_record (r_refs record ! 0)
      then Inl (Kind ''rotation: non-genesis record must have exactly one record ref'')
      else Inr ())"

definition validate :: "crypto \<Rightarrow> erecord \<Rightarrow> error + unit" where
  "validate c record =
     (if r_kind record = KIND_ROTATION then validate_rotation_refs record
      else if r_kind record = KIND_PROFILE then and_then (profile_parse record) (\<lambda>_. Inr ())
      else if r_kind record = KIND_DELEGATE then and_then (delegate_parse record) (\<lambda>_. Inr ())
      else if r_kind record = KIND_MANIFEST then validate_manifest c record
      else if r_kind record = KIND_SUPERSEDE then and_then (supersede_parse record) (\<lambda>_. Inr ())
      else if r_kind record = KIND_RETRACT then and_then (retract_parse record) (\<lambda>_. Inr ())
      else if r_kind record = KIND_MIRROR then and_then (mirror_parse record) (\<lambda>_. Inr ())
      else if r_kind record = KIND_SIMILARITY then and_then (similarity_parse record) (\<lambda>_. Inr ())
      else if r_kind record = KIND_COMMENT then and_then (comment_parse record) (\<lambda>_. Inr ())
      else if r_kind record = KIND_REACTION then and_then (reaction_parse record) (\<lambda>_. Inr ())
      else if r_kind record = KIND_FOLLOW then and_then (follow_parse record) (\<lambda>_. Inr ())
      else if r_kind record = KIND_PLAYLIST then and_then (playlist_parse record) (\<lambda>_. Inr ())
      else if r_kind record = KIND_CHANNEL then and_then (channel_parse record) (\<lambda>_. Inr ())
      else if r_kind record = KIND_CLAIM_AUTHOR then and_then (claim_author_parse record) (\<lambda>_. Inr ())
      else if r_kind record = KIND_CLAIM_LICENSE then and_then (claim_license_parse record) (\<lambda>_. Inr ())
      else if r_kind record = KIND_CLAIM_TRANSFER then and_then (claim_transfer_parse record) (\<lambda>_. Inr ())
      else if r_kind record = KIND_CLAIM_DISPUTE then and_then (claim_dispute_parse record) (\<lambda>_. Inr ())
      else if r_kind record = KIND_NOTICE_TAKEDOWN then and_then (notice_takedown_parse record) (\<lambda>_. Inr ())
      else if r_kind record = KIND_NOTICE_COUNTER then and_then (notice_counter_parse record) (\<lambda>_. Inr ())
      else if r_kind record = KIND_FEED_TAKEDOWN then and_then (feed_takedown_parse record) (\<lambda>_. Inr ())
      else if r_kind record = KIND_ENDORSE_GATEWAY then and_then (endorse_gateway_parse record) (\<lambda>_. Inr ())
      else if r_kind record = KIND_RECEIPT then and_then (receipt_parse record) (\<lambda>_. Inr ())
      else if r_kind record = KIND_ATTEST then and_then (attest_parse record) (\<lambda>_. Inr ())
      else if r_kind record = KIND_ANCHOR then and_then (anchor_parse record) (\<lambda>_. Inr ())
      else if r_kind record = KIND_KEYGRANT then and_then (keygrant_parse record) (\<lambda>_. Inr ())
      else if r_kind record = KIND_LIVE_MANIFEST then and_then (live_manifest_parse record) (\<lambda>_. Inr ())
      else if r_kind record = KIND_LIVE_CHAT then and_then (live_chat_parse record) (\<lambda>_. Inr ())
      else Inr ())"

lemmas kind_defs =
  KIND_ROTATION_def KIND_PROFILE_def KIND_DELEGATE_def KIND_MANIFEST_def KIND_SUPERSEDE_def KIND_RETRACT_def KIND_MIRROR_def KIND_SIMILARITY_def KIND_COMMENT_def KIND_REACTION_def KIND_FOLLOW_def KIND_PLAYLIST_def KIND_CHANNEL_def KIND_CLAIM_AUTHOR_def KIND_CLAIM_LICENSE_def KIND_CLAIM_TRANSFER_def KIND_CLAIM_DISPUTE_def KIND_NOTICE_TAKEDOWN_def KIND_NOTICE_COUNTER_def KIND_FEED_TAKEDOWN_def KIND_ENDORSE_GATEWAY_def KIND_RECEIPT_def KIND_ATTEST_def KIND_ANCHOR_def KIND_KEYGRANT_def KIND_LIVE_MANIFEST_def KIND_LIVE_CHAT_def

end
