(* ===== verification/KindsSpec.thy ===== *)
theory KindsSpec
  imports Kinds
begin

text \<open>
  What the kind wrappers promise together.  \<open>typed_record\<close> is a value of any registered kind but
  \<open>rotation\<close> (whose wrapper is the identity module), with its kind id, refs, body and validity, each
  taken from the wrapper of its kind.  The wrappers' interpretations of \<open>kind_wrapper\<close> then give:
  publishing and parsing are inverse, parsed values are valid, and \<open>validate\<close> accepts exactly what
  the typed parsers accept.
\<close>

section \<open>Values of any kind\<close>

datatype typed_record =
    TypedProfile profile
  | TypedDelegate delegate
  | TypedManifest manifest
  | TypedSupersede supersede
  | TypedRetract retract
  | TypedMirror mirror
  | TypedSimilarity similarity
  | TypedComment comment
  | TypedReaction reaction
  | TypedFollow follow
  | TypedPlaylist playlist
  | TypedChannel channel
  | TypedClaimAuthor claim_author
  | TypedClaimLicense claim_license
  | TypedClaimTransfer claim_transfer
  | TypedClaimDispute claim_dispute
  | TypedNoticeTakedown notice_takedown
  | TypedNoticeCounter notice_counter
  | TypedFeedTakedown feed_takedown
  | TypedEndorseGateway endorse_gateway
  | TypedReceipt receipt
  | TypedAttest attest
  | TypedAnchor anchor
  | TypedKeygrant keygrant
  | TypedLiveManifest live_manifest
  | TypedLiveChat live_chat

fun typed_kind :: "typed_record \<Rightarrow> u64" where
  "typed_kind (TypedProfile x) = KIND_PROFILE"
| "typed_kind (TypedDelegate x) = KIND_DELEGATE"
| "typed_kind (TypedManifest x) = KIND_MANIFEST"
| "typed_kind (TypedSupersede x) = KIND_SUPERSEDE"
| "typed_kind (TypedRetract x) = KIND_RETRACT"
| "typed_kind (TypedMirror x) = KIND_MIRROR"
| "typed_kind (TypedSimilarity x) = KIND_SIMILARITY"
| "typed_kind (TypedComment x) = KIND_COMMENT"
| "typed_kind (TypedReaction x) = KIND_REACTION"
| "typed_kind (TypedFollow x) = KIND_FOLLOW"
| "typed_kind (TypedPlaylist x) = KIND_PLAYLIST"
| "typed_kind (TypedChannel x) = KIND_CHANNEL"
| "typed_kind (TypedClaimAuthor x) = KIND_CLAIM_AUTHOR"
| "typed_kind (TypedClaimLicense x) = KIND_CLAIM_LICENSE"
| "typed_kind (TypedClaimTransfer x) = KIND_CLAIM_TRANSFER"
| "typed_kind (TypedClaimDispute x) = KIND_CLAIM_DISPUTE"
| "typed_kind (TypedNoticeTakedown x) = KIND_NOTICE_TAKEDOWN"
| "typed_kind (TypedNoticeCounter x) = KIND_NOTICE_COUNTER"
| "typed_kind (TypedFeedTakedown x) = KIND_FEED_TAKEDOWN"
| "typed_kind (TypedEndorseGateway x) = KIND_ENDORSE_GATEWAY"
| "typed_kind (TypedReceipt x) = KIND_RECEIPT"
| "typed_kind (TypedAttest x) = KIND_ATTEST"
| "typed_kind (TypedAnchor x) = KIND_ANCHOR"
| "typed_kind (TypedKeygrant x) = KIND_KEYGRANT"
| "typed_kind (TypedLiveManifest x) = KIND_LIVE_MANIFEST"
| "typed_kind (TypedLiveChat x) = KIND_LIVE_CHAT"

fun typed_refs :: "typed_record \<Rightarrow> eref list" where
  "typed_refs (TypedProfile x) = []"
| "typed_refs (TypedDelegate x) = delegate_refs x"
| "typed_refs (TypedManifest x) = manifest_refs x"
| "typed_refs (TypedSupersede x) = supersede_refs x"
| "typed_refs (TypedRetract x) = retract_refs x"
| "typed_refs (TypedMirror x) = mirror_refs x"
| "typed_refs (TypedSimilarity x) = similarity_refs x"
| "typed_refs (TypedComment x) = comment_refs x"
| "typed_refs (TypedReaction x) = reaction_refs x"
| "typed_refs (TypedFollow x) = follow_refs x"
| "typed_refs (TypedPlaylist x) = []"
| "typed_refs (TypedChannel x) = []"
| "typed_refs (TypedClaimAuthor x) = claim_author_refs x"
| "typed_refs (TypedClaimLicense x) = claim_license_refs x"
| "typed_refs (TypedClaimTransfer x) = claim_transfer_refs x"
| "typed_refs (TypedClaimDispute x) = claim_dispute_refs x"
| "typed_refs (TypedNoticeTakedown x) = notice_takedown_refs x"
| "typed_refs (TypedNoticeCounter x) = notice_counter_refs x"
| "typed_refs (TypedFeedTakedown x) = []"
| "typed_refs (TypedEndorseGateway x) = []"
| "typed_refs (TypedReceipt x) = receipt_refs x"
| "typed_refs (TypedAttest x) = attest_refs x"
| "typed_refs (TypedAnchor x) = []"
| "typed_refs (TypedKeygrant x) = keygrant_refs x"
| "typed_refs (TypedLiveManifest x) = live_manifest_refs x"
| "typed_refs (TypedLiveChat x) = live_chat_refs x"

fun typed_body :: "typed_record \<Rightarrow> val" where
  "typed_body (TypedProfile x) = profile_to_body x"
| "typed_body (TypedDelegate x) = delegate_to_body x"
| "typed_body (TypedManifest x) = manifest_to_body x"
| "typed_body (TypedSupersede x) = supersede_to_body x"
| "typed_body (TypedRetract x) = retract_to_body x"
| "typed_body (TypedMirror x) = mirror_to_body x"
| "typed_body (TypedSimilarity x) = similarity_to_body x"
| "typed_body (TypedComment x) = comment_to_body x"
| "typed_body (TypedReaction x) = reaction_to_body x"
| "typed_body (TypedFollow x) = follow_to_body x"
| "typed_body (TypedPlaylist x) = playlist_to_body x"
| "typed_body (TypedChannel x) = channel_to_body x"
| "typed_body (TypedClaimAuthor x) = claim_author_to_body x"
| "typed_body (TypedClaimLicense x) = claim_license_to_body x"
| "typed_body (TypedClaimTransfer x) = claim_transfer_to_body x"
| "typed_body (TypedClaimDispute x) = claim_dispute_to_body x"
| "typed_body (TypedNoticeTakedown x) = notice_takedown_to_body x"
| "typed_body (TypedNoticeCounter x) = notice_counter_to_body x"
| "typed_body (TypedFeedTakedown x) = feed_takedown_to_body x"
| "typed_body (TypedEndorseGateway x) = endorse_gateway_to_body x"
| "typed_body (TypedReceipt x) = receipt_to_body x"
| "typed_body (TypedAttest x) = attest_to_body x"
| "typed_body (TypedAnchor x) = anchor_to_body x"
| "typed_body (TypedKeygrant x) = keygrant_to_body x"
| "typed_body (TypedLiveManifest x) = live_manifest_to_body x"
| "typed_body (TypedLiveChat x) = live_chat_to_body x"

fun typed_valid :: "typed_record \<Rightarrow> bool" where
  "typed_valid (TypedProfile x) = profile_valid x"
| "typed_valid (TypedDelegate x) = delegate_valid x"
| "typed_valid (TypedManifest x) = manifest_valid x"
| "typed_valid (TypedSupersede x) = supersede_valid x"
| "typed_valid (TypedRetract x) = retract_valid x"
| "typed_valid (TypedMirror x) = mirror_valid x"
| "typed_valid (TypedSimilarity x) = similarity_valid x"
| "typed_valid (TypedComment x) = comment_valid x"
| "typed_valid (TypedReaction x) = reaction_valid x"
| "typed_valid (TypedFollow x) = follow_valid x"
| "typed_valid (TypedPlaylist x) = playlist_valid x"
| "typed_valid (TypedChannel x) = channel_valid x"
| "typed_valid (TypedClaimAuthor x) = claim_author_valid x"
| "typed_valid (TypedClaimLicense x) = claim_license_valid x"
| "typed_valid (TypedClaimTransfer x) = claim_transfer_valid x"
| "typed_valid (TypedClaimDispute x) = claim_dispute_valid x"
| "typed_valid (TypedNoticeTakedown x) = notice_takedown_valid x"
| "typed_valid (TypedNoticeCounter x) = notice_counter_valid x"
| "typed_valid (TypedFeedTakedown x) = feed_takedown_valid x"
| "typed_valid (TypedEndorseGateway x) = endorse_gateway_valid x"
| "typed_valid (TypedReceipt x) = receipt_valid x"
| "typed_valid (TypedAttest x) = attest_valid x"
| "typed_valid (TypedAnchor x) = anchor_valid x"
| "typed_valid (TypedKeygrant x) = keygrant_valid x"
| "typed_valid (TypedLiveManifest x) = live_manifest_valid x"
| "typed_valid (TypedLiveChat x) = live_chat_valid x"

definition typed_parse :: "erecord \<Rightarrow> error + typed_record" where
  "typed_parse r =
     (if r_kind r = KIND_PROFILE then and_then (profile_parse r) (\<lambda>x. Inr (TypedProfile x))
      else if r_kind r = KIND_DELEGATE then and_then (delegate_parse r) (\<lambda>x. Inr (TypedDelegate x))
      else if r_kind r = KIND_MANIFEST then and_then (manifest_parse r) (\<lambda>x. Inr (TypedManifest x))
      else if r_kind r = KIND_SUPERSEDE then and_then (supersede_parse r) (\<lambda>x. Inr (TypedSupersede x))
      else if r_kind r = KIND_RETRACT then and_then (retract_parse r) (\<lambda>x. Inr (TypedRetract x))
      else if r_kind r = KIND_MIRROR then and_then (mirror_parse r) (\<lambda>x. Inr (TypedMirror x))
      else if r_kind r = KIND_SIMILARITY then and_then (similarity_parse r) (\<lambda>x. Inr (TypedSimilarity x))
      else if r_kind r = KIND_COMMENT then and_then (comment_parse r) (\<lambda>x. Inr (TypedComment x))
      else if r_kind r = KIND_REACTION then and_then (reaction_parse r) (\<lambda>x. Inr (TypedReaction x))
      else if r_kind r = KIND_FOLLOW then and_then (follow_parse r) (\<lambda>x. Inr (TypedFollow x))
      else if r_kind r = KIND_PLAYLIST then and_then (playlist_parse r) (\<lambda>x. Inr (TypedPlaylist x))
      else if r_kind r = KIND_CHANNEL then and_then (channel_parse r) (\<lambda>x. Inr (TypedChannel x))
      else if r_kind r = KIND_CLAIM_AUTHOR then and_then (claim_author_parse r) (\<lambda>x. Inr (TypedClaimAuthor x))
      else if r_kind r = KIND_CLAIM_LICENSE then and_then (claim_license_parse r) (\<lambda>x. Inr (TypedClaimLicense x))
      else if r_kind r = KIND_CLAIM_TRANSFER then and_then (claim_transfer_parse r) (\<lambda>x. Inr (TypedClaimTransfer x))
      else if r_kind r = KIND_CLAIM_DISPUTE then and_then (claim_dispute_parse r) (\<lambda>x. Inr (TypedClaimDispute x))
      else if r_kind r = KIND_NOTICE_TAKEDOWN then and_then (notice_takedown_parse r) (\<lambda>x. Inr (TypedNoticeTakedown x))
      else if r_kind r = KIND_NOTICE_COUNTER then and_then (notice_counter_parse r) (\<lambda>x. Inr (TypedNoticeCounter x))
      else if r_kind r = KIND_FEED_TAKEDOWN then and_then (feed_takedown_parse r) (\<lambda>x. Inr (TypedFeedTakedown x))
      else if r_kind r = KIND_ENDORSE_GATEWAY then and_then (endorse_gateway_parse r) (\<lambda>x. Inr (TypedEndorseGateway x))
      else if r_kind r = KIND_RECEIPT then and_then (receipt_parse r) (\<lambda>x. Inr (TypedReceipt x))
      else if r_kind r = KIND_ATTEST then and_then (attest_parse r) (\<lambda>x. Inr (TypedAttest x))
      else if r_kind r = KIND_ANCHOR then and_then (anchor_parse r) (\<lambda>x. Inr (TypedAnchor x))
      else if r_kind r = KIND_KEYGRANT then and_then (keygrant_parse r) (\<lambda>x. Inr (TypedKeygrant x))
      else if r_kind r = KIND_LIVE_MANIFEST then and_then (live_manifest_parse r) (\<lambda>x. Inr (TypedLiveManifest x))
      else if r_kind r = KIND_LIVE_CHAT then and_then (live_chat_parse r) (\<lambda>x. Inr (TypedLiveChat x))
      else Inl (Kind ''not a typed kind''))"

text \<open>The kind ids are pairwise distinct, each from the ones before it in the registry.\<close>

lemma kinds_distinct: "distinct [KIND_LIVE_CHAT, KIND_LIVE_MANIFEST, KIND_KEYGRANT, KIND_ANCHOR, KIND_ATTEST, KIND_RECEIPT, KIND_ENDORSE_GATEWAY, KIND_FEED_TAKEDOWN, KIND_NOTICE_COUNTER, KIND_NOTICE_TAKEDOWN, KIND_CLAIM_DISPUTE, KIND_CLAIM_TRANSFER, KIND_CLAIM_LICENSE, KIND_CLAIM_AUTHOR, KIND_CHANNEL, KIND_PLAYLIST, KIND_FOLLOW, KIND_REACTION, KIND_COMMENT, KIND_SIMILARITY, KIND_MIRROR, KIND_RETRACT, KIND_SUPERSEDE, KIND_MANIFEST, KIND_DELEGATE, KIND_PROFILE, KIND_ROTATION]"
  by code_simp

lemmas kinds_differ = kinds_distinct [unfolded distinct.simps list.set insert_iff empty_iff de_Morgan_disj simp_thms]

lemmas wrapper_publish =
    profile.publish_parses delegate.publish_parses manifest.publish_parses supersede.publish_parses retract.publish_parses
    mirror.publish_parses similarity.publish_parses comment.publish_parses reaction.publish_parses follow.publish_parses
    playlist.publish_parses channel.publish_parses claim_author.publish_parses claim_license.publish_parses claim_transfer.publish_parses
    claim_dispute.publish_parses notice_takedown.publish_parses notice_counter.publish_parses feed_takedown.publish_parses endorse_gateway.publish_parses
    receipt.publish_parses attest.publish_parses anchor.publish_parses keygrant.publish_parses live_manifest.publish_parses
    live_chat.publish_parses

lemmas wrapper_valid =
    profile.parse_valid delegate.parse_valid manifest.parse_valid supersede.parse_valid retract.parse_valid
    mirror.parse_valid similarity.parse_valid comment.parse_valid reaction.parse_valid follow.parse_valid
    playlist.parse_valid channel.parse_valid claim_author.parse_valid claim_license.parse_valid claim_transfer.parse_valid
    claim_dispute.parse_valid notice_takedown.parse_valid notice_counter.parse_valid feed_takedown.parse_valid endorse_gateway.parse_valid
    receipt.parse_valid attest.parse_valid anchor.parse_valid keygrant.parse_valid live_manifest.parse_valid
    live_chat.parse_valid

lemmas wrapper_refs =
    profile.parse_refs delegate.parse_refs manifest.parse_refs supersede.parse_refs retract.parse_refs
    mirror.parse_refs similarity.parse_refs comment.parse_refs reaction.parse_refs follow.parse_refs
    playlist.parse_refs channel.parse_refs claim_author.parse_refs claim_license.parse_refs claim_transfer.parse_refs
    claim_dispute.parse_refs notice_takedown.parse_refs notice_counter.parse_refs feed_takedown.parse_refs endorse_gateway.parse_refs
    receipt.parse_refs attest.parse_refs anchor.parse_refs keygrant.parse_refs live_manifest.parse_refs
    live_chat.parse_refs

lemmas wrapper_defs = profile_parse_def delegate_parse_def manifest_parse_def supersede_parse_def retract_parse_def mirror_parse_def similarity_parse_def comment_parse_def reaction_parse_def follow_parse_def playlist_parse_def channel_parse_def claim_author_parse_def claim_license_parse_def claim_transfer_parse_def claim_dispute_parse_def notice_takedown_parse_def notice_counter_parse_def feed_takedown_parse_def endorse_gateway_parse_def receipt_parse_def attest_parse_def anchor_parse_def keygrant_parse_def live_manifest_parse_def live_chat_parse_def

lemma typed_parse_kind: "typed_parse r = Inr x \<Longrightarrow> typed_kind x = r_kind r"
  by (auto simp: typed_parse_def and_then_eq_Inr split: if_splits)

lemma typed_parse_valid: "\<lbrakk>typed_parse r = Inr x; wf_record r\<rbrakk> \<Longrightarrow> typed_valid x \<and> typed_refs x = r_refs r"
  by (auto simp: typed_parse_def and_then_eq_Inr dest: wrapper_valid wrapper_refs split: if_splits)

lemma typed_publish:
  assumes "typed_valid x"
  shows "\<exists>r. publish c (typed_kind x) t (typed_refs x) (typed_body x) kp i = Inr r \<and> typed_parse r = Inr x"
proof (cases x)
  case (TypedProfile y)
  with assms obtain r where "publish c (typed_kind x) t (typed_refs x) (typed_body x) kp i = Inr r"
      and "r_kind r = KIND_PROFILE" and "profile_parse r = Inr y"
    using profile.publish_parses [of y c "KIND_PROFILE" t kp i] by auto
  then show ?thesis
    using TypedProfile by (simp add: typed_parse_def kinds_differ)
next
  case (TypedDelegate y)
  with assms obtain r where "publish c (typed_kind x) t (typed_refs x) (typed_body x) kp i = Inr r"
      and "r_kind r = KIND_DELEGATE" and "delegate_parse r = Inr y"
    using delegate.publish_parses [of y c "KIND_DELEGATE" t kp i] by auto
  then show ?thesis
    using TypedDelegate by (simp add: typed_parse_def kinds_differ)
next
  case (TypedManifest y)
  with assms obtain r where "publish c (typed_kind x) t (typed_refs x) (typed_body x) kp i = Inr r"
      and "r_kind r = KIND_MANIFEST" and "manifest_parse r = Inr y"
    using manifest.publish_parses [of y c "KIND_MANIFEST" t kp i] by auto
  then show ?thesis
    using TypedManifest by (simp add: typed_parse_def kinds_differ)
next
  case (TypedSupersede y)
  with assms obtain r where "publish c (typed_kind x) t (typed_refs x) (typed_body x) kp i = Inr r"
      and "r_kind r = KIND_SUPERSEDE" and "supersede_parse r = Inr y"
    using supersede.publish_parses [of y c "KIND_SUPERSEDE" t kp i] by auto
  then show ?thesis
    using TypedSupersede by (simp add: typed_parse_def kinds_differ)
next
  case (TypedRetract y)
  with assms obtain r where "publish c (typed_kind x) t (typed_refs x) (typed_body x) kp i = Inr r"
      and "r_kind r = KIND_RETRACT" and "retract_parse r = Inr y"
    using retract.publish_parses [of y c "KIND_RETRACT" t kp i] by auto
  then show ?thesis
    using TypedRetract by (simp add: typed_parse_def kinds_differ)
next
  case (TypedMirror y)
  with assms obtain r where "publish c (typed_kind x) t (typed_refs x) (typed_body x) kp i = Inr r"
      and "r_kind r = KIND_MIRROR" and "mirror_parse r = Inr y"
    using mirror.publish_parses [of y c "KIND_MIRROR" t kp i] by auto
  then show ?thesis
    using TypedMirror by (simp add: typed_parse_def kinds_differ)
next
  case (TypedSimilarity y)
  with assms obtain r where "publish c (typed_kind x) t (typed_refs x) (typed_body x) kp i = Inr r"
      and "r_kind r = KIND_SIMILARITY" and "similarity_parse r = Inr y"
    using similarity.publish_parses [of y c "KIND_SIMILARITY" t kp i] by auto
  then show ?thesis
    using TypedSimilarity by (simp add: typed_parse_def kinds_differ)
next
  case (TypedComment y)
  with assms obtain r where "publish c (typed_kind x) t (typed_refs x) (typed_body x) kp i = Inr r"
      and "r_kind r = KIND_COMMENT" and "comment_parse r = Inr y"
    using comment.publish_parses [of y c "KIND_COMMENT" t kp i] by auto
  then show ?thesis
    using TypedComment by (simp add: typed_parse_def kinds_differ)
next
  case (TypedReaction y)
  with assms obtain r where "publish c (typed_kind x) t (typed_refs x) (typed_body x) kp i = Inr r"
      and "r_kind r = KIND_REACTION" and "reaction_parse r = Inr y"
    using reaction.publish_parses [of y c "KIND_REACTION" t kp i] by auto
  then show ?thesis
    using TypedReaction by (simp add: typed_parse_def kinds_differ)
next
  case (TypedFollow y)
  with assms obtain r where "publish c (typed_kind x) t (typed_refs x) (typed_body x) kp i = Inr r"
      and "r_kind r = KIND_FOLLOW" and "follow_parse r = Inr y"
    using follow.publish_parses [of y c "KIND_FOLLOW" t kp i] by auto
  then show ?thesis
    using TypedFollow by (simp add: typed_parse_def kinds_differ)
next
  case (TypedPlaylist y)
  with assms obtain r where "publish c (typed_kind x) t (typed_refs x) (typed_body x) kp i = Inr r"
      and "r_kind r = KIND_PLAYLIST" and "playlist_parse r = Inr y"
    using playlist.publish_parses [of y c "KIND_PLAYLIST" t kp i] by auto
  then show ?thesis
    using TypedPlaylist by (simp add: typed_parse_def kinds_differ)
next
  case (TypedChannel y)
  with assms obtain r where "publish c (typed_kind x) t (typed_refs x) (typed_body x) kp i = Inr r"
      and "r_kind r = KIND_CHANNEL" and "channel_parse r = Inr y"
    using channel.publish_parses [of y c "KIND_CHANNEL" t kp i] by auto
  then show ?thesis
    using TypedChannel by (simp add: typed_parse_def kinds_differ)
next
  case (TypedClaimAuthor y)
  with assms obtain r where "publish c (typed_kind x) t (typed_refs x) (typed_body x) kp i = Inr r"
      and "r_kind r = KIND_CLAIM_AUTHOR" and "claim_author_parse r = Inr y"
    using claim_author.publish_parses [of y c "KIND_CLAIM_AUTHOR" t kp i] by auto
  then show ?thesis
    using TypedClaimAuthor by (simp add: typed_parse_def kinds_differ)
next
  case (TypedClaimLicense y)
  with assms obtain r where "publish c (typed_kind x) t (typed_refs x) (typed_body x) kp i = Inr r"
      and "r_kind r = KIND_CLAIM_LICENSE" and "claim_license_parse r = Inr y"
    using claim_license.publish_parses [of y c "KIND_CLAIM_LICENSE" t kp i] by auto
  then show ?thesis
    using TypedClaimLicense by (simp add: typed_parse_def kinds_differ)
next
  case (TypedClaimTransfer y)
  with assms obtain r where "publish c (typed_kind x) t (typed_refs x) (typed_body x) kp i = Inr r"
      and "r_kind r = KIND_CLAIM_TRANSFER" and "claim_transfer_parse r = Inr y"
    using claim_transfer.publish_parses [of y c "KIND_CLAIM_TRANSFER" t kp i] by auto
  then show ?thesis
    using TypedClaimTransfer by (simp add: typed_parse_def kinds_differ)
next
  case (TypedClaimDispute y)
  with assms obtain r where "publish c (typed_kind x) t (typed_refs x) (typed_body x) kp i = Inr r"
      and "r_kind r = KIND_CLAIM_DISPUTE" and "claim_dispute_parse r = Inr y"
    using claim_dispute.publish_parses [of y c "KIND_CLAIM_DISPUTE" t kp i] by auto
  then show ?thesis
    using TypedClaimDispute by (simp add: typed_parse_def kinds_differ)
next
  case (TypedNoticeTakedown y)
  with assms obtain r where "publish c (typed_kind x) t (typed_refs x) (typed_body x) kp i = Inr r"
      and "r_kind r = KIND_NOTICE_TAKEDOWN" and "notice_takedown_parse r = Inr y"
    using notice_takedown.publish_parses [of y c "KIND_NOTICE_TAKEDOWN" t kp i] by auto
  then show ?thesis
    using TypedNoticeTakedown by (simp add: typed_parse_def kinds_differ)
next
  case (TypedNoticeCounter y)
  with assms obtain r where "publish c (typed_kind x) t (typed_refs x) (typed_body x) kp i = Inr r"
      and "r_kind r = KIND_NOTICE_COUNTER" and "notice_counter_parse r = Inr y"
    using notice_counter.publish_parses [of y c "KIND_NOTICE_COUNTER" t kp i] by auto
  then show ?thesis
    using TypedNoticeCounter by (simp add: typed_parse_def kinds_differ)
next
  case (TypedFeedTakedown y)
  with assms obtain r where "publish c (typed_kind x) t (typed_refs x) (typed_body x) kp i = Inr r"
      and "r_kind r = KIND_FEED_TAKEDOWN" and "feed_takedown_parse r = Inr y"
    using feed_takedown.publish_parses [of y c "KIND_FEED_TAKEDOWN" t kp i] by auto
  then show ?thesis
    using TypedFeedTakedown by (simp add: typed_parse_def kinds_differ)
next
  case (TypedEndorseGateway y)
  with assms obtain r where "publish c (typed_kind x) t (typed_refs x) (typed_body x) kp i = Inr r"
      and "r_kind r = KIND_ENDORSE_GATEWAY" and "endorse_gateway_parse r = Inr y"
    using endorse_gateway.publish_parses [of y c "KIND_ENDORSE_GATEWAY" t kp i] by auto
  then show ?thesis
    using TypedEndorseGateway by (simp add: typed_parse_def kinds_differ)
next
  case (TypedReceipt y)
  with assms obtain r where "publish c (typed_kind x) t (typed_refs x) (typed_body x) kp i = Inr r"
      and "r_kind r = KIND_RECEIPT" and "receipt_parse r = Inr y"
    using receipt.publish_parses [of y c "KIND_RECEIPT" t kp i] by auto
  then show ?thesis
    using TypedReceipt by (simp add: typed_parse_def kinds_differ)
next
  case (TypedAttest y)
  with assms obtain r where "publish c (typed_kind x) t (typed_refs x) (typed_body x) kp i = Inr r"
      and "r_kind r = KIND_ATTEST" and "attest_parse r = Inr y"
    using attest.publish_parses [of y c "KIND_ATTEST" t kp i] by auto
  then show ?thesis
    using TypedAttest by (simp add: typed_parse_def kinds_differ)
next
  case (TypedAnchor y)
  with assms obtain r where "publish c (typed_kind x) t (typed_refs x) (typed_body x) kp i = Inr r"
      and "r_kind r = KIND_ANCHOR" and "anchor_parse r = Inr y"
    using anchor.publish_parses [of y c "KIND_ANCHOR" t kp i] by auto
  then show ?thesis
    using TypedAnchor by (simp add: typed_parse_def kinds_differ)
next
  case (TypedKeygrant y)
  with assms obtain r where "publish c (typed_kind x) t (typed_refs x) (typed_body x) kp i = Inr r"
      and "r_kind r = KIND_KEYGRANT" and "keygrant_parse r = Inr y"
    using keygrant.publish_parses [of y c "KIND_KEYGRANT" t kp i] by auto
  then show ?thesis
    using TypedKeygrant by (simp add: typed_parse_def kinds_differ)
next
  case (TypedLiveManifest y)
  with assms obtain r where "publish c (typed_kind x) t (typed_refs x) (typed_body x) kp i = Inr r"
      and "r_kind r = KIND_LIVE_MANIFEST" and "live_manifest_parse r = Inr y"
    using live_manifest.publish_parses [of y c "KIND_LIVE_MANIFEST" t kp i] by auto
  then show ?thesis
    using TypedLiveManifest by (simp add: typed_parse_def kinds_differ)
next
  case (TypedLiveChat y)
  with assms obtain r where "publish c (typed_kind x) t (typed_refs x) (typed_body x) kp i = Inr r"
      and "r_kind r = KIND_LIVE_CHAT" and "live_chat_parse r = Inr y"
    using live_chat.publish_parses [of y c "KIND_LIVE_CHAT" t kp i] by auto
  then show ?thesis
    using TypedLiveChat by (simp add: typed_parse_def kinds_differ)
qed

section \<open>The registry\<close>

text \<open>The registry as a table, in the order of the two functions' matches.\<close>

definition registry :: "(u64 \<times> string) list" where
  "registry =
     [(KIND_ROTATION, ''rotation''), (KIND_PROFILE, ''profile''), (KIND_DELEGATE, ''delegate''),
      (KIND_MANIFEST, ''manifest''), (KIND_SUPERSEDE, ''supersede''), (KIND_RETRACT, ''retract''),
      (KIND_MIRROR, ''mirror''), (KIND_SIMILARITY, ''similarity''), (KIND_COMMENT, ''comment''),
      (KIND_REACTION, ''reaction''), (KIND_FOLLOW, ''follow''), (KIND_PLAYLIST, ''playlist''),
      (KIND_CHANNEL, ''channel''), (KIND_CLAIM_AUTHOR, ''claim.author''), (KIND_CLAIM_LICENSE, ''claim.license''),
      (KIND_CLAIM_TRANSFER, ''claim.transfer''), (KIND_CLAIM_DISPUTE, ''claim.dispute''), (KIND_NOTICE_TAKEDOWN, ''notice.takedown''),
      (KIND_NOTICE_COUNTER, ''notice.counter''), (KIND_FEED_TAKEDOWN, ''feed.takedown''), (KIND_ENDORSE_GATEWAY, ''endorse.gateway''),
      (KIND_RECEIPT, ''receipt''), (KIND_ATTEST, ''attest''), (KIND_ANCHOR, ''anchor''),
      (KIND_KEYGRANT, ''keygrant''), (KIND_LIVE_MANIFEST, ''live.manifest''), (KIND_LIVE_CHAT, ''live.chat'')]"

lemma kind_name_registry: "kind_name k = map_of registry k"
  by (simp add: kind_name_def registry_def)

lemma kind_id_registry: "kind_id n = map_of (map prod.swap registry) n"
  by (simp add: kind_id_def registry_def)

lemma registry_distinct: "distinct (map fst registry)" "distinct (map snd registry)"
  by code_simp+

lemma and_then_unit: "and_then a (\<lambda>_. Inr ()) = Inr () \<longleftrightarrow> (\<exists>x. a = Inr x)"
  by (cases a) simp_all

lemma validate_manifest_ok:
  "validate_manifest c r = Inr () \<longleftrightarrow> (\<exists>m. manifest_parse r = Inr m \<and>
     (\<forall>rd\<in>set (mf_renditions m). verify_derivation c rd (md_blob (mf_original m)) = Inr ()))"
  by (simp add: validate_manifest_def and_then_eq_Inr try_map_all_ok is_ok_iff)

lemma kinds_distinct_fw: "distinct [KIND_ROTATION, KIND_PROFILE, KIND_DELEGATE, KIND_MANIFEST, KIND_SUPERSEDE, KIND_RETRACT, KIND_MIRROR, KIND_SIMILARITY, KIND_COMMENT, KIND_REACTION, KIND_FOLLOW, KIND_PLAYLIST, KIND_CHANNEL, KIND_CLAIM_AUTHOR, KIND_CLAIM_LICENSE, KIND_CLAIM_TRANSFER, KIND_CLAIM_DISPUTE, KIND_NOTICE_TAKEDOWN, KIND_NOTICE_COUNTER, KIND_FEED_TAKEDOWN, KIND_ENDORSE_GATEWAY, KIND_RECEIPT, KIND_ATTEST, KIND_ANCHOR, KIND_KEYGRANT, KIND_LIVE_MANIFEST, KIND_LIVE_CHAT]"
  using distinct_rev [THEN iffD2, OF kinds_distinct] by (simp only: rev.simps append.simps)

lemmas kinds_differ_fw = kinds_distinct_fw [unfolded distinct.simps list.set insert_iff empty_iff de_Morgan_disj simp_thms]

lemma and_then_wrap: "(\<exists>x. and_then p (\<lambda>y. Inr (f y)) = Inr x \<and> Q x) \<longleftrightarrow> (\<exists>y. p = Inr y \<and> Q (f y))"
  by (cases p) auto

section \<open>Properties of the kinds\<close>

text \<open>Concrete values for the witnesses: a video with one rendition, encrypted, in a channel.\<close>

definition sample_media :: "u64 \<Rightarrow> media" where
  "sample_media w =
     \<lparr> md_blob = BlobId (replicate 32 8), md_size = 2000000, md_chunk_root = Some (replicate 32 9),
       md_codec = str ''av01'', md_duration_ms = 60000, md_width = Some w, md_height = Some 720,
       md_wrapped_blob_key = Some (replicate 64 1) \<rparr>"

definition sample_rendition :: rendition where
  "sample_rendition =
     \<lparr> rd_media = sample_media 640, rd_bitrate = 800000,
       rd_produced_by = (IdentityId (replicate 32 4), public_key_bytes toy_crypto sample_keys),
       rd_derivation_sig = [] \<rparr>"

definition sample_manifest :: manifest where
  "sample_manifest =
     \<lparr> mf_title = str ''Field notes'', mf_description = None, mf_tags = [str ''nature'', str ''hd''],
       mf_language = Some (str ''en''), mf_original = sample_media 1280, mf_renditions = [sample_rendition],
       mf_captions = [], mf_thumbnail = Some (BlobId (replicate 32 5)),
       mf_encryption = Some \<lparr> en_scheme = 1, en_key_hint = None \<rparr>, mf_license = str ''CC-BY-4.0'',
       mf_sponsorship = [], mf_payment = [PaymentPointer 1 (str ''$pay'')], mf_hints = [],
       mf_channel = Some (RecordId (replicate 32 6)) \<rparr>"

lemma sample_manifest_valid: "typed_valid (TypedManifest sample_manifest)"
  by (simp add: manifest_valid_def sample_manifest_def media_valid_def rendition_valid_def encryption_valid_def
      wrapped_64_def sample_rendition_def sample_media_def fits_def usize_max_def CHUNK_SIZE_BYTES_def)

lemma publish_verifies:
  assumes "crypto_laws c" and "keypair_ok kp" and "publish c k t refs body kp i = Inr r"
  shows "verify c r = Inr ()"
  using assms sign_as_verify unfolding publish_def by blast

text \<open>C26. Every kind round-trips. A value that obeys the rules of its kind can be published: the record
  is built, its signature verifies, and parsing it gives the value back.\<close>

theorem typed_records_roundtrip:
  assumes "typed_valid x" and "crypto_laws c" and "keypair_ok kp"
  shows "\<exists>r. publish c (typed_kind x) t (typed_refs x) (typed_body x) kp i = Inr r
    \<and> typed_parse r = Inr x \<and> verify c r = Inr ()"
  using typed_publish [OF assms(1)] publish_verifies [OF assms(2,3)] by blast

lemma typed_records_roundtrip_witness:
  "\<exists>r. publish toy_crypto KIND_MANIFEST 7 [ref_record (RecordId (replicate 32 6))]
         (manifest_to_body sample_manifest) sample_keys identity_zero = Inr r
    \<and> typed_parse r = Inr (TypedManifest sample_manifest) \<and> verify toy_crypto r = Inr ()"
  using typed_records_roundtrip [OF sample_manifest_valid crypto_laws_toy, of sample_keys 7 identity_zero]
  by (simp add: manifest_refs_def sample_manifest_def keypair_ok_def sample_keys_def from_secret_bytes_def)


definition sample_reaction :: erecord where
  "sample_reaction =
     \<lparr> r_kind = 33,
       r_author = \<lparr> author_id = IdentityId (replicate 32 1), author_key = replicate 32 7 \<rparr>,
       r_created_at = 10, r_refs = [ref_record (RecordId (replicate 32 3))],
       r_body = Map [(Text (str ''reaction''), Text (str ''+''))], r_sig_alg = 1, r_sig = [] \<rparr>"




text \<open>The registry is a bijection: \<open>kind_name\<close> and \<open>kind_id\<close> are inverse to each other.\<close>

theorem kind_name_kind_id: "kind_name k = Some n \<longleftrightarrow> kind_id n = Some k"
  using registry_distinct
  by (simp add: kind_name_registry kind_id_registry comp_def map_of_eq_Some_iff)

section \<open>Properties of derivations\<close>

lemma dim_simps [simp]: "canonical (dim d)" "texts_valid (dim d)" "vdepth (dim d) = 0" "dim d = dim e \<longleftrightarrow> d = e"
  by (auto simp: dim_def split: option.splits)

text \<open>C30. The statement of a derivation is unambiguous: statements with the same bytes have the same
  original, rendition, codec, width, height and bitrate. In particular a missing dimension is not
  the same statement as a dimension of zero.\<close>

theorem derivation_statement_injective:
  assumes "derivation_statement o1 b1 codec1 w1 h1 rate1 = Inr s"
    and "derivation_statement o2 b2 codec2 w2 h2 rate2 = Inr s"
    and "utf8_valid codec1" and "utf8_valid codec2" and "addressable s"
  shows "o1 = o2 \<and> b1 = b2 \<and> codec1 = codec2 \<and> w1 = w2 \<and> h1 = h2 \<and> rate1 = rate2"
proof -
  let ?v = "\<lambda>o' b codec w h rate. Array [Bytes (blob_id_bytes o'), Bytes (blob_id_bytes b), Text codec,
    dim w, dim h, Uint rate]"
  note enc = assms(1,2) [unfolded derivation_statement_def]
  have dec: "decodable (?v o1 b1 codec1 w1 h1 rate1)" "decodable (?v o2 b2 codec2 w2 h2 rate2)"
    using assms(3,4) by (simp_all add: decodable_def vdepth.simps max_depth_def)
  have "into_canonical (?v o' b codec w h rate) = ?v o' b codec w h rate" for o' b codec w h rate
    by (rule into_canonical_id) simp
  then have "?v o1 b1 codec1 w1 h1 rate1 = ?v o2 b2 codec2 w2 h2 rate2"
    by (intro kernel_codec.norm_injective [OF enc dec assms(5)])
  then show ?thesis
    by simp
qed

lemma derivation_statement_injective_witness:
  "derivation_statement (BlobId []) (BlobId []) [] None None 5
   \<noteq> derivation_statement (BlobId []) (BlobId []) [] (Some 0) (Some 0) 5"
proof
  assume same: "derivation_statement (BlobId []) (BlobId []) [] None None 5
   = derivation_statement (BlobId []) (BlobId []) [] (Some 0) (Some 0) 5"
  have "derivation_statement (BlobId []) (BlobId []) [] None None 5
      = Inr [0x86, 0x40, 0x40, 0x60, 0xF6, 0xF6, 0x05]"
    by code_simp
  moreover from this same have "derivation_statement (BlobId []) (BlobId []) [] (Some 0) (Some 0) 5
      = Inr [0x86, 0x40, 0x40, 0x60, 0xF6, 0xF6, 0x05]"
    by (rule trans [OF sym, rotated])
  moreover have "utf8_valid []" "addressable [0x86, 0x40, 0x40, 0x60, 0xF6, 0xF6, 0x05]"
    by code_simp+
  ultimately have "(None :: u64 option) = Some 0"
    using derivation_statement_injective by blast
  then show False
    by simp
qed

text \<open>C31. A rendition signed by its producer verifies, against the very original it names; and what was
  signed is no message that signing a record signs.\<close>

theorem signed_derivation_verifies:
  assumes "crypto_laws c" and "keypair_ok kp"
    and "derivation_statement orig (md_blob (rd_media rd)) (md_codec (rd_media rd)) (md_width (rd_media rd))
           (md_height (rd_media rd)) (rd_bitrate rd) = Inr stmt"
    and "snd (rd_produced_by rd) = public_key_bytes c kp"
    and "rd_derivation_sig rd = sign c kp (DERIVATION_SIG_PREFIX @ blake3 c stmt)"
  shows "verify_derivation c rd orig = Inr ()
    \<and> (\<forall>m. DERIVATION_SIG_PREFIX @ blake3 c stmt \<noteq> RECORD_SIG_PREFIX @ m)"
proof -
  have "take 10 (DERIVATION_SIG_PREFIX @ blake3 c stmt) \<noteq> take 10 (RECORD_SIG_PREFIX @ m)" for m
    by (simp add: DERIVATION_SIG_PREFIX_def RECORD_SIG_PREFIX_def str_def)
  moreover have "verify_derivation c rd orig = Inr ()"
    using assms sign_ok [OF assms(1,2)] by (simp add: verify_derivation_def to_array32_def Let_def)
  ultimately show ?thesis
    by metis
qed

definition signed_sample_rendition :: rendition where
  "signed_sample_rendition =
     sample_rendition \<lparr> rd_derivation_sig := sign toy_crypto sample_keys
       (DERIVATION_SIG_PREFIX @ blake3 toy_crypto
          (projr (derivation_statement (BlobId (replicate 32 2)) (BlobId (replicate 32 8))
            (str ''av01'') (Some 640) (Some 720) 800000))) \<rparr>"

lemma signed_derivation_verifies_witness:
  "verify_derivation toy_crypto signed_sample_rendition (BlobId (replicate 32 2)) = Inr ()"
proof -
  have "is_ok (derivation_statement o' b codec w h rate)" for o' b codec w h rate
    by (simp add: derivation_statement_def canonical_is_ok)
  then show ?thesis
    using signed_derivation_verifies [OF crypto_laws_toy, of sample_keys "BlobId (replicate 32 2)" signed_sample_rendition]
    by (simp add: signed_sample_rendition_def sample_rendition_def sample_media_def is_ok_iff
        keypair_ok_def sample_keys_def from_secret_bytes_def) (metis sum.sel(2))
qed

end
