(* ===== verification/Blob.thy ===== *)
theory Blob
  imports Crypto
begin

unbundle bit_operations_syntax

text \<open>
  Blob addressing and chunk trees, \<open>crates/evermesh-kernel/src/blob.rs\<close>: whole-blob hashing from
  memory and from a reader, the chunk tree with its root and proofs, and the verification of one
  chunk against a trusted root.

  A reader (\<open>std::io::Read\<close>) is the schedule of what its calls will deliver: pieces of data (a piece
  longer than the buffer is delivered over several calls), interruptions and failures; the end of the
  schedule is the end of the stream.  The incremental hasher of \<open>blake3\<close> hashes the concatenation of
  its updates.
\<close>

section \<open>Readers\<close>

datatype read_event = Data bytes | Interrupted | Failed

datatype read_result = Got bytes | Interrupt | Fail

fun reader_read :: "read_event list \<Rightarrow> nat \<Rightarrow> read_result \<times> read_event list" where
  "reader_read [] n = (Got [], [])"
| "reader_read (Interrupted # es) n = (Interrupt, es)"
| "reader_read (Failed # es) n = (Fail, es)"
| "reader_read (Data d # es) n = (Got (take n d), if length d \<le> n then es else Data (drop n d) # es)"

fun event_size :: "read_event \<Rightarrow> nat" where
  "event_size (Data d) = Suc (length d)"
| "event_size _ = 1"

definition reader_size :: "read_event list \<Rightarrow> nat" where
  "reader_size es = sum_list (map event_size es)"

lemma reader_read_decreases:
  assumes "0 < n" and "reader_read es n = (r, es')"
  shows "r = Got (b # bs) \<Longrightarrow> reader_size es' < reader_size es"
    and "r = Interrupt \<Longrightarrow> reader_size es' < reader_size es"
    and "reader_size es' \<le> reader_size es"
  using assms by (cases es; cases "hd es"; auto simp: reader_size_def split: if_splits)+

text \<open>Fill a buffer of \<open>n\<close> bytes; a shorter result means the end of the stream.\<close>

function fill_buf :: "read_event list \<Rightarrow> nat \<Rightarrow> error + bytes \<times> read_event list" where
  "fill_buf es n =
     (if n = 0 then Inr ([], es)
      else case reader_read es n of
        (Got [], es') \<Rightarrow> Inr ([], es')
      | (Got (b # bs), es') \<Rightarrow>
          and_then (fill_buf es' (n - length (b # bs))) (\<lambda>(rest, es''). Inr ((b # bs) @ rest, es''))
      | (Interrupt, es') \<Rightarrow> fill_buf es' n
      | (Fail, es') \<Rightarrow> Inl (Io ''failed to read from stream''))"
  by pat_completeness auto
termination
  by (relation "measure (\<lambda>(es, n). reader_size es)")
    (auto dest: reader_read_decreases(1,2) [OF _ sym])

declare fill_buf.simps [simp del]

lemma fill_buf_size:
  "fill_buf es n = Inr (d, es') \<Longrightarrow> reader_size es' \<le> reader_size es \<and> (d \<noteq> [] \<longrightarrow> reader_size es' < reader_size es)"
proof (induction es n arbitrary: d es' rule: fill_buf.induct)
  case (1 es n)
  show ?case
  proof (cases "n = 0")
    case True
    with "1.prems" show ?thesis
      by (simp add: fill_buf.simps [of es 0])
  next
    case False
    obtain r es1 where read: "reader_read es n = (r, es1)"
      by (cases "reader_read es n")
    note dec = reader_read_decreases [OF _ read]
    from False "1.prems" read consider (eof) "r = Got []" "d = []" "es' = es1"
      | (got) b bs rest where "r = Got (b # bs)" "fill_buf es1 (n - length (b # bs)) = Inr (rest, es')"
      | (intr) "r = Interrupt" "fill_buf es1 n = Inr (d, es')"
      by (auto simp: fill_buf.simps [of es n] result_simps split: read_result.splits list.splits)
    then show ?thesis
    proof cases
      case eof
      then show ?thesis using dec(3) False by simp
    next
      case got
      then show ?thesis
        using dec(1) "1.IH"(1) [OF False read [symmetric]] False by fastforce
    next
      case intr
      then show ?thesis
        using dec(2) "1.IH"(2) [OF False read [symmetric]] False by fastforce
    qed
  qed
qed

section \<open>Hashing blobs\<close>

definition CHUNK_SIZE :: nat where
  "CHUNK_SIZE = 2 ^ 20"

definition READ_BUF_SIZE :: nat where
  "READ_BUF_SIZE = 64 * 1024"

definition hash_blob :: "crypto \<Rightarrow> bytes \<Rightarrow> blob_id" where
  "hash_blob c bytes = BlobId (blake3 c bytes)"

function hash_loop :: "crypto \<Rightarrow> read_event list \<Rightarrow> bytes \<Rightarrow> u64 \<Rightarrow> error + bytes \<times> u64" where
  "hash_loop c es hasher sz =
     and_then (fill_buf es READ_BUF_SIZE) (\<lambda>(d, es').
       if d = [] then Inr (hasher, sz)
       else
         let hasher' = hasher @ d; sz' = sz + word_of_nat (length d) in
         if length d < READ_BUF_SIZE then Inr (hasher', sz')
         else hash_loop c es' hasher' sz')"
  by pat_completeness auto
termination
  by (relation "measure (\<lambda>(c, es, h, t). reader_size es)") (auto dest: fill_buf_size)

definition hash_stream :: "crypto \<Rightarrow> read_event list \<Rightarrow> error + blob_id \<times> u64" where
  "hash_stream c reader =
     and_then (hash_loop c reader [] 0) (\<lambda>(hasher, sz). Inr (BlobId (blake3 c hasher), sz))"

definition leaf_hash :: "crypto \<Rightarrow> bytes \<Rightarrow> bytes" where
  "leaf_hash c chunk = blake3 c ([0x00] @ chunk)"

definition node_hash :: "crypto \<Rightarrow> bytes \<Rightarrow> bytes \<Rightarrow> bytes" where
  "node_hash c left right = blake3 c ([0x01] @ left @ right)"

section \<open>Chunk trees\<close>

fun reduce_level :: "crypto \<Rightarrow> bytes list \<Rightarrow> bytes list" where
  "reduce_level c (a # b # rest) = node_hash c a b # reduce_level c rest"
| "reduce_level c [a] = [a]"
| "reduce_level c [] = []"

lemma length_reduce_level: "length (reduce_level c level) = (length level + 1) div 2"
  by (induction level rule: reduce_level.induct) simp_all

record chunk_tree =
  ct_leaves :: "bytes list"
  ct_size :: u64

function build_loop :: "crypto \<Rightarrow> read_event list \<Rightarrow> bytes list \<Rightarrow> u64 \<Rightarrow> error + chunk_tree" where
  "build_loop c es leaves sz =
     and_then (fill_buf es CHUNK_SIZE) (\<lambda>(d, es').
       if d = [] then Inr \<lparr> ct_leaves = leaves, ct_size = sz \<rparr>
       else
         let leaves' = leaves @ [leaf_hash c d]; sz' = sz + word_of_nat (length d) in
         if length d < CHUNK_SIZE then Inr \<lparr> ct_leaves = leaves', ct_size = sz' \<rparr>
         else build_loop c es' leaves' sz')"
  by pat_completeness auto
termination
  by (relation "measure (\<lambda>(c, es, l, s). reader_size es)") (auto dest: fill_buf_size)

definition chunk_tree_build :: "crypto \<Rightarrow> read_event list \<Rightarrow> error + chunk_tree" where
  "chunk_tree_build c reader = build_loop c reader [] 0"

text \<open>\<open>slice::chunks\<close>; a chunk size of zero panics there and is never used.\<close>

function chunks :: "nat \<Rightarrow> 'a list \<Rightarrow> 'a list list" where
  "chunks n xs = (if n = 0 \<or> xs = [] then [] else take n xs # chunks n (drop n xs))"
  by pat_completeness auto
termination
  by (relation "measure (\<lambda>(n, xs). length xs)") auto

declare chunks.simps [simp del] and hash_loop.simps [simp del] and build_loop.simps [simp del]

definition chunk_tree_from_bytes :: "crypto \<Rightarrow> bytes \<Rightarrow> chunk_tree" where
  "chunk_tree_from_bytes c bytes =
     \<lparr> ct_leaves = map (leaf_hash c) (chunks CHUNK_SIZE bytes), ct_size = word_of_nat (length bytes) \<rparr>"

function root_level :: "crypto \<Rightarrow> bytes list \<Rightarrow> bytes" where
  "root_level c level = (if 1 < length level then root_level c (reduce_level c level) else level ! 0)"
  by pat_completeness auto
termination
  by (relation "measure (\<lambda>(c, level). length level)") (auto simp: length_reduce_level)

definition chunk_tree_root :: "crypto \<Rightarrow> chunk_tree \<Rightarrow> bytes option" where
  "chunk_tree_root c t = (if ct_leaves t = [] then None else Some (root_level c (ct_leaves t)))"

definition n_chunks :: "chunk_tree \<Rightarrow> nat" where
  "n_chunks t = length (ct_leaves t)"

function prove_level :: "crypto \<Rightarrow> bytes list \<Rightarrow> nat \<Rightarrow> bytes list" where
  "prove_level c level cur =
     (if 1 < length level then
        let sibling = cur XOR 1 in
        (if sibling < length level then [level ! sibling] else [])
          @ prove_level c (reduce_level c level) (cur div 2)
      else [])"
  by pat_completeness auto
termination
  by (relation "measure (\<lambda>(c, level, cur). length level)") (auto simp: length_reduce_level)

definition prove :: "crypto \<Rightarrow> chunk_tree \<Rightarrow> nat \<Rightarrow> error + bytes list" where
  "prove c t index =
     (if length (ct_leaves t) \<le> index then Inl (ChunkProof ''chunk index out of range'')
      else Inr (prove_level c (ct_leaves t) index))"

function verify_level :: "crypto \<Rightarrow> bytes list \<Rightarrow> bytes \<Rightarrow> nat \<Rightarrow> nat \<Rightarrow> nat \<Rightarrow> error + bytes \<times> nat" where
  "verify_level c proof node level_len cur used =
     (if 1 < level_len then
        let sibling = cur XOR 1 in
        if sibling < level_len then
          if used < length proof then
            let sib = proof ! used;
                node' = if even cur then node_hash c node sib else node_hash c sib node
            in verify_level c proof node' ((level_len + 1) div 2) (cur div 2) (used + 1)
          else Inl (ChunkProof ''proof too short'')
        else verify_level c proof node ((level_len + 1) div 2) (cur div 2) used
      else Inr (node, used))"
  by pat_completeness auto
termination
  by (relation "measure (\<lambda>(c, proof, node, level_len, cur, used). level_len)") auto

definition verify_chunk :: "crypto \<Rightarrow> bytes \<Rightarrow> nat \<Rightarrow> nat \<Rightarrow> bytes \<Rightarrow> bytes list \<Rightarrow> error + unit" where
  "verify_chunk c root n index chunk proof =
     (if n \<le> index then Inl (ChunkProof ''chunk index out of range'')
      else and_then (verify_level c proof (leaf_hash c chunk) n index 0) (\<lambda>(node, used).
        if used \<noteq> length proof then Inl (ChunkProof ''proof too long'')
        else if node \<noteq> root then Inl (ChunkProof ''root mismatch'')
        else Inr ()))"

declare root_level.simps [simp del] and prove_level.simps [simp del] and verify_level.simps [simp del]

end
