(* ===== verification/Bundle.thy ===== *)
theory Bundle
  imports Blob Envelope
begin

unbundle bit_operations_syntax

text \<open>
  Bundles, \<open>crates/evermesh-kernel/src/bundle.rs\<close>: \<open>export\<close> writes records and blobs as a sequence of
  CBOR items behind a magic, \<open>import\<close> reads the items back from a stream and keeps what verifies.

  The writer is a parameter: whether \<open>write_all\<close> of some bytes succeeds after those already written.
  The reader is the schedule of \<open>Blob\<close>.  The reports pushed to \<open>skipped\<close> are values that carry the
  data of the formatted message.  \<open>import\<close> threads its state explicitly: what the two sinks have
  received, the reports, the ids seen, the counters and the blob whose parts are being collected.
\<close>

definition MAGIC :: bytes where
  "MAGIC = str ''EVMS'' @ [1]"

definition PART_SPLIT_THRESHOLD :: nat where
  "PART_SPLIT_THRESHOLD = 16 * 2 ^ 20"

section \<open>Export\<close>

definition write_all :: "(bytes \<Rightarrow> bytes \<Rightarrow> bool) \<Rightarrow> bytes \<Rightarrow> bytes \<Rightarrow> fault + bytes" where
  "write_all w out data = (if w out data then Inr (out @ data) else Inl (Err (Io ''bundle write failed'')))"

definition write_item :: "(bytes \<Rightarrow> bytes \<Rightarrow> bool) \<Rightarrow> bytes \<Rightarrow> val \<Rightarrow> fault + bytes" where
  "write_item w out item = and_then (lift (encode_canonical item)) (\<lambda>data. write_all w out data)"

fun export_records :: "(bytes \<Rightarrow> bytes \<Rightarrow> bool) \<Rightarrow> bytes \<Rightarrow> erecord list \<Rightarrow> fault + bytes" where
  "export_records w out [] = Inr out"
| "export_records w out (record # records) =
     and_then (to_canonical_cbor record) (\<lambda>data.
     and_then (write_item w out (Array [Text (str ''r''), Bytes data])) (\<lambda>out'.
     export_records w out' records))"

fun export_parts :: "(bytes \<Rightarrow> bytes \<Rightarrow> bool) \<Rightarrow> bytes \<Rightarrow> bytes \<Rightarrow> u64 \<Rightarrow> bytes list \<Rightarrow> fault + bytes" where
  "export_parts w out i index [] = Inr out"
| "export_parts w out i index (part # parts) =
     and_then (write_item w out (Array [Text (str ''bp''), Bytes i, Uint index, Bytes part])) (\<lambda>out'.
     export_parts w out' i (index + 1) parts)"

fun export_blobs ::
  "crypto \<Rightarrow> (bytes \<Rightarrow> bytes \<Rightarrow> bool) \<Rightarrow> bytes \<Rightarrow> bytes list \<Rightarrow> (blob_id \<times> bytes) list \<Rightarrow> fault + bytes \<times> bytes list" where
  "export_blobs c w out distinct_ids [] = Inr (out, distinct_ids)"
| "export_blobs c w out distinct_ids ((i, content) # blobs) =
     (if hash_blob c content \<noteq> i then Inl (Err (Bundle ''exporter blob does not match its id''))
      else if blob_id_bytes i \<in> set distinct_ids then export_blobs c w out distinct_ids blobs
      else
        and_then
          (if PART_SPLIT_THRESHOLD < length content
           then export_parts w out (blob_id_bytes i) 0 (chunks CHUNK_SIZE content)
           else write_item w out (Array [Text (str ''b''), Bytes (blob_id_bytes i), Bytes content]))
          (\<lambda>out'. export_blobs c w out' (blob_id_bytes i # distinct_ids) blobs))"

definition bundle_export ::
  "crypto \<Rightarrow> (bytes \<Rightarrow> bytes \<Rightarrow> bool) \<Rightarrow> erecord list \<Rightarrow> (blob_id \<times> bytes) list \<Rightarrow> fault + bytes" where
  "bundle_export c w records blobs =
     and_then (write_all w [] MAGIC) (\<lambda>out.
     and_then (write_item w out (Array [Text (str ''hdr''), Map []])) (\<lambda>out.
     and_then (export_records w out records) (\<lambda>out.
     and_then (export_blobs c w out [] blobs) (\<lambda>(out, distinct_ids).
     write_item w out (Array [Text (str ''end''), Uint (word_of_nat (length records)),
                              Uint (word_of_nat (length distinct_ids))])))))"

section \<open>Reading one item\<close>

text \<open>\<open>read_exact\<close> of the standard library: the whole buffer or an error.\<close>

definition stream_read :: "read_event list \<Rightarrow> nat \<Rightarrow> error + bytes \<times> read_event list" where
  "stream_read es n =
     and_then (fill_buf es n) (\<lambda>(d, es').
       if length d = n then Inr (d, es') else Inl (Io ''failed to fill whole buffer''))"

definition map_error :: "'e \<Rightarrow> 'd + 'a \<Rightarrow> 'e + 'a" where
  "map_error e r = (case r of Inl _ \<Rightarrow> Inl e | Inr x \<Rightarrow> Inr x)"

text \<open>The argument of a head, read from the stream: the extra bytes and the value.\<close>

definition read_item_arg :: "read_event list \<Rightarrow> u8 \<Rightarrow> error + (bytes \<times> u64) \<times> read_event list" where
  "read_item_arg es additional =
     (if additional \<le> 23 then Inr (([], ucast additional), es)
      else if additional \<le> 27 then
        and_then (map_error (Bundle ''truncated item'') (stream_read es (2 ^ unat (additional - 24)))) (\<lambda>(d, es').
        Inr ((d, word_of_nat (be_nat d)), es'))
      else Inl (Bundle ''indefinite or reserved length in item''))"

lemma stream_read_size:
  "stream_read es n = Inr (d, es') \<Longrightarrow> reader_size es' \<le> reader_size es \<and> (0 < n \<longrightarrow> reader_size es' < reader_size es)"
  by (auto simp: stream_read_def result_simps split: if_splits dest: fill_buf_size)

lemma map_error_eq_Inr [result_simps]: "map_error e r = Inr x \<longleftrightarrow> r = Inr x"
  by (cases r) (simp_all add: map_error_def)

lemma read_item_arg_size: "read_item_arg es a = Inr (x, es') \<Longrightarrow> reader_size es' \<le> reader_size es"
  by (auto simp: read_item_arg_def result_simps split: if_splits dest: stream_read_size)

text \<open>
  The loop of \<open>read_item\<close>; the stack has its top first.  The result is the item's bytes, or \<open>None\<close> at
  the end of the stream before the first byte.
\<close>

function read_item_loop ::
  "read_event list \<Rightarrow> u64 list \<Rightarrow> bool \<Rightarrow> bytes \<Rightarrow> error + bytes option \<times> read_event list" where
  "read_item_loop es [] first_byte buf = Inr (Some buf, es)"
| "read_item_loop es (remaining # stack) first_byte buf =
     (if remaining = 0 then read_item_loop es stack first_byte buf
      else
        case stream_read es 1 of
          Inl _ \<Rightarrow> if first_byte then Inr (None, es) else Inl (Bundle ''truncated item'')
        | Inr (h, es1) \<Rightarrow>
            let major = drop_bit 5 (hd h); additional = hd h AND 0x1F;
                stack' = (remaining - 1) # stack
            in (case read_item_arg es1 additional of
                  Inl e \<Rightarrow> Inl e
                | Inr ((d, arg), es2) \<Rightarrow>
                    let buf' = buf @ h @ d in
                    if major = 0 \<or> major = 1 \<or> major = 7 then read_item_loop es2 stack' False buf'
                    else if major = 2 \<or> major = 3 then
                      (if 64 * 2 ^ 20 < unat arg then Inl (Bundle ''item too large'')
                       else case stream_read es2 (unat arg) of
                         Inl _ \<Rightarrow> Inl (Bundle ''truncated item'')
                       | Inr (s, es3) \<Rightarrow> read_item_loop es3 stack' False (buf' @ s))
                    else if major = 4 then
                      (if 64 \<le> length stack' then Inl (Bundle ''item too deep'')
                       else read_item_loop es2 (arg # stack') False buf')
                    else if major = 5 then
                      (if 64 \<le> length stack' then Inl (Bundle ''item too deep'')
                       else if 2 ^ 64 \<le> 2 * uint arg then Inl (Bundle ''item too large'')
                       else read_item_loop es2 (2 * arg # stack') False buf')
                    else if major = 6 then Inl (Bundle ''tag in item'')
                    else Inl (Bundle ''unsupported item'')))"
  by pat_completeness auto
termination
  by (relation "measures [\<lambda>(es, stack, f, b). reader_size es, \<lambda>(es, stack, f, b). length stack]")
    (auto dest!: stream_read_size read_item_arg_size)

declare read_item_loop.simps(2) [simp del]

definition read_item :: "read_event list \<Rightarrow> error + bytes option \<times> read_event list" where
  "read_item es = read_item_loop es [1] True []"

text \<open>One turn of the loop: it stops before the first byte, or goes on with less to read.\<close>

lemma read_item_loop_turn:
  assumes "read_item_loop es (remaining # stack) fb buf = Inr (x, es')" and "remaining \<noteq> 0"
  shows "(x = None \<and> es' = es) \<or>
    (\<exists>es2 stack2 buf2. reader_size es2 < reader_size es \<and> read_item_loop es2 stack2 False buf2 = Inr (x, es'))"
proof (cases "stream_read es 1")
  case (Inl e)
  with assms show ?thesis
    by (simp add: read_item_loop.simps(2) split: if_splits)
next
  case (Inr r)
  then obtain h es1 where h: "stream_read es 1 = Inr (h, es1)"
    by (cases r) simp
  then have less: "reader_size es1 < reader_size es"
    using stream_read_size by fastforce
  obtain d arg es2 where a: "read_item_arg es1 (hd h AND 0x1F) = Inr ((d, arg), es2)"
    using assms h by (auto simp: read_item_loop.simps(2) Let_def split: sum.splits)
  then have less2: "reader_size es2 < reader_size es"
    using less read_item_arg_size by fastforce
  let ?m = "drop_bit 5 (hd h)" and ?st = "(remaining - 1) # stack" and ?buf = "buf @ h @ d"
  note run = assms(1) [unfolded read_item_loop.simps(2) [of es remaining] h a Let_def sum.case prod.case
      if_not_P [OF assms(2)]]
  consider (scalar) "?m = 0 \<or> ?m = 1 \<or> ?m = 7" | (string) "?m = 2 \<or> ?m = 3" | (array) "?m = 4"
    | (map) "?m = 5" | (other) "?m \<notin> {0, 1, 7, 2, 3, 4, 5}"
    by blast
  then show ?thesis
  proof cases
    case scalar
    then have "read_item_loop es2 ?st False ?buf = Inr (x, es')"
      using run by (simp only: if_P)
    with less2 show ?thesis
      by blast
  next
    case string
    then obtain s es3 where "stream_read es2 (unat arg) = Inr (s, es3)"
        and "read_item_loop es3 ?st False (?buf @ s) = Inr (x, es')"
      using run by (auto split: if_splits sum.splits)
    with less2 stream_read_size show ?thesis
      by (meson order.strict_trans1)
  next
    case array
    then have "read_item_loop es2 (arg # ?st) False ?buf = Inr (x, es')"
      using run by (simp split: if_splits)
    with less2 show ?thesis
      by blast
  next
    case map
    then have "read_item_loop es2 (2 * arg # ?st) False ?buf = Inr (x, es')"
      using run by (simp split: if_splits)
    with less2 show ?thesis
      by blast
  next
    case other
    then show ?thesis
      using run by (simp split: if_splits)
  qed
qed

lemma read_item_loop_size:
  "read_item_loop es stack fb buf = Inr (x, es') \<Longrightarrow> reader_size es' \<le> reader_size es"
proof (induction "reader_size es" arbitrary: es stack fb buf rule: less_induct)
  case less
  note smaller = less.hyps
  from less.prems show ?case
  proof (induction stack)
    case (Cons r stack)
    show ?case
    proof (cases "r = 0")
      case True
      with Cons show ?thesis
        by (simp add: read_item_loop.simps(2))
    next
      case False
      then show ?thesis
        using read_item_loop_turn [OF Cons.prems] smaller by fastforce
    qed
  qed simp
qed

lemma read_item_size: "read_item es = Inr (Some x, es') \<Longrightarrow> reader_size es' < reader_size es"
  unfolding read_item_def by (drule read_item_loop_turn) (auto dest: read_item_loop_size)

section \<open>Import\<close>

datatype report =
    UnreadableItem
  | AfterEnd
  | Undecodable error
  | NotAnArray
  | FirstNotHdr
  | DuplicateHdr
  | RecordWithoutBytes
  | InvalidRecord error
  | BlobMalformed
  | BlobIdLength
  | BlobHash blob_id
  | PartMalformed
  | PartIdLength
  | PartedBlobHash blob_id
  | NonContiguousPart
  | PartNotAtZero
  | EndMalformed
  | EndCounts u64 u64 u64 u64
  | UnknownTag bytes

record import_state =
  im_records :: "erecord list"
  im_blobs :: "(blob_id \<times> bytes) list"
  im_skipped :: "report list"
  im_seen_records :: "bytes list"
  im_seen_blobs :: "bytes list"
  im_n_records :: u64
  im_n_blobs :: u64
  im_pending :: "(bytes \<times> u64 \<times> bytes) option"
  im_first :: bool
  im_ended :: bool

definition import_init :: import_state where
  "import_init =
     \<lparr> im_records = [], im_blobs = [], im_skipped = [], im_seen_records = [], im_seen_blobs = [],
       im_n_records = 0, im_n_blobs = 0, im_pending = None, im_first = True, im_ended = False \<rparr>"

definition skip :: "report \<Rightarrow> import_state \<Rightarrow> import_state" where
  "skip m st = st \<lparr> im_skipped := im_skipped st @ [m] \<rparr>"

text \<open>The sink \<open>on_blob\<close> behind its guard \<open>seen_blobs.insert\<close>.\<close>

definition accept_blob :: "bytes \<Rightarrow> bytes \<Rightarrow> import_state \<Rightarrow> import_state" where
  "accept_blob i content st =
     (if i \<in> set (im_seen_blobs st) then st
      else st \<lparr> im_seen_blobs := i # im_seen_blobs st, im_n_blobs := im_n_blobs st + 1,
                im_blobs := im_blobs st @ [(BlobId i, content)] \<rparr>)"

definition accept_record :: "bytes \<Rightarrow> erecord \<Rightarrow> import_state \<Rightarrow> import_state" where
  "accept_record i record st =
     (if i \<in> set (im_seen_records st) then st
      else st \<lparr> im_seen_records := i # im_seen_records st, im_n_records := im_n_records st + 1,
                im_records := im_records st @ [record] \<rparr>)"

definition flush_parts :: "crypto \<Rightarrow> import_state \<Rightarrow> import_state" where
  "flush_parts c st =
     (case im_pending st of
        None \<Rightarrow> st
      | Some (i, _, content) \<Rightarrow>
          let st' = st \<lparr> im_pending := None \<rparr> in
          if hash_blob c content = BlobId i then accept_blob i content st'
          else skip (PartedBlobHash (BlobId i)) st')"

definition arr_bytes :: "val list \<Rightarrow> nat \<Rightarrow> bytes option" where
  "arr_bytes arr k = (if k < length arr then as_bytes (arr ! k) else None)"

definition arr_u64 :: "val list \<Rightarrow> nat \<Rightarrow> u64 option" where
  "arr_u64 arr k = (if k < length arr then as_u64 (arr ! k) else None)"

definition item_tag :: "val list \<Rightarrow> bytes" where
  "item_tag arr = (case arr of [] \<Rightarrow> [] | v # _ \<Rightarrow> (case as_text v of None \<Rightarrow> [] | Some t \<Rightarrow> t))"

definition import_record :: "crypto \<Rightarrow> val list \<Rightarrow> import_state \<Rightarrow> fault + import_state" where
  "import_record c arr st0 =
     (let st = flush_parts c st0 in
      case arr_bytes arr 1 of
        None \<Rightarrow> Inr (skip RecordWithoutBytes st)
      | Some data \<Rightarrow>
          (case and_then (lift (record_from_cbor data)) (\<lambda>r. and_then (verify c r) (\<lambda>_. Inr r)) of
             Inr record \<Rightarrow> and_then (record_id_of c record) (\<lambda>i. Inr (accept_record (record_id_bytes i) record st))
           | Inl (Err e) \<Rightarrow> Inr (skip (InvalidRecord e) st)
           | Inl (Panic m) \<Rightarrow> Inl (Panic m)))"

definition import_blob :: "crypto \<Rightarrow> val list \<Rightarrow> import_state \<Rightarrow> import_state" where
  "import_blob c arr st0 =
     (let st = flush_parts c st0 in
      case (arr_bytes arr 1, arr_bytes arr 2) of
        (Some i, Some content) \<Rightarrow>
          if length i \<noteq> 32 then skip BlobIdLength st
          else if hash_blob c content \<noteq> BlobId i then skip (BlobHash (BlobId i)) st
          else accept_blob i content st
      | _ \<Rightarrow> skip BlobMalformed st)"

definition import_part :: "crypto \<Rightarrow> val list \<Rightarrow> import_state \<Rightarrow> import_state" where
  "import_part c arr st =
     (case (arr_bytes arr 1, arr_u64 arr 2, arr_bytes arr 3) of
        (Some i, Some index, Some part) \<Rightarrow>
          if length i \<noteq> 32 then skip PartIdLength st
          else
            (case im_pending st of
               Some (cur_id, next_index, content) \<Rightarrow>
                 if cur_id = i \<and> next_index = index then
                   let st' = st \<lparr> im_pending := Some (cur_id, next_index + 1, content @ part) \<rparr> in
                   if length part < CHUNK_SIZE then flush_parts c st' else st'
                 else (flush_parts c (skip NonContiguousPart st)) \<lparr> im_pending := None \<rparr>
             | None \<Rightarrow>
                 if index = 0 then
                   let st' = st \<lparr> im_pending := Some (i, 1, part) \<rparr> in
                   if length part < CHUNK_SIZE then flush_parts c st' else st'
                 else skip PartNotAtZero st)
      | _ \<Rightarrow> skip PartMalformed st)"

definition import_end :: "crypto \<Rightarrow> val list \<Rightarrow> import_state \<Rightarrow> import_state" where
  "import_end c arr st0 =
     (let st = (flush_parts c st0) \<lparr> im_ended := True \<rparr> in
      case (arr_u64 arr 1, arr_u64 arr 2) of
        (Some rc, Some bc) \<Rightarrow>
          if rc \<noteq> im_n_records st \<or> bc \<noteq> im_n_blobs st
          then skip (EndCounts rc bc (im_n_records st) (im_n_blobs st)) st
          else st
      | _ \<Rightarrow> skip EndMalformed st)"

definition import_tagged :: "crypto \<Rightarrow> val list \<Rightarrow> import_state \<Rightarrow> fault + import_state" where
  "import_tagged c arr st =
     (let tag = item_tag arr in
      if tag = str ''hdr'' then Inr (skip DuplicateHdr st)
      else if tag = str ''r'' then import_record c arr st
      else if tag = str ''b'' then Inr (import_blob c arr st)
      else if tag = str ''bp'' then Inr (import_part c arr st)
      else if tag = str ''end'' then Inr (import_end c arr st)
      else Inr (skip (UnknownTag tag) st))"

text \<open>The body of the loop, for the bytes of one item.\<close>

definition import_item :: "crypto \<Rightarrow> bytes \<Rightarrow> import_state \<Rightarrow> fault + import_state" where
  "import_item c item_bytes st =
     (if im_ended st then Inr (skip AfterEnd st)
      else case decode_canonical item_bytes of
        Inl e \<Rightarrow> Inr (skip (Undecodable e) st)
      | Inr value \<Rightarrow>
          (case as_array value of
             None \<Rightarrow> Inr (skip NotAnArray st)
           | Some arr \<Rightarrow>
               if im_first st then
                 let st' = st \<lparr> im_first := False \<rparr> in
                 if item_tag arr = str ''hdr'' then Inr st'
                 else import_tagged c arr (skip FirstNotHdr st')
               else import_tagged c arr st))"

function import_loop :: "crypto \<Rightarrow> read_event list \<Rightarrow> import_state \<Rightarrow> fault + import_state" where
  "import_loop c es st =
     (case read_item es of
        Inl _ \<Rightarrow> Inr (skip UnreadableItem st)
      | Inr (None, _) \<Rightarrow> Inr st
      | Inr (Some item_bytes, es') \<Rightarrow> and_then (import_item c item_bytes st) (\<lambda>st'. import_loop c es' st'))"
  by pat_completeness auto
termination
  by (relation "measure (\<lambda>(c, es, st). reader_size es)") (auto dest: read_item_size)

declare import_loop.simps [simp del]

definition import_streaming :: "crypto \<Rightarrow> read_event list \<Rightarrow> fault + import_state \<times> bool" where
  "import_streaming c reader =
     (case stream_read reader 5 of
        Inl _ \<Rightarrow> Inl (Err (Bundle ''missing magic''))
      | Inr (magic, es) \<Rightarrow>
          if magic \<noteq> MAGIC then Inl (Err (Bundle ''bad magic or unsupported version''))
          else and_then (import_loop c es import_init) (\<lambda>st.
            let st' = flush_parts c st in Inr (st', \<not> im_ended st')))"

record import_result =
  ir_records :: "erecord list"
  ir_blobs :: "(blob_id \<times> bytes) list"
  ir_skipped :: "report list"
  ir_truncated :: bool

definition bundle_import :: "crypto \<Rightarrow> read_event list \<Rightarrow> fault + import_result" where
  "bundle_import c reader =
     and_then (import_streaming c reader) (\<lambda>(st, truncated).
     Inr \<lparr> ir_records = im_records st, ir_blobs = im_blobs st, ir_skipped = im_skipped st,
           ir_truncated = truncated \<rparr>)"

end
