(* ===== verification/BlobSpec.thy ===== *)
theory BlobSpec
  imports Blob
begin

unbundle bit_operations_syntax

text \<open>
  The properties of blobs and chunk trees: streaming from any reader gives what hashing in memory
  gives; the proof of a chunk verifies; and what verifies is the chunk, and its proof the honest one,
  unless the hash collides on the messages involved.
\<close>

section \<open>Streaming\<close>

text \<open>The bytes a schedule delivers before a failure; a live schedule never delivers an empty piece.\<close>

fun delivered :: "read_event list \<Rightarrow> bytes" where
  "delivered [] = []"
| "delivered (Data d # es) = d @ delivered es"
| "delivered (Interrupted # es) = delivered es"
| "delivered (Failed # es) = []"

definition live :: "read_event list \<Rightarrow> bool" where
  "live es \<longleftrightarrow> Data [] \<notin> set es"

lemma live_simps [simp]:
  "live []" "live (Data d # es) \<longleftrightarrow> d \<noteq> [] \<and> live es" "live (Interrupted # es) \<longleftrightarrow> live es"
  "live (Failed # es) \<longleftrightarrow> live es"
  by (auto simp: live_def)

abbreviation stream_error :: error where
  "stream_error \<equiv> Io ''failed to read from stream''"

lemma fill_buf_zero: "fill_buf es 0 = Inr ([], es)"
  by (simp add: fill_buf.simps [of es 0])

lemma fill_buf_live:
  assumes "live es"
  shows "if n \<le> length (delivered es)
    then \<exists>es'. fill_buf es n = Inr (take n (delivered es), es') \<and> live es'
           \<and> delivered es' = drop n (delivered es) \<and> (Failed \<in> set es' \<longleftrightarrow> Failed \<in> set es)
    else if Failed \<in> set es then fill_buf es n = Inl stream_error
    else \<exists>es'. fill_buf es n = Inr (delivered es, es')"
  using assms
proof (induction es n rule: fill_buf.induct)
  case (1 es n)
  show ?case
  proof (cases "n = 0")
    case True
    then show ?thesis
      using "1.prems" by (simp add: fill_buf_zero)
  next
    case n: False
    show ?thesis
    proof (cases es)
      case Nil
      then show ?thesis
        using n by (simp add: fill_buf.simps [of "[]" n])
    next
      case (Cons e es1)
      show ?thesis
      proof (cases e)
        case Interrupted
        then have "fill_buf es n = fill_buf es1 n"
          using n Cons by (subst fill_buf.simps) simp
        then show ?thesis
          using "1.IH"(2) [OF n, of Interrupt es1] "1.prems" Cons Interrupted by simp
      next
        case Failed
        then have "fill_buf es n = Inl stream_error"
          using n Cons by (subst fill_buf.simps) simp
        then show ?thesis
          using n Cons Failed by simp
      next
        case (Data d)
        then obtain b bs where d: "d = b # bs"
          using "1.prems" Cons by (cases d) simp_all
        define es2 where "es2 = (if length d \<le> n then es1 else Data (drop n d) # es1)"
        have read: "reader_read es n = (Got (take n d), es2)"
          using Cons Data by (simp add: es2_def)
        obtain t where t: "take n d = b # t"
          using n by (cases n) (simp_all add: d)
        have run: "fill_buf es n
            = and_then (fill_buf es2 (n - length (take n d))) (\<lambda>(rest, es'). Inr (take n d @ rest, es'))"
          using n read by (simp add: fill_buf.simps [of es n] t)
        have live2: "live es2"
          using "1.prems" Cons Data by (auto simp: es2_def)
        have del: "delivered es = take n d @ delivered es2"
          using Cons Data by (simp add: es2_def)
        have fail: "Failed \<in> set es2 \<longleftrightarrow> Failed \<in> set es"
          using Cons Data by (auto simp: es2_def)
        show ?thesis
          using "1.IH"(1) [OF n read [symmetric] refl t] live2 unfolding run del fail [symmetric]
          by (auto simp flip: t split: if_splits)
      qed
    qed
  qed
qed

lemma hash_loop_live:
  assumes "live es"
  shows "hash_loop c es h t =
    (if Failed \<in> set es then Inl stream_error
     else Inr (h @ delivered es, t + word_of_nat (length (delivered es))))"
  using assms
proof (induction c es h t rule: hash_loop.induct)
  case (1 c es h t)
  have pos: "0 < READ_BUF_SIZE"
    by (simp add: READ_BUF_SIZE_def)
  note fill = fill_buf_live [OF "1.prems", of READ_BUF_SIZE]
  show ?case
  proof (cases "READ_BUF_SIZE \<le> length (delivered es)")
    case True
    let ?d = "take READ_BUF_SIZE (delivered es)"
    from fill True obtain es' where es': "fill_buf es READ_BUF_SIZE = Inr (?d, es')" "live es'"
        "delivered es' = drop READ_BUF_SIZE (delivered es)" "Failed \<in> set es' \<longleftrightarrow> Failed \<in> set es"
      by auto
    have d: "?d \<noteq> []" "\<not> length ?d < READ_BUF_SIZE"
      using True pos by auto
    have "hash_loop c es h t = hash_loop c es' (h @ ?d) (t + word_of_nat (length ?d))"
      using d by (subst hash_loop.simps) (simp add: es'(1) Let_def)
    also have "\<dots> = (if Failed \<in> set es' then Inl stream_error
        else Inr ((h @ ?d) @ delivered es', t + word_of_nat (length ?d) + word_of_nat (length (delivered es'))))"
      by (rule "1.IH" [OF es'(1) refl _ refl refl]) (use d es'(2) in simp_all)
    finally show ?thesis
      using True by (simp add: es' add.assoc flip: of_nat_add)
  next
    case False
    then show ?thesis
      using fill by (subst hash_loop.simps) (auto simp: Let_def split: if_splits)
  qed
qed

lemma chunks_nonempty: "\<lbrakk>0 < n; n \<le> length xs\<rbrakk> \<Longrightarrow> chunks n xs = take n xs # chunks n (drop n xs)"
  by (subst chunks.simps) auto

lemma chunks_short: "\<lbrakk>0 < n; length xs < n; xs \<noteq> []\<rbrakk> \<Longrightarrow> chunks n xs = [xs]"
  by (subst chunks.simps) (simp add: chunks.simps [of n "[]"])

lemma chunks_Nil [simp]: "chunks n [] = []"
  by (simp add: chunks.simps [of n "[]"])

lemma build_loop_live:
  assumes "live es"
  shows "build_loop c es ls t =
    (if Failed \<in> set es then Inl stream_error
     else Inr \<lparr> ct_leaves = ls @ map (leaf_hash c) (chunks CHUNK_SIZE (delivered es)),
                ct_size = t + word_of_nat (length (delivered es)) \<rparr>)"
  using assms
proof (induction c es ls t rule: build_loop.induct)
  case (1 c es ls t)
  have pos: "0 < CHUNK_SIZE"
    by (simp add: CHUNK_SIZE_def)
  note fill = fill_buf_live [OF "1.prems", of CHUNK_SIZE]
  show ?case
  proof (cases "CHUNK_SIZE \<le> length (delivered es)")
    case True
    let ?d = "take CHUNK_SIZE (delivered es)"
    from fill True obtain es' where es': "fill_buf es CHUNK_SIZE = Inr (?d, es')" "live es'"
        "delivered es' = drop CHUNK_SIZE (delivered es)" "Failed \<in> set es' \<longleftrightarrow> Failed \<in> set es"
      by auto
    have d: "?d \<noteq> []" "\<not> length ?d < CHUNK_SIZE"
      using True pos by auto
    have "build_loop c es ls t = build_loop c es' (ls @ [leaf_hash c ?d]) (t + word_of_nat (length ?d))"
      using d by (subst build_loop.simps) (simp add: es'(1) Let_def)
    also have "\<dots> = (if Failed \<in> set es' then Inl stream_error
        else Inr \<lparr> ct_leaves = (ls @ [leaf_hash c ?d]) @ map (leaf_hash c) (chunks CHUNK_SIZE (delivered es')),
                   ct_size = t + word_of_nat (length ?d) + word_of_nat (length (delivered es')) \<rparr>)"
      by (rule "1.IH" [OF es'(1) refl _ refl refl]) (use d es'(2) in simp_all)
    finally show ?thesis
      using True chunks_nonempty [OF pos True] by (simp add: es' add.assoc flip: of_nat_add)
  next
    case False
    then have "chunks CHUNK_SIZE (delivered es) = (if delivered es = [] then [] else [delivered es])"
      using pos by (simp add: chunks_short)
    with False show ?thesis
      using fill by (subst build_loop.simps) (auto simp: Let_def split: if_splits)
  qed
qed

text \<open>C23. Streaming is hashing. However a reader cuts a blob into pieces and however often it is
  interrupted, \<open>hash_stream\<close> returns the id and size that the whole blob has in memory, and
  \<open>ChunkTree::build\<close> the tree that \<open>from_bytes\<close> builds; a reader that fails gives the one I/O error.\<close>

theorem streaming_is_hashing:
  assumes "live es"
  shows "hash_stream c es =
      (if Failed \<in> set es then Inl (Io ''failed to read from stream'')
       else Inr (hash_blob c (delivered es), word_of_nat (length (delivered es))))
    \<and> chunk_tree_build c es =
      (if Failed \<in> set es then Inl (Io ''failed to read from stream'')
       else Inr (chunk_tree_from_bytes c (delivered es)))"
  using hash_loop_live [OF assms] build_loop_live [OF assms]
  by (simp add: hash_stream_def hash_blob_def chunk_tree_build_def chunk_tree_from_bytes_def)

lemma streaming_is_hashing_witness:
  "hash_stream toy_crypto [Data [1, 2], Interrupted, Data [3]] = Inr (hash_blob toy_crypto [1, 2, 3], 3)"
  using streaming_is_hashing [of "[Data [1, 2], Interrupted, Data [3]]" toy_crypto] by simp

section \<open>Levels of a chunk tree\<close>

lemma xor_one_even [simp]: "even n \<Longrightarrow> n XOR Suc 0 = Suc n" for n :: nat
  by (simp add: xor_Suc_0_eq)

lemma xor_one_odd [simp]: "odd n \<Longrightarrow> n XOR Suc 0 = n - Suc 0" for n :: nat
  by (simp add: xor_Suc_0_eq)

lemma reduce_level_nth:
  "k < (length level + 1) div 2 \<Longrightarrow> reduce_level c level ! k =
     (if 2 * k + 1 < length level then node_hash c (level ! (2 * k)) (level ! (2 * k + 1)) else level ! (2 * k))"
proof (induction level arbitrary: k rule: reduce_level.induct)
  case (1 c a b rest)
  then show ?case
    by (cases k) simp_all
qed simp_all

text \<open>One level up: the node above position \<open>i\<close>, with its sibling or promoted.\<close>

lemma reduce_level_above:
  assumes "i < length level"
  shows "i div 2 < length (reduce_level c level)"
    and "i XOR 1 < length level \<Longrightarrow> reduce_level c level ! (i div 2) =
      (if even i then node_hash c (level ! i) (level ! (i XOR 1)) else node_hash c (level ! (i XOR 1)) (level ! i))"
    and "\<not> i XOR 1 < length level \<Longrightarrow> reduce_level c level ! (i div 2) = level ! i"
proof -
  show lt: "i div 2 < length (reduce_level c level)"
    using assms by (simp add: length_reduce_level)
  show "reduce_level c level ! (i div 2) =
      (if even i then node_hash c (level ! i) (level ! (i XOR 1)) else node_hash c (level ! (i XOR 1)) (level ! i))"
    if "i XOR 1 < length level"
  proof (cases "even i")
    case True
    then show ?thesis
      using that lt by (auto simp: reduce_level_nth length_reduce_level elim!: evenE)
  next
    case False
    then show ?thesis
      using assms lt by (auto simp: reduce_level_nth length_reduce_level elim!: oddE)
  qed
  show "reduce_level c level ! (i div 2) = level ! i" if "\<not> i XOR 1 < length level"
  proof (cases "even i")
    case True
    then show ?thesis
      using that lt by (auto simp: reduce_level_nth length_reduce_level elim!: evenE)
  next
    case False
    then show ?thesis
      using that assms by (auto elim!: oddE)
  qed
qed

lemma verify_level_complete:
  assumes "i < length level"
  shows "verify_level c (pre @ prove_level c level i) (level ! i) (length level) i (length pre)
    = Inr (root_level c level, length (pre @ prove_level c level i))"
  using assms
proof (induction c level i arbitrary: pre rule: prove_level.induct)
  case (1 c level i)
  show ?case
  proof (cases "1 < length level")
    case False
    then have "i = 0" and "length level = 1"
      using "1.prems" by auto
    then show ?thesis
      by (simp add: verify_level.simps prove_level.simps [of c level] root_level.simps [of c level])
  next
    case True
    note up = reduce_level_above [OF "1.prems"]
    let ?sib = "if i XOR 1 < length level then [level ! (i XOR 1)] else []"
    let ?rest = "prove_level c (reduce_level c level) (i div 2)"
    have prove: "prove_level c level i = ?sib @ ?rest"
      using True by (subst prove_level.simps) (simp add: Let_def)
    have root: "root_level c level = root_level c (reduce_level c level)"
      using True by (simp add: root_level.simps [of c level])
    have len: "Suc (length level) div 2 = length (reduce_level c level)"
      by (simp add: length_reduce_level)
    have step: "verify_level c (pre @ prove_level c level i) (level ! i) (length level) i (length pre)
        = verify_level c ((pre @ ?sib) @ ?rest) (reduce_level c level ! (i div 2))
            (length (reduce_level c level)) (i div 2) (length (pre @ ?sib))"
      using True up unfolding prove by (subst verify_level.simps) (auto simp: Let_def len nth_append)
    show ?thesis
      unfolding step root using "1.IH" [OF True refl up(1), of "pre @ ?sib"] by (simp add: prove)
  qed
qed

lemma prove_level_length: "i < length level \<Longrightarrow> 2 ^ length (prove_level c level i) \<le> max 1 (2 * (length level - 1))"
proof (induction c level i rule: prove_level.induct)
  case (1 c level i)
  show ?case
  proof (cases "1 < length level")
    case False
    then show ?thesis
      by (simp add: prove_level.simps [of c level])
  next
    case True
    let ?rest = "prove_level c (reduce_level c level) (i div 2)"
    have "length (prove_level c level i) \<le> Suc (length ?rest)"
      using True by (subst prove_level.simps) (simp add: Let_def)
    then have "(2::nat) ^ length (prove_level c level i) \<le> 2 * 2 ^ length ?rest"
      using power_increasing [of "length (prove_level c level i)" "Suc (length ?rest)" "2::nat"] by simp
    also have "\<dots> \<le> 2 * max 1 (2 * ((length level + 1) div 2 - 1))"
      using "1.IH" [OF True refl] reduce_level_above(1) [OF "1.prems", of c]
      by (simp add: length_reduce_level)
    also have "\<dots> \<le> max 1 (2 * (length level - 1))"
      using True by (simp add: max_def) presburger
    finally show ?thesis .
  qed
qed

text \<open>C24. Chunk proofs work. For every chunk of a blob \<open>prove\<close> gives a sibling path that
  \<open>verify_chunk\<close> accepts against the root with the blob's chunk count, and the path is logarithmic in
  the number of chunks; beyond the last chunk both refuse.\<close>

theorem chunk_proofs_verify:
  assumes "chunk_tree_from_bytes c data = t"
  shows "(i < n_chunks t \<longrightarrow> (\<exists>root proof. chunk_tree_root c t = Some root \<and> prove c t i = Inr proof
      \<and> verify_chunk c root (n_chunks t) i (chunks CHUNK_SIZE data ! i) proof = Inr ()
      \<and> 2 ^ length proof \<le> max 1 (2 * (n_chunks t - 1))))
    \<and> (n_chunks t \<le> i \<longrightarrow> prove c t i = Inl (ChunkProof ''chunk index out of range'')
      \<and> verify_chunk c root' (n_chunks t) i chunk proof' = Inl (ChunkProof ''chunk index out of range''))"
proof (cases "i < n_chunks t")
  case False
  then show ?thesis
    by (simp add: prove_def verify_chunk_def n_chunks_def)
next
  case True
  let ?ls = "ct_leaves t"
  have i: "i < length ?ls" and leaf: "?ls ! i = leaf_hash c (chunks CHUNK_SIZE data ! i)"
    using True assms by (auto simp: n_chunks_def chunk_tree_from_bytes_def)
  then have "verify_chunk c (root_level c ?ls) (length ?ls) i (chunks CHUNK_SIZE data ! i) (prove_level c ?ls i) = Inr ()"
    using verify_level_complete [OF i, of c "[]"] by (simp add: verify_chunk_def)
  then show ?thesis
    using i prove_level_length [OF i, of c] by (auto simp: n_chunks_def prove_def chunk_tree_root_def)
qed

section \<open>What a verified chunk proves\<close>

text \<open>The messages hashed while a level is reduced to the root, and along a verification.\<close>

fun level_msgs :: "bytes list \<Rightarrow> bytes list" where
  "level_msgs (a # b # rest) = ([0x01] @ a @ b) # level_msgs rest"
| "level_msgs _ = []"

function tree_msgs :: "crypto \<Rightarrow> bytes list \<Rightarrow> bytes list" where
  "tree_msgs c level = (if 1 < length level then level_msgs level @ tree_msgs c (reduce_level c level) else [])"
  by pat_completeness auto
termination
  by (relation "measure (\<lambda>(c, level). length level)") (auto simp: length_reduce_level)

function path_msgs :: "crypto \<Rightarrow> bytes list \<Rightarrow> bytes \<Rightarrow> nat \<Rightarrow> nat \<Rightarrow> nat \<Rightarrow> bytes list" where
  "path_msgs c proof node level_len cur used =
     (if 1 < level_len then
        if cur XOR 1 < level_len then
          if used < length proof then
            let msg = [0x01] @ (if even cur then node @ proof ! used else proof ! used @ node)
            in msg # path_msgs c proof (blake3 c msg) ((level_len + 1) div 2) (cur div 2) (used + 1)
          else []
        else path_msgs c proof node ((level_len + 1) div 2) (cur div 2) used
      else [])"
  by pat_completeness auto
termination
  by (relation "measure (\<lambda>(c, proof, node, level_len, cur, used). level_len)") auto

declare tree_msgs.simps [simp del] and path_msgs.simps [simp del]

lemma level_msgs_nth: "2 * k + 1 < length level \<Longrightarrow> [0x01] @ level ! (2 * k) @ level ! (2 * k + 1) \<in> set (level_msgs level)"
proof (induction level arbitrary: k rule: level_msgs.induct)
  case (1 a b rest)
  then show ?case
    by (cases k) auto
qed simp_all

lemma sibling_msg:
  assumes "i < length level" and "i XOR 1 < length level"
  shows "[0x01] @ (if even i then level ! i @ level ! (i XOR 1) else level ! (i XOR 1) @ level ! i) \<in> set (level_msgs level)"
  using assms level_msgs_nth [of "i div 2" level]
  by (auto elim!: evenE oddE)

lemma hash_lengths:
  assumes "crypto_laws c" and "\<forall>x\<in>set level. length x = 32"
  shows "\<forall>x\<in>set (reduce_level c level). length x = 32"
  using assms(2) crypto_lawsD(1) [OF assms(1)]
  by (induction c level rule: reduce_level.induct) (simp_all add: node_hash_def)

lemma verify_level_sound:
  assumes "crypto_laws c" and "i < length level" and "\<forall>x\<in>set level. length x = 32"
    and "length node = 32" and "\<forall>p\<in>set proof. length p = 32"
    and "verify_level c proof node (length level) i used = Inr (root_level c level, used')"
    and "inj_on (blake3 c) (set (tree_msgs c level) \<union> set (path_msgs c proof node (length level) i used))"
    and "used \<le> length proof"
  shows "node = level ! i \<and> used \<le> used' \<and> used' \<le> length proof \<and> slice proof used used' = prove_level c level i"
  using assms
proof (induction c level i arbitrary: node used rule: prove_level.induct)
  case (1 c level i)
  show ?case
  proof (cases "1 < length level")
    case False
    then have "i = 0" and "length level = 1"
      using "1.prems"(2) by auto
    then show ?thesis
      using "1.prems" by (simp add: verify_level.simps prove_level.simps [of c level] root_level.simps [of c level])
  next
    case True
    note up = reduce_level_above [OF "1.prems"(2)]
    have root: "root_level c level = root_level c (reduce_level c level)"
      using True by (simp add: root_level.simps [of c level])
    have tree: "tree_msgs c level = level_msgs level @ tree_msgs c (reduce_level c level)"
      using True by (simp add: tree_msgs.simps [of c level])
    have len: "Suc (length level) div 2 = length (reduce_level c level)"
      by (simp add: length_reduce_level)
    have lens: "\<forall>x\<in>set (reduce_level c level). length x = 32"
      using "1.prems"(1,3) by (rule hash_lengths)
    show ?thesis
    proof (cases "i XOR 1 < length level")
      case False
      have run: "verify_level c proof node (length (reduce_level c level)) (i div 2) used
          = Inr (root_level c (reduce_level c level), used')"
        using "1.prems"(6) True False unfolding root by (subst (asm) verify_level.simps) (simp add: Let_def len)
      have "path_msgs c proof node (length level) i used
          = path_msgs c proof node (length (reduce_level c level)) (i div 2) used"
        using True False by (subst path_msgs.simps) (simp add: len)
      then have "inj_on (blake3 c) (set (tree_msgs c (reduce_level c level))
          \<union> set (path_msgs c proof node (length (reduce_level c level)) (i div 2) used))"
        using "1.prems"(7) by (auto simp: tree intro: inj_on_subset)
      note IH = "1.IH" [OF True refl "1.prems"(1) up(1) lens "1.prems"(4,5) run this "1.prems"(8)]
      moreover have "prove_level c level i = prove_level c (reduce_level c level) (i div 2)"
        using True False by (subst prove_level.simps) (simp add: Let_def)
      ultimately show ?thesis
        using up(3) [OF False] by simp
    next
      case sib: True
      have used: "used < length proof"
        using "1.prems"(6) True sib by (subst (asm) verify_level.simps) (auto simp: Let_def split: if_splits)
      let ?msg = "[0x01] @ (if even i then node @ proof ! used else proof ! used @ node)"
      have node': "(if even i then node_hash c node (proof ! used) else node_hash c (proof ! used) node) = blake3 c ?msg"
        by (simp add: node_hash_def)
      have run: "verify_level c proof (blake3 c ?msg) (length (reduce_level c level)) (i div 2) (used + 1)
          = Inr (root_level c (reduce_level c level), used')"
        using "1.prems"(6) True sib used unfolding root
        by (subst (asm) verify_level.simps) (simp add: Let_def len node')
      have path: "path_msgs c proof node (length level) i used
          = ?msg # path_msgs c proof (blake3 c ?msg) (length (reduce_level c level)) (i div 2) (used + 1)"
        using True sib used by (subst path_msgs.simps) (simp add: len Let_def)
      have inj: "inj_on (blake3 c) (set (tree_msgs c (reduce_level c level))
          \<union> set (path_msgs c proof (blake3 c ?msg) (length (reduce_level c level)) (i div 2) (used + 1)))"
        by (rule inj_on_subset [OF "1.prems"(7)]) (auto simp: tree path)
      have "length (blake3 c ?msg) = 32" and "used + 1 \<le> length proof"
        using crypto_lawsD(1) [OF "1.prems"(1)] used by simp_all
      note IH = "1.IH" [OF True refl "1.prems"(1) up(1) lens this(1) "1.prems"(5) run inj this(2)]
      let ?honest = "[0x01] @ (if even i then level ! i @ level ! (i XOR 1) else level ! (i XOR 1) @ level ! i)"
      have "blake3 c ?msg = blake3 c ?honest"
        using IH up(2) [OF sib] by (simp add: node_hash_def)
      moreover have "?honest \<in> set (level_msgs level)"
        using "1.prems"(2) sib by (rule sibling_msg)
      ultimately have "?msg = ?honest"
        using "1.prems"(7) by (elim inj_onD) (auto simp: tree path)
      moreover have "length (proof ! used) = 32" "length (level ! i) = 32" "length (level ! (i XOR 1)) = 32"
        using "1.prems"(2,3,5) used sib by simp_all
      ultimately have "node = level ! i" and "proof ! used = level ! (i XOR 1)"
        using "1.prems"(4) by (auto split: if_splits)
      moreover have "prove_level c level i = [level ! (i XOR 1)] @ prove_level c (reduce_level c level) (i div 2)"
        using True sib by (subst prove_level.simps) (simp add: Let_def)
      moreover have "slice proof used used' = [proof ! used] @ slice proof (used + 1) used'"
        using IH used slice_append_split [of used "used + 1" used' "proof"] by (simp add: slice_Suc)
      ultimately show ?thesis
        using IH by simp
    qed
  qed
qed

text \<open>Everything hashed to build a blob's tree, and to verify a chunk against its root.\<close>

definition blob_msgs :: "crypto \<Rightarrow> bytes \<Rightarrow> bytes list" where
  "blob_msgs c data =
     map (\<lambda>chunk. [0x00] @ chunk) (chunks CHUNK_SIZE data)
       @ tree_msgs c (map (leaf_hash c) (chunks CHUNK_SIZE data))"

definition verification_msgs :: "crypto \<Rightarrow> nat \<Rightarrow> nat \<Rightarrow> bytes \<Rightarrow> bytes list \<Rightarrow> bytes list" where
  "verification_msgs c n i chunk proof = ([0x00] @ chunk) # path_msgs c proof (leaf_hash c chunk) n i 0"

text \<open>C25. A verified chunk is the blob's chunk. If the hash has no collision among the messages hashed
  for the blob and for the verification, \<open>verify_chunk\<close> accepts, against the blob's root and chunk
  count, only the blob's own chunk at that index, and only with the path that \<open>prove\<close> gives.\<close>

theorem verified_chunk_is_the_chunk:
  assumes "crypto_laws c" and "chunk_tree_from_bytes c data = t" and "chunk_tree_root c t = Some root"
    and "\<forall>p\<in>set proof. length p = 32"
    and "verify_chunk c root (n_chunks t) i chunk proof = Inr ()"
    and "inj_on (blake3 c) (set (blob_msgs c data) \<union> set (verification_msgs c (n_chunks t) i chunk proof))"
  shows "i < n_chunks t \<and> chunk = chunks CHUNK_SIZE data ! i \<and> prove c t i = Inr proof"
proof -
  let ?ls = "ct_leaves t"
  have ls: "?ls = map (leaf_hash c) (chunks CHUNK_SIZE data)" and root: "root = root_level c ?ls"
    using assms(2,3) by (auto simp: chunk_tree_from_bytes_def chunk_tree_root_def split: if_splits)
  from assms(5) obtain used where i: "i < length ?ls" and used: "used = length proof"
      and run: "verify_level c proof (leaf_hash c chunk) (length ?ls) i 0 = Inr (root_level c ?ls, used)"
    by (auto simp: verify_chunk_def n_chunks_def root result_simps split: if_splits)
  have inj: "inj_on (blake3 c) (set (tree_msgs c ?ls) \<union> set (path_msgs c proof (leaf_hash c chunk) (length ?ls) i 0))"
    by (rule inj_on_subset [OF assms(6)]) (auto simp: blob_msgs_def verification_msgs_def ls n_chunks_def)
  have "\<forall>x\<in>set ?ls. length x = 32" and "length (leaf_hash c chunk) = 32"
    using crypto_lawsD(1) [OF assms(1)] by (auto simp: ls leaf_hash_def)
  from verify_level_sound [OF assms(1) i this assms(4) run inj]
  have node: "leaf_hash c chunk = ?ls ! i" and "slice proof 0 used = prove_level c ?ls i"
    by simp_all
  then have "proof = prove_level c ?ls i"
    by (simp add: used)
  moreover have lt: "i < length (chunks CHUNK_SIZE data)"
    using i by (simp add: ls)
  then have "blake3 c ([0x00] @ chunk) = blake3 c ([0x00] @ chunks CHUNK_SIZE data ! i)"
    using node by (simp add: ls leaf_hash_def)
  then have "[0x00] @ chunk = [0x00] @ chunks CHUNK_SIZE data ! i"
    using assms(6) lt by (elim inj_onD) (auto simp: blob_msgs_def verification_msgs_def)
  ultimately show ?thesis
    using i by (simp add: n_chunks_def prove_def)
qed

text \<open>A one-chunk and a two-chunk blob, for the witnesses.\<close>

lemma one_chunk: "chunks CHUNK_SIZE [1, 2, 3] = [[1, 2, 3 :: u8]]"
  by (rule chunks_short) (simp_all add: CHUNK_SIZE_def)

lemma two_chunks: "chunks CHUNK_SIZE (replicate CHUNK_SIZE 0 @ [1]) = [replicate CHUNK_SIZE 0, [1 :: u8]]"
  using chunks_nonempty [of CHUNK_SIZE "replicate CHUNK_SIZE 0 @ [1 :: u8]"] chunks_short [of CHUNK_SIZE "[1 :: u8]"]
  by (simp add: CHUNK_SIZE_def)

lemma chunk_proofs_verify_witness:
  "\<exists>root proof. verify_chunk toy_crypto root 2 1 [1] proof = Inr () \<and> length proof \<le> 1"
proof -
  let ?t = "chunk_tree_from_bytes toy_crypto (replicate CHUNK_SIZE 0 @ [1])"
  have n: "n_chunks ?t = 2"
    by (simp add: n_chunks_def chunk_tree_from_bytes_def two_chunks)
  then obtain root "proof" where "verify_chunk toy_crypto root 2 1 [1] proof = Inr ()"
      and "2 ^ length proof \<le> (2 :: nat)"
    using chunk_proofs_verify [of toy_crypto _ ?t 1, OF refl] by (auto simp: two_chunks)
  moreover from this have "length proof \<le> 1"
    using power_le_imp_le_exp [of "2 :: nat" "length proof" 1] by simp
  ultimately show ?thesis by blast
qed

lemma verified_chunk_is_the_chunk_witness:
  "prove toy_crypto (chunk_tree_from_bytes toy_crypto [1, 2, 3]) 0 = Inr []"
proof -
  let ?t = "chunk_tree_from_bytes toy_crypto [1, 2, 3]" and ?root = "leaf_hash toy_crypto [1, 2, 3]"
  have leaves: "ct_leaves ?t = [?root]"
    by (simp add: chunk_tree_from_bytes_def one_chunk)
  have "chunk_tree_root toy_crypto ?t = Some ?root"
    by (simp add: chunk_tree_root_def leaves root_level.simps)
  moreover have "verify_chunk toy_crypto ?root (n_chunks ?t) 0 [1, 2, 3] [] = Inr ()"
    by (simp add: verify_chunk_def n_chunks_def leaves verify_level.simps)
  moreover have "set (blob_msgs toy_crypto [1, 2, 3]) \<union> set (verification_msgs toy_crypto (n_chunks ?t) 0 [1, 2, 3] [])
      = {[0, 1, 2, 3]}"
    by (simp add: blob_msgs_def verification_msgs_def one_chunk n_chunks_def leaves tree_msgs.simps path_msgs.simps)
  ultimately show ?thesis
    using verified_chunk_is_the_chunk [OF crypto_laws_toy refl, of "[1, 2, 3]" ?root "[]" 0 "[1, 2, 3]"] by simp
qed

end
