(* ===== verification/BundleFrame.thy ===== *)
theory BundleFrame
  imports Bundle BlobSpec CodecSpec
begin

unbundle bit_operations_syntax

text \<open>
  Framing: on a stream that starts with the encoding of a canonical value of modest size, \<open>read_item\<close>
  takes exactly the bytes of that value, however the stream is cut into pieces.
\<close>

section \<open>Streams that deliver given bytes\<close>

definition streams :: "read_event list \<Rightarrow> bytes \<Rightarrow> bool" where
  "streams es bs \<longleftrightarrow> live es \<and> Failed \<notin> set es \<and> delivered es = bs"

lemma stream_read_streams:
  assumes "streams es (s @ rest)"
  shows "\<exists>es'. stream_read es (length s) = Inr (s, es') \<and> streams es' rest"
proof -
  have "live es" and del: "delivered es = s @ rest" and "Failed \<notin> set es"
    using assms by (simp_all add: streams_def)
  then obtain es' where "fill_buf es (length s) = Inr (s, es')" and "live es'" and "delivered es' = rest"
      and "Failed \<notin> set es'"
    using fill_buf_live [of es "length s"] by (auto simp: del)
  then show ?thesis
    by (auto simp: stream_read_def streams_def)
qed

lemma stream_read_eof:
  assumes "streams es []"
  shows "\<exists>e. stream_read es 1 = Inl e"
proof -
  have "live es" and "delivered es = []" and "Failed \<notin> set es"
    using assms by (simp_all add: streams_def)
  then obtain es' where "fill_buf es 1 = Inr ([], es')"
    using fill_buf_live [of es 1] by auto
  then show ?thesis
    by (simp add: stream_read_def)
qed

lemma streams_single: "bs \<noteq> [] \<Longrightarrow> streams [Data bs] bs"
  by (simp add: streams_def)

section \<open>Heads\<close>

lemma u64_cases:
  obtains "n < 24" | "24 \<le> n" "n \<le> 0xFF" | "0xFF < n" "n \<le> 0xFFFF"
    | "0xFFFF < n" "n \<le> 0xFFFFFFFF" | "0xFFFFFFFF < (n :: u64)"
  by (meson not_le)

lemma less_4_iff: "k < 4 \<longleftrightarrow> k = 0 \<or> k = 1 \<or> k = 2 \<or> k = (3 :: nat)"
  by auto

lemma read_item_arg_head:
  assumes "streams es (head_tail n @ rest)"
  shows "\<exists>es'. read_item_arg es (head_low n) = Inr ((head_tail n, n), es') \<and> streams es' rest"
proof -
  have long: "\<exists>es'. read_item_arg es (head_low n) = Inr ((head_tail n, n), es') \<and> streams es' rest"
    if k: "head_low n = 24 + word_of_nat k" "k < 4" "head_tail n = be_bytes (2 ^ k) (unat n)" "unat n < 256 ^ (2 ^ k)"
    for k
  proof -
    obtain es' where "stream_read es (2 ^ k) = Inr (head_tail n, es')" and "streams es' rest"
      using stream_read_streams [OF assms] k(3) by (metis length_be_bytes)
    moreover have "unat (word_of_nat k :: u8) = k"
      using k(2) by (simp add: unsigned_of_nat take_bit_nat_eq_self)
    moreover have "\<not> (24 + word_of_nat k :: u8) \<le> 23" "(24 + word_of_nat k :: u8) \<le> 27"
      using k(2) by (auto simp: less_4_iff)
    ultimately show ?thesis
      using k be_nat_be_bytes [OF k(4)]
      by (simp add: read_item_arg_def map_error_def)
  qed
  show ?thesis
  proof (cases n rule: u64_cases)
    case 1
    then have "unat n < 24"
      by (simp add: word_less_nat_alt)
    then have "(ucast n :: u8) \<le> 23" and "n \<le> 0xFF"
      by (simp_all add: word_le_nat_alt unsigned_ucast_eq take_bit_nat_eq_self)
    then show ?thesis
      using 1 assms by (simp add: head_low_def head_tail_def read_item_arg_def ucast_u8_u64_id)
  next
    case 2
    then have "unat n < 256"
      by (simp add: word_le_nat_alt)
    moreover have "be_bytes 1 (unat n) = [ucast n]"
      by simp
    ultimately show ?thesis
      using 2 by (intro long [of 0]) (simp_all add: head_low_def head_tail_def not_less [symmetric])
  next
    case 3
    then show ?thesis
      by (intro long [of 1]) (simp_all add: head_low_def head_tail_def word_le_nat_alt word_less_nat_alt)
  next
    case 4
    then show ?thesis
      by (intro long [of 2]) (simp_all add: head_low_def head_tail_def word_le_nat_alt word_less_nat_alt)
  next
    case 5
    then show ?thesis
      using unsigned_less [of n, where ?'a = nat]
      by (intro long [of 3]) (simp_all add: head_low_def head_tail_def word_le_nat_alt word_less_nat_alt)
  qed
qed

section \<open>One value\<close>

text \<open>What \<open>read_item\<close> can take: strings of at most 64 MiB, and lengths that fit the counters.\<close>

fun modest :: "val \<Rightarrow> bool" where
  "modest (Bytes b) = (length b \<le> 64 * 2 ^ 20)"
| "modest (Text b) = (length b \<le> 64 * 2 ^ 20)"
| "modest (Array vs) = (length vs < 2 ^ 64 \<and> list_all modest vs)"
| "modest (Map es) = (length es < 2 ^ 63 \<and> list_all (\<lambda>e. modest (fst e) \<and> modest (snd e)) es)"
| "modest _ = True"

text \<open>The loop takes the value from the stream and counts it off, at stack height \<open>k\<close>.\<close>

definition framed :: "nat \<Rightarrow> val \<Rightarrow> bool" where
  "framed k v \<longleftrightarrow>
     (\<forall>es rest r stack fb buf. streams es (keybuf v @ rest) \<longrightarrow> r \<noteq> 0 \<longrightarrow> length stack = k \<longrightarrow>
       (\<exists>es'. streams es' rest
          \<and> read_item_loop es (r # stack) fb buf = read_item_loop es' ((r - 1) # stack) False (buf @ keybuf v)))"

text \<open>After the head the loop goes on with the major type and the argument.\<close>

lemma loop_head:
  assumes "streams es (head m n @ rest)" and "m < 8" and "r \<noteq> 0"
  shows "\<exists>es2. streams es2 rest \<and> read_item_loop es (r # stack) fb buf =
      (let buf' = buf @ head m n; stack' = (r - 1) # stack in
       if m = 0 \<or> m = 1 \<or> m = 7 then read_item_loop es2 stack' False buf'
       else if m = 2 \<or> m = 3 then
         (if 64 * 2 ^ 20 < unat n then Inl (Bundle ''item too large'')
          else case stream_read es2 (unat n) of
            Inl _ \<Rightarrow> Inl (Bundle ''truncated item'')
          | Inr (s, es3) \<Rightarrow> read_item_loop es3 stack' False (buf' @ s))
       else if m = 4 then
         (if 64 \<le> length stack' then Inl (Bundle ''item too deep'')
          else read_item_loop es2 (n # stack') False buf')
       else if m = 5 then
         (if 64 \<le> length stack' then Inl (Bundle ''item too deep'')
          else if 2 ^ 64 \<le> 2 * uint n then Inl (Bundle ''item too large'')
          else read_item_loop es2 (2 * n # stack') False buf')
       else if m = 6 then Inl (Bundle ''tag in item'') else Inl (Bundle ''unsupported item''))"
proof -
  define h where "h = (push_bit 5 m OR head_low n)"
  have split: "drop_bit 5 h = m" "h AND 0x1F = head_low n"
    unfolding h_def using initial_byte_split [OF assms(2) head_low_less] by blast+
  have head: "head m n = h # head_tail n"
    by (simp only: head_eq h_def)
  then have "streams es ([h] @ (head_tail n @ rest))"
    using assms(1) by simp
  then obtain es1 where es1: "stream_read es 1 = Inr ([h], es1)" "streams es1 (head_tail n @ rest)"
    using stream_read_streams [of es "[h]"] by auto
  then obtain es2 where es2: "read_item_arg es1 (head_low n) = Inr ((head_tail n, n), es2)" "streams es2 rest"
    using read_item_arg_head by blast
  show ?thesis
    using assms(3) es2(2)
    by (intro exI [of _ es2] conjI)
      (simp_all add: read_item_loop.simps(2) [of es r] es1(1) [unfolded One_nat_def] es2 split head Let_def)
qed

lemma framed_scalar: "keybuf v = head 0 n \<or> keybuf v = head 1 n \<Longrightarrow> framed k v"
  using loop_head [of _ 0 n] loop_head [of _ 1 n] unfolding framed_def
  by (fastforce simp: Let_def)

lemma simple_heads: "head 7 20 = [0xF4]" "head 7 21 = [0xF5]" "head 7 22 = [0xF6]"
  by code_simp+

lemma framed_simple: "keybuf v = head 7 n \<Longrightarrow> framed k v"
  using loop_head [of _ 7 n] unfolding framed_def by (fastforce simp: Let_def)

text \<open>Strings.\<close>

lemma framed_string:
  assumes "keybuf v = head m (word_of_nat (length s)) @ s" and "m = 2 \<or> m = 3" and "length s \<le> 64 * 2 ^ 20"
  shows "framed k v"
  unfolding framed_def
proof (intro allI impI)
  fix es rest fb buf and r :: u64 and stack :: "u64 list"
  assume "streams es (keybuf v @ rest)" and r: "r \<noteq> 0"
  then have es: "streams es (head m (word_of_nat (length s)) @ (s @ rest))"
    by (simp add: assms(1))
  have len: "unat (word_of_nat (length s) :: u64) = length s"
    using assms(3) by (simp add: unsigned_of_nat take_bit_nat_eq_self)
  have "m < 8"
    using assms(2) by auto
  from loop_head [OF es this r, of stack fb buf] assms(2,3) obtain es2 where es2: "streams es2 (s @ rest)"
      and run: "read_item_loop es (r # stack) fb buf =
        (case stream_read es2 (length s) of
           Inl _ \<Rightarrow> Inl (Bundle ''truncated item'')
         | Inr (s', es3) \<Rightarrow>
             read_item_loop es3 ((r - 1) # stack) False ((buf @ head m (word_of_nat (length s))) @ s'))"
    by (auto simp: Let_def len)
  from stream_read_streams [OF es2] obtain es3 where "stream_read es2 (length s) = Inr (s, es3)" "streams es3 rest"
    by blast
  then show "\<exists>es'. streams es' rest
      \<and> read_item_loop es (r # stack) fb buf = read_item_loop es' ((r - 1) # stack) False (buf @ keybuf v)"
    by (auto simp: run assms(1))
qed

text \<open>A run of values, counted down to zero and popped.\<close>

lemma framed_run:
  assumes "\<And>v. v \<in> set vs \<Longrightarrow> framed (length stack) v" and "length vs < 2 ^ 64"
    and "streams es (concat (map keybuf vs) @ rest)"
  shows "\<exists>es'. streams es' rest
    \<and> read_item_loop es (word_of_nat (length vs) # stack) False buf
      = read_item_loop es' stack False (buf @ concat (map keybuf vs))"
  using assms
proof (induction vs arbitrary: es buf)
  case Nil
  then show ?case
    by (auto simp: read_item_loop.simps(2))
next
  case (Cons v vs)
  let ?n = "word_of_nat (length (v # vs)) :: u64"
  have "?n \<noteq> 0"
    using Cons.prems(2) by (auto simp only: word_of_nat_eq_0_iff dest!: dvd_imp_le) simp_all
  moreover have "?n - 1 = word_of_nat (length vs)"
    by simp
  moreover have "streams es (keybuf v @ (concat (map keybuf vs) @ rest))"
    using Cons.prems(3) by simp
  ultimately obtain es1 where "streams es1 (concat (map keybuf vs) @ rest)"
      and "read_item_loop es (?n # stack) False buf
        = read_item_loop es1 (word_of_nat (length vs) # stack) False (buf @ keybuf v)"
    using Cons.prems(1) [of v] unfolding framed_def by (metis list.set_intros(1))
  then show ?case
    using Cons.IH [of es1 "buf @ keybuf v"] Cons.prems by fastforce
qed

text \<open>The containers: the stack may hold 64 levels, the item's own included.\<close>

lemma framed_run_head:
  assumes "keybuf v = head m n @ concat (map keybuf vs)" and "m = 4 \<and> n = word_of_nat (length vs)
      \<or> m = 5 \<and> 2 * n = word_of_nat (length vs) \<and> 2 * uint n < 2 ^ 64"
    and "\<And>v. v \<in> set vs \<Longrightarrow> framed (Suc k) v" and "length vs < 2 ^ 64" and "k < 63"
  shows "framed k v"
  unfolding framed_def
proof (intro allI impI)
  fix es rest fb buf and r :: u64 and stack :: "u64 list"
  assume "streams es (keybuf v @ rest)" and r: "r \<noteq> 0" and k: "length stack = k"
  then have es: "streams es (head m n @ (concat (map keybuf vs) @ rest))"
    by (simp add: assms(1))
  have "m < 8"
    using assms(2) by auto
  from loop_head [OF es this r, of stack fb buf] assms(2,5) k obtain es2
    where es2: "streams es2 (concat (map keybuf vs) @ rest)"
      and run: "read_item_loop es (r # stack) fb buf =
        read_item_loop es2 (word_of_nat (length vs) # (r - 1) # stack) False (buf @ head m n)"
    by (auto simp: Let_def)
  have "framed (length ((r - 1) # stack)) v" if "v \<in> set vs" for v
    using assms(3) [OF that] k by simp
  from framed_run [OF this assms(4) es2, of "buf @ head m n"]
  show "\<exists>es'. streams es' rest
      \<and> read_item_loop es (r # stack) fb buf = read_item_loop es' ((r - 1) # stack) False (buf @ keybuf v)"
    by (simp add: run assms(1))
qed

lemma framed_value: "\<lbrakk>canonical v; modest v; vdepth v + k < 63\<rbrakk> \<Longrightarrow> framed k v"
proof (induction v arbitrary: k)
  case (Array vs)
  show ?case
  proof (rule framed_run_head)
    show "keybuf (Array vs) = head 4 (word_of_nat (length vs)) @ concat (map keybuf vs)"
      using Array.prems by (simp add: keybuf_Array)
    fix v
    assume v: "v \<in> set vs"
    then have "vdepth v < vdepth (Array vs)"
      using vdepth_Array_le [of vs "vdepth (Array vs)"] by simp
    then show "framed (Suc k) v"
      using Array.IH [OF v] Array.prems v by (simp add: list_all_iff)
  qed (use Array.prems in auto)
next
  case (Map es)
  let ?vs = "concat (map (\<lambda>e. [fst e, snd e]) es)"
  have len: "length ?vs = 2 * length es"
    by (induction es) simp_all
  show ?case
  proof (rule framed_run_head)
    have "concat (map keybuf ?vs) = concat (map entry_buf es)"
      by (induction es) simp_all
    then show "keybuf (Map es) = head 5 (word_of_nat (length es)) @ concat (map keybuf ?vs)"
      using Map.prems by (simp add: keybuf_Map)
    have "uint (word_of_nat (length es) :: u64) = int (length es)"
      using Map.prems by (simp add: unsigned_of_nat take_bit_nat_eq_self)
    then show "5 = (4 :: u8) \<and> word_of_nat (length es) = (word_of_nat (length ?vs) :: u64)
      \<or> (5 :: u8) = 5 \<and> 2 * word_of_nat (length es) = (word_of_nat (length ?vs) :: u64)
         \<and> 2 * uint (word_of_nat (length es) :: u64) < 2 ^ 64"
      using Map.prems by (simp add: len)
    fix v
    assume "v \<in> set ?vs"
    then obtain e where e: "e \<in> set es" and v: "v = fst e \<or> v = snd e"
      by auto
    then have "vdepth v < vdepth (Map es)"
      using vdepth_Map_le [of es "vdepth (Map es)"] by auto
    then show "framed (Suc k) v"
      using Map.IH [OF e] Map.prems e v by (auto simp: list_all_iff)
  qed (use Map.prems len in auto)
next
  case (Bool b)
  then show ?case
    using framed_simple [of "Bool b" "if b then 21 else 20"] by (simp add: simple_heads)
next
  case Null
  then show ?case
    using framed_simple [of Null 22] by (simp add: simple_heads)
qed (auto intro: framed_scalar framed_string)

text \<open>The item at the head of a stream, and the end of the stream.\<close>

lemma read_item_streams:
  assumes "canonical v" and "modest v" and "vdepth v < 63" and "streams es (keybuf v @ rest)"
  shows "\<exists>es'. read_item es = Inr (Some (keybuf v), es') \<and> streams es' rest"
proof -
  have "framed 0 v"
    using assms by (intro framed_value) simp_all
  then obtain es' where "streams es' rest"
      and "read_item_loop es [1] True [] = read_item_loop es' [1 - 1] False ([] @ keybuf v)"
    using assms(4) unfolding framed_def by (metis list.size(3) zero_neq_one)
  then show ?thesis
    by (auto simp: read_item_def read_item_loop.simps(2))
qed

lemma read_item_end: "streams es [] \<Longrightarrow> read_item es = Inr (None, es)"
  using stream_read_eof [of es] by (auto simp: read_item_def read_item_loop.simps(2))

end
