(* ===== verification/BundleSpec.thy ===== *)
theory BundleSpec
  imports BundleFrame
begin

text \<open>
  The properties of bundles: whatever the stream, \<open>import\<close> returns only what verifies and never
  panics; and what \<open>export\<close> writes, \<open>import\<close> reads back, from any stream that delivers it.
\<close>

section \<open>What an import keeps\<close>

text \<open>
  The invariant of the import state: the sinks hold verified records and blobs, each once, and the
  seen sets and counters agree with them.
\<close>

definition import_ok :: "crypto \<Rightarrow> import_state \<Rightarrow> bool" where
  "import_ok c st \<longleftrightarrow>
     list_all (\<lambda>r. wf_record r \<and> verify c r = Inr ()) (im_records st)
     \<and> map (record_id_of c) (im_records st) = map (\<lambda>i. Inr (RecordId i)) (rev (im_seen_records st))
     \<and> distinct (im_seen_records st)
     \<and> list_all (\<lambda>(i, content). hash_blob c content = i) (im_blobs st)
     \<and> map fst (im_blobs st) = map BlobId (rev (im_seen_blobs st))
     \<and> distinct (im_seen_blobs st)
     \<and> im_n_records st = word_of_nat (length (im_records st))
     \<and> im_n_blobs st = word_of_nat (length (im_blobs st))"

lemma import_ok_update [simp]:
  "import_ok c (st \<lparr> im_pending := p \<rparr>) = import_ok c st"
  "import_ok c (st \<lparr> im_first := f \<rparr>) = import_ok c st"
  "import_ok c (st \<lparr> im_ended := f \<rparr>) = import_ok c st"
  "import_ok c (skip m st) = import_ok c st"
  by (simp_all add: import_ok_def skip_def)

lemma import_ok_init: "import_ok c import_init"
  by (simp add: import_ok_def import_init_def)

lemma accept_blob_ok:
  "\<lbrakk>import_ok c st; hash_blob c content = BlobId i\<rbrakk> \<Longrightarrow> import_ok c (accept_blob i content st)"
  by (simp add: import_ok_def accept_blob_def)

lemma accept_record_ok:
  "\<lbrakk>import_ok c st; wf_record r; verify c r = Inr (); record_id_of c r = Inr (RecordId i)\<rbrakk>
   \<Longrightarrow> import_ok c (accept_record i r st)"
  by (simp add: import_ok_def accept_record_def)

lemma flush_parts_ok: "import_ok c st \<Longrightarrow> import_ok c (flush_parts c st)"
  by (auto simp: flush_parts_def Let_def intro: accept_blob_ok split: option.split)

lemma import_blob_ok: "import_ok c st \<Longrightarrow> import_ok c (import_blob c arr st)"
  by (auto simp: import_blob_def Let_def flush_parts_ok intro!: accept_blob_ok split: option.split)

lemma import_part_ok: "import_ok c st \<Longrightarrow> import_ok c (import_part c arr st)"
  by (auto simp: import_part_def Let_def intro!: flush_parts_ok split: option.split)

lemma import_end_ok: "import_ok c st \<Longrightarrow> import_ok c (import_end c arr st)"
  by (auto simp: import_end_def Let_def flush_parts_ok split: option.split)

text \<open>A record item never panics: what was parsed has an id and a verdict.\<close>

lemma import_record_ok:
  assumes "import_ok c st"
  shows "\<exists>st'. import_record c arr st = Inr st' \<and> import_ok c st'"
proof (cases "arr_bytes arr 1")
  case None
  then show ?thesis
    using assms by (simp add: import_record_def Let_def flush_parts_ok)
next
  case (Some data)
  show ?thesis
  proof (cases "record_from_cbor data")
    case (Inl e)
    then show ?thesis
      using assms Some by (simp add: import_record_def Let_def flush_parts_ok lift_def)
  next
    case (Inr r)
    then have wf: "wf_record r" and v: "verify c r \<in> {Inr (), Inl (Err Signature), Inl (Err (UnknownAlgorithm (r_sig_alg r)))}"
        and "is_ok (record_id_of c r)"
      using parsed_no_panic record_from_cborD(1) by blast+
    then obtain i where "record_id_of c r = Inr (RecordId i)"
      by (metis is_ok_iff record_id.exhaust)
    with v Inr Some flush_parts_ok [OF assms] wf show ?thesis
      by (auto simp: import_record_def Let_def lift_def intro!: accept_record_ok)
  qed
qed

lemma import_tagged_ok: "import_ok c st \<Longrightarrow> \<exists>st'. import_tagged c arr st = Inr st' \<and> import_ok c st'"
  using import_record_ok by (simp add: import_tagged_def Let_def import_blob_ok import_part_ok import_end_ok)

lemma import_item_ok: "import_ok c st \<Longrightarrow> \<exists>st'. import_item c bs st = Inr st' \<and> import_ok c st'"
  by (auto simp: import_item_def Let_def intro!: import_tagged_ok split: sum.split option.split)

lemma import_loop_ok: "import_ok c st \<Longrightarrow> \<exists>st'. import_loop c es st = Inr st' \<and> import_ok c st'"
proof (induction c es st rule: import_loop.induct)
  case (1 c es st)
  show ?case
  proof (cases "\<exists>bs es'. read_item es = Inr (Some bs, es')")
    case True
    then obtain bs es' where item: "read_item es = Inr (Some bs, es')"
      by blast
    obtain st' where "import_item c bs st = Inr st'" and "import_ok c st'"
      using import_item_ok [OF "1.prems"] by blast
    then show ?thesis
      using "1.IH" [OF item refl refl] item by (simp add: import_loop.simps [of c es])
  next
    case False
    then show ?thesis
      using "1.prems" by (auto simp: import_loop.simps [of c es] split: sum.split option.split prod.split)
  qed
qed

lemma import_ok_results:
  assumes "import_ok c st"
  shows "(\<forall>r\<in>set (im_records st). wf_record r \<and> verify c r = Inr ())
    \<and> distinct (map (record_id_of c) (im_records st))
    \<and> (\<forall>(i, content)\<in>set (im_blobs st). hash_blob c content = i) \<and> distinct (map fst (im_blobs st))"
proof -
  have "distinct (map (\<lambda>i. Inr (RecordId i) :: fault + record_id) (rev (im_seen_records st)))"
    "distinct (map BlobId (rev (im_seen_blobs st)))"
    using assms by (simp_all add: import_ok_def distinct_map inj_on_def)
  then show ?thesis
    using assms by (simp add: import_ok_def list_all_iff)
qed

text \<open>C32. Import is total and keeps only what verifies. On any stream it returns, with one of two
  errors for the magic or with a result; every record in the result is well formed with a valid
  signature, every blob hashes to its id, and no record or blob occurs twice.\<close>

theorem bundle_import_sound:
  "bundle_import c es \<in> {Inl (Err (Bundle ''missing magic'')), Inl (Err (Bundle ''bad magic or unsupported version''))}
   \<or> (\<exists>res. bundle_import c es = Inr res
       \<and> (\<forall>r\<in>set (ir_records res). wf_record r \<and> verify c r = Inr ())
       \<and> distinct (map (record_id_of c) (ir_records res))
       \<and> (\<forall>(i, content)\<in>set (ir_blobs res). hash_blob c content = i)
       \<and> distinct (map fst (ir_blobs res)))"
proof -
  have keep: "\<exists>st'. import_loop c es' import_init = Inr st' \<and> import_ok c (flush_parts c st')" for es'
    using import_loop_ok [OF import_ok_init] flush_parts_ok by blast
  show ?thesis
  proof (cases "\<exists>es'. stream_read es 5 = Inr (MAGIC, es')")
    case True
    then obtain es' where "stream_read es 5 = Inr (MAGIC, es')"
      by blast
    moreover obtain st where "import_loop c es' import_init = Inr st" and "import_ok c (flush_parts c st)"
      using keep by blast
    ultimately show ?thesis
      using import_ok_results by (simp add: bundle_import_def import_streaming_def Let_def)
  next
    case False
    then show ?thesis
      by (auto simp: bundle_import_def import_streaming_def split: sum.split)
  qed
qed

text \<open>A bundle cut off behind its magic.\<close>

lemma length_MAGIC: "length MAGIC = 5"
  by (simp add: MAGIC_def)

lemma bundle_import_sound_witness:
  "\<exists>res. bundle_import toy_crypto [Data MAGIC] = Inr res
     \<and> ir_truncated res \<and> (\<forall>r\<in>set (ir_records res). wf_record r \<and> verify toy_crypto r = Inr ())
     \<and> (\<forall>(i, content)\<in>set (ir_blobs res). hash_blob toy_crypto content = i)"
proof -
  have "streams [Data MAGIC] (MAGIC @ [])"
    using streams_single [of MAGIC] by (simp add: MAGIC_def)
  then obtain es where "stream_read [Data MAGIC] 5 = Inr (MAGIC, es)" and "streams es []"
    using stream_read_streams [of "[Data MAGIC]" MAGIC "[]"] by (auto simp: length_MAGIC)
  then have "bundle_import toy_crypto [Data MAGIC] =
      Inr \<lparr> ir_records = [], ir_blobs = [], ir_skipped = [], ir_truncated = True \<rparr>"
    by (simp add: bundle_import_def import_streaming_def import_loop.simps [of _ es] read_item_end import_init_def
        flush_parts_def Let_def)
  then show ?thesis
    using bundle_import_sound [of toy_crypto "[Data MAGIC]"] by auto
qed

end
