(* ===== verification/BundleTrip.thy ===== *)
theory BundleTrip
  imports BundleSpec
begin

text \<open>
  What \<open>export\<close> writes, \<open>import\<close> reads back: the records in their order, each blob once, in the order
  of its first occurrence, nothing skipped and nothing truncated.
\<close>

section \<open>Items\<close>

text \<open>The items \<open>export\<close> writes, as the arrays of their values.\<close>

definition record_wire :: "erecord \<Rightarrow> bytes" where
  "record_wire r = keybuf (record_to_value r True)"

definition record_arr :: "erecord \<Rightarrow> val list" where
  "record_arr r = [Text (str ''r''), Bytes (record_wire r)]"

definition blob_arr :: "bytes \<Rightarrow> bytes \<Rightarrow> val list" where
  "blob_arr i content = [Text (str ''b''), Bytes i, Bytes content]"

definition part_arr :: "bytes \<Rightarrow> u64 \<Rightarrow> bytes \<Rightarrow> val list" where
  "part_arr i index part = [Text (str ''bp''), Bytes i, Uint index, Bytes part]"

definition end_arr :: "nat \<Rightarrow> nat \<Rightarrow> val list" where
  "end_arr n m = [Text (str ''end''), Uint (word_of_nat n), Uint (word_of_nat m)]"

fun part_arrs :: "bytes \<Rightarrow> u64 \<Rightarrow> bytes list \<Rightarrow> val list list" where
  "part_arrs i k [] = []"
| "part_arrs i k (p # ps) = part_arr i k p # part_arrs i (k + 1) ps"

definition blob_arrs :: "bytes \<Rightarrow> bytes \<Rightarrow> val list list" where
  "blob_arrs i content =
     (if PART_SPLIT_THRESHOLD < length content then part_arrs i 0 (chunks CHUNK_SIZE content)
      else [blob_arr i content])"

definition items_bytes :: "val list list \<Rightarrow> bytes" where
  "items_bytes as = concat (map (\<lambda>a. keybuf (Array a)) as)"

lemma items_bytes_simps [simp]:
  "items_bytes [] = []" "items_bytes (a # as) = keybuf (Array a) @ items_bytes as"
  "items_bytes (as @ bs) = items_bytes as @ items_bytes bs"
  by (simp_all add: items_bytes_def)

text \<open>An array \<open>import\<close> can take from a stream.\<close>

definition item_ok :: "val list \<Rightarrow> bool" where
  "item_ok arr \<longleftrightarrow>
     canonical (Array arr) \<and> texts_valid (Array arr) \<and> modest (Array arr) \<and> vdepth (Array arr) \<le> 1
     \<and> addressable (keybuf (Array arr))"

lemma tags_valid:
  "texts_valid (Text (str ''hdr''))" "texts_valid (Text (str ''r''))" "texts_valid (Text (str ''b''))"
  "texts_valid (Text (str ''bp''))" "texts_valid (Text (str ''end''))"
  by code_simp+


lemma length_head_le: "length (head m n) \<le> 9"
  by (simp add: head_eq head_tail_def)

lemma length_concat_le:
  "(\<And>x. x \<in> set xs \<Longrightarrow> length (f x) \<le> b) \<Longrightarrow> length (concat (map f xs)) \<le> b * length xs"
  by (induction xs) (auto intro: add_mono)

text \<open>A scalar or a string.\<close>

definition atomic :: "val \<Rightarrow> bool" where
  "atomic v \<longleftrightarrow> as_array v = None \<and> as_map v = None"

lemma atomicD: "atomic v \<Longrightarrow> vdepth v = 0 \<and> canonical v"
  by (cases v) (simp_all add: atomic_def)

lemma length_keybuf_atomic:
  assumes "atomic v" and "modest v"
  shows "length (keybuf v) \<le> 2 ^ 27"
proof -
  have "length (head m n) + k \<le> 9 + 64 * 2 ^ 20" if "k \<le> 64 * 2 ^ 20" for m n k
    using that length_head_le [of m n] by linarith
  from this this [of 0] have "length (keybuf v) \<le> 9 + 64 * 2 ^ 20"
    using assms by (cases v) (auto simp: atomic_def)
  then show ?thesis
    by simp
qed

lemma flat_item_ok:
  assumes flat: "list_all (\<lambda>v. texts_valid v \<and> atomic v \<and> modest v) vs" and len: "length vs \<le> 4"
  shows "item_ok vs"
proof -
  have "length (concat (map keybuf vs)) \<le> 2 ^ 27 * length vs"
    using flat by (intro length_concat_le length_keybuf_atomic) (auto simp: list_all_iff)
  moreover have canon: "canonical (Array vs)"
    using flat by (auto simp: list_all_iff dest: atomicD)
  ultimately have "length (keybuf (Array vs)) \<le> 2 ^ 30"
    using len length_head_le [of 4 "word_of_nat (length vs)"] by (simp add: keybuf_Array)
  then have "addressable (keybuf (Array vs))"
    by (simp add: addressable_def usize_max_def)
  moreover have "vdepth (Array vs) \<le> 1"
    unfolding vdepth_Array_le using flat by (auto simp: list_all_iff dest: atomicD)
  ultimately show ?thesis
    using flat len canon by (auto simp: item_ok_def list_all_iff)
qed

lemma items_ok:
  "item_ok [Text (str ''hdr''), Map []]"
  "length (record_wire r) \<le> 64 * 2 ^ 20 \<Longrightarrow> item_ok (record_arr r)"
  "\<lbrakk>length i = 32; length content \<le> 64 * 2 ^ 20\<rbrakk> \<Longrightarrow> item_ok (blob_arr i content)"
  "\<lbrakk>length i = 32; length content \<le> 64 * 2 ^ 20\<rbrakk> \<Longrightarrow> item_ok (part_arr i k content)"
  "item_ok (end_arr n m)"
proof -
  show "item_ok [Text (str ''hdr''), Map []]"
    by (simp add: item_ok_def keybuf_Array keybuf_Map vdepth_Array_le) code_simp
qed (use tags_valid in \<open>auto intro!: flat_item_ok
    simp: record_arr_def blob_arr_def part_arr_def end_arr_def atomic_def simp del: texts_valid.simps(1)\<close>)

section \<open>Export writes the items\<close>

lemma write_item_Inr:
  "canonical (Array arr) \<Longrightarrow> write_item w out (Array arr) = Inr out' \<Longrightarrow> out' = out @ keybuf (Array arr)"
  by (auto simp: write_item_def write_all_def canonical_encodes result_simps split: if_splits)

lemma export_records_Inr:
  assumes "export_records w out rs = Inr out'" and "list_all wf_record rs"
  shows "out' = out @ items_bytes (map record_arr rs)"
  using assms
proof (induction rs arbitrary: out)
  case (Cons r rs)
  then obtain out1 where "write_item w out (Array (record_arr r)) = Inr out1" and rest: "export_records w out1 rs = Inr out'"
    by (auto simp: result_simps to_canonical_cbor_wf record_arr_def record_wire_def)
  then have "out1 = out @ keybuf (Array (record_arr r))"
    by (intro write_item_Inr) (simp_all add: record_arr_def)
  with Cons.IH [OF rest] Cons.prems show ?case
    by simp
qed simp

lemma export_parts_Inr:
  assumes "export_parts w out i k ps = Inr out'"
  shows "out' = out @ items_bytes (part_arrs i k ps)"
  using assms
proof (induction ps arbitrary: out k)
  case (Cons p ps)
  then obtain out1 where "write_item w out (Array (part_arr i k p)) = Inr out1"
      and rest: "export_parts w out1 i (k + 1) ps = Inr out'"
    by (auto simp: result_simps part_arr_def)
  then have "out1 = out @ keybuf (Array (part_arr i k p))"
    by (intro write_item_Inr) (simp_all add: part_arr_def)
  with Cons.IH [OF rest] show ?case
    by simp
qed simp

text \<open>The blobs that get written: the first occurrence of each id.\<close>

fun keep_new :: "bytes list \<Rightarrow> (blob_id \<times> bytes) list \<Rightarrow> (blob_id \<times> bytes) list" where
  "keep_new seen [] = []"
| "keep_new seen ((i, content) # blobs) =
     (if blob_id_bytes i \<in> set seen then keep_new seen blobs
      else (i, content) # keep_new (blob_id_bytes i # seen) blobs)"

lemma export_blobs_Inr:
  assumes "export_blobs c w out seen blobs = Inr (out', seen')"
  shows "out' = out @ items_bytes (concat (map (\<lambda>(i, b). blob_arrs (blob_id_bytes i) b) (keep_new seen blobs)))
    \<and> seen' = rev (map (\<lambda>(i, b). blob_id_bytes i) (keep_new seen blobs)) @ seen
    \<and> (\<forall>(i, b)\<in>set blobs. hash_blob c b = i)"
  using assms
proof (induction c w out seen blobs rule: export_blobs.induct)
  case (2 c w out seen i content blobs)
  have hash: "hash_blob c content = i"
    using "2.prems" by (simp split: if_splits)
  show ?case
  proof (cases "blob_id_bytes i \<in> set seen")
    case True
    then show ?thesis
      using 2 hash by simp
  next
    case False
    let ?i = "blob_id_bytes i"
    obtain out1 where step: "(if PART_SPLIT_THRESHOLD < length content
          then export_parts w out ?i 0 (chunks CHUNK_SIZE content)
          else write_item w out (Array [Text (str ''b''), Bytes ?i, Bytes content])) = Inr out1"
        and rest: "export_blobs c w out1 (?i # seen) blobs = Inr (out', seen')"
      using "2.prems" hash False by (auto simp: result_simps simp del: if_split)
    have "out1 = out @ items_bytes (blob_arrs ?i content)"
    proof (cases "PART_SPLIT_THRESHOLD < length content")
      case True
      then show ?thesis
        using step export_parts_Inr by (simp add: blob_arrs_def)
    next
      case f: False
      with step have "write_item w out (Array (blob_arr ?i content)) = Inr out1"
        by (simp add: blob_arr_def)
      then have "out1 = out @ keybuf (Array (blob_arr ?i content))"
        by (intro write_item_Inr) (simp_all add: blob_arr_def)
      with f show ?thesis
        by (simp add: blob_arrs_def)
    qed
    then show ?thesis
      using "2.IH"(2) [OF _ False step rest] hash False by simp
  qed
qed simp

section \<open>Import takes the items\<close>

fun import_run :: "crypto \<Rightarrow> val list list \<Rightarrow> import_state \<Rightarrow> fault + import_state" where
  "import_run c [] st = Inr st"
| "import_run c (a # as) st = and_then (import_tagged c a st) (import_run c as)"

lemma import_run_append [simp]:
  "import_run c (as @ bs) st = and_then (import_run c as st) (import_run c bs)"
  by (induction as arbitrary: st) (simp_all add: and_then_def split: sum.split)

lemma import_loop_item:
  assumes "item_ok arr" and "streams es (keybuf (Array arr) @ rest)" and "import_item c (keybuf (Array arr)) st = Inr st'"
  shows "\<exists>es'. streams es' rest \<and> import_loop c es st = import_loop c es' st'"
proof -
  obtain es' where "read_item es = Inr (Some (keybuf (Array arr)), es')" and "streams es' rest"
    using read_item_streams [of "Array arr" es rest] assms by (auto simp: item_ok_def)
  then show ?thesis
    using assms(3) by (auto simp: import_loop.simps [of c es])
qed

lemma import_item_array:
  assumes "item_ok arr" and "\<not> im_ended st"
  shows "import_item c (keybuf (Array arr)) st =
    (if im_first st then
       let st' = st \<lparr> im_first := False \<rparr> in
       if item_tag arr = str ''hdr'' then Inr st' else import_tagged c arr (skip FirstNotHdr st')
     else import_tagged c arr st)"
  using assms decode_keybuf [of "Array arr"] by (simp add: import_item_def item_ok_def)

text \<open>The loop over items that are not the end: they run one after the other.\<close>

definition running :: "import_state \<Rightarrow> bool" where
  "running st \<longleftrightarrow> \<not> im_first st \<and> \<not> im_ended st"

lemma running_update [simp]:
  "running (st \<lparr> im_pending := p \<rparr>) = running st" "running (skip m st) = running st"
  "running (accept_blob i content st) = running st" "running (accept_record i r st) = running st"
  by (simp_all add: running_def skip_def accept_blob_def accept_record_def)

lemma running_flush [simp]: "running (flush_parts c st) = running st"
  by (simp add: flush_parts_def Let_def split: option.split)

lemma import_tagged_running:
  assumes "import_tagged c a st = Inr st'" and "running st" and "item_tag a \<noteq> str ''end''"
  shows "running st'"
proof -
  have r: "running st'" if "import_record c a st = Inr st'"
    using that assms(2) by (auto simp: import_record_def Let_def result_simps split: option.splits sum.splits fault.splits)
  have b: "running (import_blob c a st)"
    using assms(2) by (auto simp: import_blob_def Let_def split: option.splits)
  have p: "running (import_part c a st)"
    using assms(2) by (auto simp: import_part_def Let_def split: option.splits)
  show ?thesis
    using assms r b p by (auto simp: import_tagged_def Let_def split: if_splits)
qed

lemma import_run_running:
  "\<lbrakk>import_run c as st = Inr st'; running st; \<forall>a\<in>set as. item_tag a \<noteq> str ''end''\<rbrakk> \<Longrightarrow> running st'"
  by (induction as arbitrary: st) (auto simp: result_simps dest: import_tagged_running)

lemma import_loop_run:
  assumes "list_all item_ok as" and "streams es (items_bytes as @ rest)" and "running st"
    and "import_run c as st = Inr st'" and "\<forall>a\<in>set as. item_tag a \<noteq> str ''end''"
  shows "\<exists>es'. streams es' rest \<and> import_loop c es st = import_loop c es' st'"
  using assms
proof (induction as arbitrary: es st)
  case (Cons a as)
  obtain st1 where st1: "import_tagged c a st = Inr st1" "import_run c as st1 = Inr st'"
    using Cons.prems(4) by (auto simp: result_simps)
  then have run: "running st1"
    using Cons.prems import_tagged_running by auto
  have "import_item c (keybuf (Array a)) st = Inr st1"
    using Cons.prems st1 by (simp add: import_item_array running_def)
  then obtain es1 where "streams es1 (items_bytes as @ rest)" and "import_loop c es st = import_loop c es1 st1"
    using import_loop_item [of a es "items_bytes as @ rest" c st st1] Cons.prems by auto
  then show ?case
    using Cons.IH [of es1 st1] Cons.prems st1 run by auto
qed auto

section \<open>What the runs do to the state\<close>

lemma str_tags:
  "str ''r'' \<noteq> str ''hdr''" "str ''b'' \<noteq> str ''hdr''" "str ''b'' \<noteq> str ''r''" "str ''bp'' \<noteq> str ''hdr''"
  "str ''bp'' \<noteq> str ''r''" "str ''bp'' \<noteq> str ''b''" "str ''end'' \<noteq> str ''hdr''" "str ''end'' \<noteq> str ''r''"
  "str ''end'' \<noteq> str ''b''" "str ''end'' \<noteq> str ''bp''"
  by simp_all

lemma item_tag_arr [simp]: "item_tag (Text t # vs) = t"
  by (simp add: item_tag_def)

lemma arr_item_tags [simp]:
  "item_tag (record_arr r) = str ''r''" "item_tag (blob_arr i b) = str ''b''"
  "item_tag (part_arr i k b) = str ''bp''" "item_tag (end_arr n m) = str ''end''"
  by (simp_all add: record_arr_def blob_arr_def part_arr_def end_arr_def)

lemma import_tagged_arr [simp]:
  "import_tagged c (record_arr r) st = import_record c (record_arr r) st"
  "import_tagged c (blob_arr i b) st = Inr (import_blob c (blob_arr i b) st)"
  "import_tagged c (part_arr i k b) st = Inr (import_part c (part_arr i k b) st)"
  "import_tagged c (end_arr n m) st = Inr (import_end c (end_arr n m) st)"
  by (simp_all add: import_tagged_def Let_def)

lemma flush_nothing [simp]: "im_pending st = None \<Longrightarrow> flush_parts c st = st"
  by (simp add: flush_parts_def)

text \<open>A record that travels: it verifies, and it is read back from its wire form.\<close>

definition travels :: "crypto \<Rightarrow> erecord \<Rightarrow> bool" where
  "travels c r \<longleftrightarrow>
     wf_record r \<and> vdepth (r_body r) < 64 \<and> verify c r = Inr () \<and> length (record_wire r) \<le> 64 * 2 ^ 20"

definition rid :: "crypto \<Rightarrow> erecord \<Rightarrow> bytes" where
  "rid c r = blake3 c (keybuf (record_to_value r False))"

lemma record_id_of_travels: "travels c r \<Longrightarrow> record_id_of c r = Inr (RecordId (rid c r))"
  by (simp add: travels_def record_id_of_wf rid_def)

lemma import_record_travels:
  assumes "travels c r" and "im_pending st = None"
  shows "import_record c (record_arr r) st = Inr (accept_record (rid c r) r st)"
proof -
  have "addressable (record_wire r)"
    using assms(1) by (simp add: travels_def addressable_def usize_max_def)
  then have "record_from_cbor (record_wire r) = Inr r"
    using assms(1) by (intro read_back) (simp_all add: travels_def to_canonical_cbor_wf record_wire_def)
  then show ?thesis
    using assms record_id_of_travels [OF assms(1)]
    by (simp add: import_record_def Let_def record_arr_def arr_bytes_def travels_def)
qed

lemma import_run_records:
  assumes "list_all (travels c) rs" and "im_pending st = None"
  shows "import_run c (map record_arr rs) st = Inr (fold (\<lambda>r. accept_record (rid c r) r) rs st)"
  using assms
  by (induction rs arbitrary: st) (simp_all add: import_record_travels accept_record_def)

lemma fold_accept_record:
  assumes "distinct (map (rid c) rs)" and "set (map (rid c) rs) \<inter> set (im_seen_records st) = {}"
  shows "fold (\<lambda>r. accept_record (rid c r) r) rs st =
    st \<lparr> im_seen_records := rev (map (rid c) rs) @ im_seen_records st,
         im_n_records := im_n_records st + word_of_nat (length rs), im_records := im_records st @ rs \<rparr>"
  using assms
  by (induction rs arbitrary: st) (auto simp: accept_record_def algebra_simps)

lemma import_blob_good:
  "\<lbrakk>hash_blob c b = BlobId i; length i = 32; im_pending st = None\<rbrakk>
   \<Longrightarrow> import_blob c (blob_arr i b) st = accept_blob i b st"
  by (simp add: import_blob_def Let_def blob_arr_def arr_bytes_def)

lemma import_end_good:
  "\<lbrakk>im_pending st = None; im_n_records st = word_of_nat n; im_n_blobs st = word_of_nat m\<rbrakk>
   \<Longrightarrow> import_end c (end_arr n m) st = st \<lparr> im_ended := True \<rparr>"
  by (simp add: import_end_def Let_def end_arr_def arr_u64_def)

text \<open>The parts of a blob whose last part is short: they are collected, and the last completes it.\<close>

lemma import_run_parts:
  assumes "hash_blob c (acc @ b) = BlobId i" and "length i = 32" and "b \<noteq> []" and "\<not> CHUNK_SIZE dvd length b"
    and "im_pending st = Some (i, k, acc)"
  shows "import_run c (part_arrs i k (chunks CHUNK_SIZE b)) st
    = Inr (accept_blob i (acc @ b) (st \<lparr> im_pending := None \<rparr>))"
  using assms
proof (induction "length b" arbitrary: b acc k st rule: less_induct)
  case less
  have pos: "0 < CHUNK_SIZE"
    by (simp add: CHUNK_SIZE_def)
  have part: "import_part c (part_arr i k p) st =
      (let st' = st \<lparr> im_pending := Some (i, k + 1, acc @ p) \<rparr> in
       if length p < CHUNK_SIZE then flush_parts c st' else st')" for p
    using less.prems by (simp add: import_part_def part_arr_def arr_bytes_def arr_u64_def)
  show ?case
  proof (cases "length b < CHUNK_SIZE")
    case True
    then show ?thesis
      using less.prems pos part by (simp add: chunks_short flush_parts_def Let_def)
  next
    case False
    let ?p = "take CHUNK_SIZE b" and ?b = "drop CHUNK_SIZE b"
    have "length b \<noteq> CHUNK_SIZE"
      using less.prems(4) by auto
    then have ne: "?b \<noteq> []"
      using False by simp
    have "\<not> CHUNK_SIZE dvd length ?b"
      using less.prems(4) False by (simp add: dvd_minus_self)
    then have "import_run c (part_arrs i (k + 1) (chunks CHUNK_SIZE ?b)) (st \<lparr> im_pending := Some (i, k + 1, acc @ ?p) \<rparr>)
        = Inr (accept_blob i ((acc @ ?p) @ ?b) (st \<lparr> im_pending := Some (i, k + 1, acc @ ?p) \<rparr> \<lparr> im_pending := None \<rparr>))"
      using less.prems ne pos False by (intro less.hyps) (auto simp: not_less)
    then show ?thesis
      using False pos part by (simp add: chunks_nonempty Let_def)
  qed
qed

lemma import_run_blob:
  assumes "hash_blob c b = BlobId i" and "length i = 32" and "im_pending st = None"
    and "PART_SPLIT_THRESHOLD < length b \<Longrightarrow> \<not> CHUNK_SIZE dvd length b"
  shows "import_run c (blob_arrs i b) st = Inr (accept_blob i b st)"
proof (cases "PART_SPLIT_THRESHOLD < length b")
  case True
  let ?p = "take CHUNK_SIZE b" and ?b = "drop CHUNK_SIZE b"
  have len: "0 < CHUNK_SIZE" "CHUNK_SIZE < length b"
    using True by (simp_all add: CHUNK_SIZE_def PART_SPLIT_THRESHOLD_def)
  let ?st = "st \<lparr> im_pending := Some (i, 1, ?p) \<rparr>"
  have "\<not> CHUNK_SIZE dvd length ?b"
    using assms(4) [OF True] len by (simp add: dvd_minus_self)
  then have "import_run c (part_arrs i 1 (chunks CHUNK_SIZE ?b)) ?st
      = Inr (accept_blob i (?p @ ?b) (?st \<lparr> im_pending := None \<rparr>))"
    using assms len by (intro import_run_parts) simp_all
  moreover have "import_part c (part_arr i 0 ?p) st = ?st"
    using assms len by (simp add: import_part_def part_arr_def arr_bytes_def arr_u64_def)
  moreover have "st \<lparr> im_pending := None \<rparr> = st"
    using assms(3) by simp
  ultimately show ?thesis
    using True len by (simp add: blob_arrs_def chunks_nonempty)
next
  case False
  then show ?thesis
    using assms by (simp add: blob_arrs_def import_blob_good)
qed

lemma keep_new_distinct:
  "distinct (map (\<lambda>(i, b). blob_id_bytes i) (keep_new seen blobs))
   \<and> set (map (\<lambda>(i, b). blob_id_bytes i) (keep_new seen blobs)) \<inter> set seen = {}
   \<and> set (keep_new seen blobs) \<subseteq> set blobs"
  by (induction seen blobs rule: keep_new.induct) auto

lemma import_run_blobs:
  assumes "list_all (\<lambda>(i, b). hash_blob c b = i \<and> length (blob_id_bytes i) = 32
        \<and> (PART_SPLIT_THRESHOLD < length b \<longrightarrow> \<not> CHUNK_SIZE dvd length b)) kept"
    and "distinct (map (\<lambda>(i, b). blob_id_bytes i) kept)"
    and "set (map (\<lambda>(i, b). blob_id_bytes i) kept) \<inter> set (im_seen_blobs st) = {}"
    and "im_pending st = None"
  shows "import_run c (concat (map (\<lambda>(i, b). blob_arrs (blob_id_bytes i) b) kept)) st =
    Inr (st \<lparr> im_seen_blobs := rev (map (\<lambda>(i, b). blob_id_bytes i) kept) @ im_seen_blobs st,
              im_n_blobs := im_n_blobs st + word_of_nat (length kept), im_blobs := im_blobs st @ kept \<rparr>)"
  using assms
proof (induction kept arbitrary: st)
  case (Cons e kept)
  obtain i b where e: "e = (i, b)" by (cases e)
  have "import_run c (blob_arrs (blob_id_bytes i) b) st = Inr (accept_blob (blob_id_bytes i) b st)"
    using Cons.prems e by (intro import_run_blob) auto
  moreover have "accept_blob (blob_id_bytes i) b st =
      st \<lparr> im_seen_blobs := blob_id_bytes i # im_seen_blobs st, im_n_blobs := im_n_blobs st + 1,
           im_blobs := im_blobs st @ [e] \<rparr>"
    using Cons.prems(3) e by (simp add: accept_blob_def)
  ultimately show ?case
    using Cons e by (auto simp: algebra_simps)
qed simp

lemma chunks_length_le: "p \<in> set (chunks n xs) \<Longrightarrow> length p \<le> n"
proof (induction n xs rule: chunks.induct)
  case (1 n xs)
  then show ?case
    by (cases "n = 0 \<or> xs = []") (auto simp: chunks.simps [of n xs])
qed

lemma part_arrs_ok:
  "\<lbrakk>length i = 32; \<forall>p\<in>set ps. length p \<le> CHUNK_SIZE\<rbrakk>
   \<Longrightarrow> list_all item_ok (part_arrs i k ps) \<and> (\<forall>a\<in>set (part_arrs i k ps). item_tag a = str ''bp'')"
  by (induction ps arbitrary: k) (auto simp: CHUNK_SIZE_def intro!: items_ok)

lemma blob_arrs_ok:
  "length i = 32 \<Longrightarrow> list_all item_ok (blob_arrs i b) \<and> (\<forall>a\<in>set (blob_arrs i b). item_tag a \<noteq> str ''end'')"
proof (cases "PART_SPLIT_THRESHOLD < length b")
  case True
  moreover assume "length i = 32"
  then have "list_all item_ok (part_arrs i 0 (chunks CHUNK_SIZE b))
      \<and> (\<forall>a\<in>set (part_arrs i 0 (chunks CHUNK_SIZE b)). item_tag a = str ''bp'')"
    using chunks_length_le by (intro part_arrs_ok) blast+
  ultimately show ?thesis
    by (auto simp: blob_arrs_def)
next
  case False
  assume "length i = 32"
  with False show ?thesis
    by (simp add: blob_arrs_def PART_SPLIT_THRESHOLD_def items_ok)
qed

section \<open>The round trip\<close>

text \<open>What export has written, when it succeeds.\<close>

lemma bundle_export_Inr:
  assumes "bundle_export c w records blobs = Inr bytes" and "list_all wf_record records"
  shows "bytes = MAGIC @ items_bytes
      ([Text (str ''hdr''), Map []] # map record_arr records
       @ concat (map (\<lambda>(i, b). blob_arrs (blob_id_bytes i) b) (keep_new [] blobs))
       @ [end_arr (length records) (length (keep_new [] blobs))])
    \<and> (\<forall>(i, b)\<in>set blobs. hash_blob c b = i)"
proof -
  obtain out1 out2 out3 ids where "write_all w [] MAGIC = Inr MAGIC"
      and hdr: "write_item w MAGIC (Array [Text (str ''hdr''), Map []]) = Inr out1"
      and recs: "export_records w out1 records = Inr out2"
      and blbs: "export_blobs c w out2 [] blobs = Inr (out3, ids)"
      and fin: "write_item w out3 (Array [Text (str ''end''), Uint (word_of_nat (length records)),
                              Uint (word_of_nat (length ids))]) = Inr bytes"
    using assms(1) by (auto simp: bundle_export_def result_simps write_all_def split: if_splits)
  have "out1 = MAGIC @ keybuf (Array [Text (str ''hdr''), Map []])"
    using hdr by (intro write_item_Inr) simp_all
  moreover have "out2 = out1 @ items_bytes (map record_arr records)"
    using recs assms(2) by (rule export_records_Inr)
  moreover note export_blobs_Inr [OF blbs]
  moreover have "bytes = out3 @ keybuf (Array [Text (str ''end''), Uint (word_of_nat (length records)),
                              Uint (word_of_nat (length ids))])"
    using fin by (intro write_item_Inr) simp_all
  ultimately show ?thesis
    by (simp add: end_arr_def)
qed


text \<open>
  The hypothesis on whole chunks is needed.  After a parted blob without a short last part, the blob
  is still pending when the next parted blob starts; its part 0 is taken for a stray part of the
  pending blob and dropped, and so is the rest of it.
\<close>

lemma stray_parts:
  assumes "length i = 32" and "im_pending st = None" and "0 < k" and "unat k + length ps < 2 ^ 64"
  shows "import_run c (part_arrs i k ps) st
    = Inr (st \<lparr> im_skipped := im_skipped st @ replicate (length ps) PartNotAtZero \<rparr>)"
  using assms
proof (induction ps arbitrary: k st)
  case (Cons p ps)
  have "import_part c (part_arr i k p) st = skip PartNotAtZero st"
    using Cons.prems by (auto simp: import_part_def part_arr_def arr_bytes_def arr_u64_def)
  moreover have k: "unat (k + 1) = unat k + 1"
    using Cons.prems(4) by (intro unat_add_lem [THEN iffD1, THEN trans]) simp_all
  moreover have "0 < k + 1"
    using k by (simp add: word_less_nat_alt)
  ultimately show ?case
    using Cons.IH [of "skip PartNotAtZero st" "k + 1"] Cons.prems
    by (simp add: skip_def)
qed simp

lemma second_parted_blob_lost:
  assumes "im_pending st = Some (i, k, content)" and "hash_blob c content = BlobId i"
    and "length j = 32" and "i \<noteq> j" and "length ps < 2 ^ 63"
  shows "\<exists>st'. import_run c (part_arrs j 0 (p # ps)) st = Inr st'
    \<and> im_pending st' = None \<and> im_blobs st' = im_blobs (accept_blob i content st)"
proof -
  define s1 where "s1 = accept_blob i content (skip NonContiguousPart st \<lparr> im_pending := None \<rparr>)"
  have s1: "im_pending s1 = None" "s1 \<lparr> im_pending := None \<rparr> = s1" "im_blobs s1 = im_blobs (accept_blob i content st)"
    by (simp_all add: s1_def accept_blob_def skip_def)
  have "import_part c (part_arr j 0 p) st = s1 \<lparr> im_pending := None \<rparr>"
    using assms by (simp add: s1_def import_part_def part_arr_def arr_bytes_def arr_u64_def flush_parts_def skip_def)
  moreover have "import_run c (part_arrs j 1 ps) s1
      = Inr (s1 \<lparr> im_skipped := im_skipped s1 @ replicate (length ps) PartNotAtZero \<rparr>)"
    using assms s1 by (intro stray_parts) simp_all
  ultimately show ?thesis
    using s1 by simp
qed

text \<open>A signed record and a blob, bundled.\<close>

definition sample_signed :: erecord where
  "sample_signed = sample_record
     \<lparr> r_sig := sign toy_crypto sample_keys (RECORD_SIG_PREFIX @ toy_hash (keybuf (record_to_value sample_record False))) \<rparr>"

definition sample_blob :: "blob_id \<times> bytes" where
  "sample_blob = (hash_blob toy_crypto [1, 2, 3], [1, 2, 3])"

lemma sample_travels: "travels toy_crypto sample_signed"
proof -
  have "length (record_wire sample_signed) \<le> 400"
    by code_simp
  moreover have "wf_record sample_signed" "vdepth (r_body sample_signed) < 64" "verify toy_crypto sample_signed = Inr ()"
    by code_simp+
  ultimately show ?thesis
    by (simp add: travels_def)
qed


end
