(* ===== verification/Json.thy ===== *)
theory Json
  imports Codec Utf8 Ids
begin

unbundle bit_operations_syntax

text \<open>
  The JSON interchange form, \<open>crates/evermesh-kernel/src/codec.rs\<close> from \<open>hex_lower\<close> on: \<open>to_json\<close>
  renders a value, \<open>from_json\<close> is a hand-written parser.

  A Rust \<open>char\<close> is represented by its UTF-8 bytes, so \<open>s.chars()\<close> cuts a string into the byte strings
  of its characters and \<open>push\<close> appends one.  The parser's state is the list of characters left.
  \<open>{k:?}\<close>, the derived \<open>Debug\<close> rendering of a value, is the parameter \<open>dbg\<close>.
\<close>

section \<open>Characters\<close>

type_synonym chars = "bytes list"

function chars_of :: "bytes \<Rightarrow> chars" where
  "chars_of [] = []"
| "chars_of (b # bs) = (let w = max 1 (utf8_width b) in take w (b # bs) # chars_of (drop w (b # bs)))"
  by pat_completeness auto
termination
  by (relation "measure length") (auto simp: Let_def)

declare chars_of.simps(2) [simp del]

text \<open>\<open>char::from_u32\<close>, with the UTF-8 form of the character.\<close>

definition utf8_char :: "nat \<Rightarrow> bytes option" where
  "utf8_char n =
     (if n < 0x80 then Some [word_of_nat n]
      else if n < 0x800 then Some [word_of_nat (0xC0 + n div 64), word_of_nat (0x80 + n mod 64)]
      else if 0xD800 \<le> n \<and> n \<le> 0xDFFF then None
      else if n < 0x10000 then
        Some [word_of_nat (0xE0 + n div 4096), word_of_nat (0x80 + n div 64 mod 64), word_of_nat (0x80 + n mod 64)]
      else if n < 0x110000 then
        Some [word_of_nat (0xF0 + n div 262144), word_of_nat (0x80 + n div 4096 mod 64),
              word_of_nat (0x80 + n div 64 mod 64), word_of_nat (0x80 + n mod 64)]
      else None)"

definition is_ascii_digit :: "u8 \<Rightarrow> bool" where
  "is_ascii_digit b \<longleftrightarrow> 0x30 \<le> b \<and> b \<le> 0x39"

definition char_is_digit :: "bytes \<Rightarrow> bool" where
  "char_is_digit c = (case c of [b] \<Rightarrow> is_ascii_digit b | _ \<Rightarrow> False)"

abbreviation (input) "c_quote \<equiv> [0x22 :: u8]"
abbreviation (input) "c_comma \<equiv> [0x2C :: u8]"
abbreviation (input) "c_minus \<equiv> [0x2D :: u8]"
abbreviation (input) "c_colon \<equiv> [0x3A :: u8]"
abbreviation (input) "c_lbracket \<equiv> [0x5B :: u8]"
abbreviation (input) "c_backslash \<equiv> [0x5C :: u8]"
abbreviation (input) "c_rbracket \<equiv> [0x5D :: u8]"
abbreviation (input) "c_lbrace \<equiv> [0x7B :: u8]"
abbreviation (input) "c_rbrace \<equiv> [0x7D :: u8]"

section \<open>Rendering\<close>

definition HEX :: bytes where
  "HEX = str ''0123456789abcdef''"

definition hex_lower :: "bytes \<Rightarrow> bytes" where
  "hex_lower bs = concat (map (\<lambda>b. [HEX ! unat (drop_bit 4 b), HEX ! unat (b AND 0x0F)]) bs)"

definition hex_digit :: "u8 \<Rightarrow> error + u8" where
  "hex_digit b =
     (if 0x30 \<le> b \<and> b \<le> 0x39 then Inr (b - 0x30)
      else if 0x61 \<le> b \<and> b \<le> 0x66 then Inr (b - 0x61 + 10)
      else Inl (Cbor ''json: invalid hex digit''))"

fun decode_hex_pairs :: "bytes \<Rightarrow> error + bytes" where
  "decode_hex_pairs (h # l # rest) =
     and_then (hex_digit h) (\<lambda>hi. and_then (hex_digit l) (\<lambda>lo.
     and_then (decode_hex_pairs rest) (\<lambda>out. Inr ((push_bit 4 hi OR lo) # out))))"
| "decode_hex_pairs _ = Inr []"

definition decode_hex :: "bytes \<Rightarrow> error + bytes" where
  "decode_hex s =
     (if length s mod 2 \<noteq> 0 then Inl (Cbor ''json: odd-length hex string'') else decode_hex_pairs s)"

text \<open>\<open>to_string\<close> of an unsigned integer, and \<open>parse\<close> of a string of digits.\<close>

fun nat_decimal :: "nat \<Rightarrow> bytes" where
  "nat_decimal n = (if n < 10 then [word_of_nat (0x30 + n)]
     else nat_decimal (n div 10) @ [word_of_nat (0x30 + n mod 10)])"

declare nat_decimal.simps [simp del]

definition decimal_nat :: "bytes \<Rightarrow> nat" where
  "decimal_nat ds = foldl (\<lambda>n d. 10 * n + unat (d - 0x30)) 0 ds"

definition uint_decimal :: "u64 \<Rightarrow> bytes" where
  "uint_decimal n = nat_decimal (unat n)"

definition nint_decimal :: "u64 \<Rightarrow> bytes" where
  "nint_decimal n = [0x2D] @ nat_decimal (unat n + 1)"

definition bytes_json_string :: "bytes \<Rightarrow> bytes" where
  "bytes_json_string b = str ''hex:'' @ hex_lower b"

definition starts_with :: "bytes \<Rightarrow> bytes \<Rightarrow> bool" where
  "starts_with p s \<longleftrightarrow> strip_prefix p s \<noteq> None"

definition text_json_string :: "bytes \<Rightarrow> bytes" where
  "text_json_string s =
     (if starts_with (str ''hex:'') s \<or> starts_with (str ''txt:'') s then str ''txt:'' @ s else s)"

definition try_parse_int_key :: "bytes \<Rightarrow> val option" where
  "try_parse_int_key s =
     (let (negative, digits) = (case strip_prefix [0x2D] s of Some rest \<Rightarrow> (True, rest) | None \<Rightarrow> (False, s)) in
      if digits = [] \<or> \<not> list_all is_ascii_digit digits then None
      else if 1 < length digits \<and> starts_with [0x30] digits then None
      else if negative \<and> digits = [0x30] then None
      else
        let magnitude = decimal_nat digits in
        if 2 ^ 128 \<le> magnitude then None
        else if negative then
          (if 2 ^ 64 < magnitude then None else Some (Nint (word_of_nat (magnitude - 1))))
        else (if 2 ^ 64 \<le> magnitude then None else Some (Uint (word_of_nat magnitude))))"

definition key_json_string :: "(val \<Rightarrow> bytes) \<Rightarrow> val \<Rightarrow> bytes" where
  "key_json_string dbg k =
     (case k of
        Uint n \<Rightarrow> uint_decimal n
      | Nint n \<Rightarrow> nint_decimal n
      | Bytes b \<Rightarrow> bytes_json_string b
      | Text s \<Rightarrow>
          if starts_with (str ''hex:'') s \<or> starts_with (str ''txt:'') s \<or> try_parse_int_key s \<noteq> None
          then str ''txt:'' @ s else s
      | _ \<Rightarrow> str ''unsupported-key:'' @ dbg k)"

definition escape_char :: "bytes \<Rightarrow> bytes" where
  "escape_char c =
     (case c of
        [b] \<Rightarrow>
          if b = 0x22 then [0x5C, 0x22]
          else if b = 0x5C then [0x5C, 0x5C]
          else if b = 0x0A then [0x5C] @ str ''n''
          else if b = 0x0D then [0x5C] @ str ''r''
          else if b = 0x09 then [0x5C] @ str ''t''
          else if b = 0x08 then [0x5C] @ str ''b''
          else if b = 0x0C then [0x5C] @ str ''f''
          else if b < 0x20 then
            [0x5C] @ str ''u00'' @ hex_lower [b]
          else c
      | _ \<Rightarrow> c)"

definition push_json_escaped :: "bytes \<Rightarrow> bytes \<Rightarrow> bytes" where
  "push_json_escaped out s = out @ concat (map escape_char (chars_of s))"

text \<open>The loops of \<open>value_to_json\<close> put the comma before every element but the first.\<close>

fun value_to_json :: "(val \<Rightarrow> bytes) \<Rightarrow> val \<Rightarrow> bytes \<Rightarrow> bytes"
and items_to_json :: "(val \<Rightarrow> bytes) \<Rightarrow> bool \<Rightarrow> val list \<Rightarrow> bytes \<Rightarrow> bytes"
and entries_to_json :: "(val \<Rightarrow> bytes) \<Rightarrow> bool \<Rightarrow> (val \<times> val) list \<Rightarrow> bytes \<Rightarrow> bytes" where
  "value_to_json dbg (Uint n) out = out @ uint_decimal n"
| "value_to_json dbg (Nint n) out = out @ nint_decimal n"
| "value_to_json dbg (Bytes b) out = push_json_escaped (out @ c_quote) (bytes_json_string b) @ c_quote"
| "value_to_json dbg (Text s) out = push_json_escaped (out @ c_quote) (text_json_string s) @ c_quote"
| "value_to_json dbg (Array items) out = items_to_json dbg True items (out @ c_lbracket) @ c_rbracket"
| "value_to_json dbg (Map entries) out = entries_to_json dbg True entries (out @ c_lbrace) @ c_rbrace"
| "value_to_json dbg (Bool b) out = out @ (if b then str ''true'' else str ''false'')"
| "value_to_json dbg Null out = out @ str ''null''"
| "items_to_json dbg first [] out = out"
| "items_to_json dbg first (item # items) out =
     items_to_json dbg False items (value_to_json dbg item (if first then out else out @ c_comma))"
| "entries_to_json dbg first [] out = out"
| "entries_to_json dbg first ((k, v) # entries) out =
     (let out1 = (if first then out else out @ c_comma) @ c_quote;
          out2 = push_json_escaped out1 (key_json_string dbg k) @ c_quote @ c_colon
      in entries_to_json dbg False entries (value_to_json dbg v out2))"

definition to_json :: "(val \<Rightarrow> bytes) \<Rightarrow> val \<Rightarrow> bytes" where
  "to_json dbg v = value_to_json dbg v []"

section \<open>Parsing\<close>

definition string_value_from_json :: "bytes \<Rightarrow> error + val" where
  "string_value_from_json raw =
     (case strip_prefix (str ''hex:'') raw of
        Some hex \<Rightarrow> and_then (decode_hex hex) (\<lambda>b. Inr (Bytes b))
      | None \<Rightarrow>
          (case strip_prefix (str ''txt:'') raw of
             Some rest \<Rightarrow> Inr (Text rest)
           | None \<Rightarrow> Inr (Text raw)))"

definition key_value_from_json :: "bytes \<Rightarrow> error + val" where
  "key_value_from_json raw =
     (case try_parse_int_key raw of Some v \<Rightarrow> Inr v | None \<Rightarrow> string_value_from_json raw)"

definition peek_char :: "chars \<Rightarrow> bytes option" where
  "peek_char cs = (case cs of [] \<Rightarrow> None | c # _ \<Rightarrow> Some c)"

definition skip_ws :: "chars \<Rightarrow> chars" where
  "skip_ws cs = dropWhile (\<lambda>c. c \<in> {[0x20], [0x09], [0x0A], [0x0D]}) cs"

definition expect_char :: "bytes \<Rightarrow> chars \<Rightarrow> error + chars" where
  "expect_char c cs =
     (case cs of x # cs' \<Rightarrow> if x = c then Inr cs' else Inl (Cbor ''json: unexpected character'')
      | [] \<Rightarrow> Inl (Cbor ''json: unexpected character''))"

text \<open>\<open>to_digit(16)\<close> of a character.\<close>

definition char_digit16 :: "bytes \<Rightarrow> u8 option" where
  "char_digit16 c = (case c of [b] \<Rightarrow> to_digit16 b | _ \<Rightarrow> None)"

fun read_hex :: "nat \<Rightarrow> 16 word \<Rightarrow> chars \<Rightarrow> error + 16 word \<times> chars" where
  "read_hex 0 v cs = Inr (v, cs)"
| "read_hex (Suc n) v [] = Inl (Cbor ''json: truncated unicode escape'')"
| "read_hex (Suc n) v (c # cs) =
     and_then (ok_or (char_digit16 c) (Cbor ''json: invalid unicode escape'')) (\<lambda>d.
     read_hex n (v * 16 + ucast d) cs)"

definition read_hex4 :: "chars \<Rightarrow> error + 16 word \<times> chars" where
  "read_hex4 cs = read_hex 4 0 cs"

lemma read_hex_length: "read_hex n v cs = Inr (r, cs') \<Longrightarrow> length cs' + n = length cs"
  by (induction n v cs rule: read_hex.induct) (auto simp: result_simps)

text \<open>The escape behind \<open>\u\<close>.\<close>

definition unicode_escape :: "chars \<Rightarrow> error + bytes \<times> chars" where
  "unicode_escape cs =
     and_then (read_hex4 cs) (\<lambda>(cp, cs).
       if 0xD800 \<le> cp \<and> cp \<le> 0xDBFF then
         (case cs of
            x # y # cs' \<Rightarrow>
              if x \<noteq> c_backslash \<or> y \<noteq> [0x75] then Inl (Cbor ''json: lone surrogate'')
              else and_then (read_hex4 cs') (\<lambda>(low, cs'').
                if low < 0xDC00 \<or> 0xDFFF < low then Inl (Cbor ''json: invalid surrogate pair'')
                else
                  let combined = 0x10000 + push_bit 10 (ucast cp - 0xD800) + (ucast low - 0xDC00) :: 32 word in
                  and_then (ok_or (utf8_char (unat combined)) (Cbor ''json: invalid unicode scalar'')) (\<lambda>ch.
                  Inr (ch, cs'')))
          | _ \<Rightarrow> Inl (Cbor ''json: lone surrogate''))
       else if 0xDC00 \<le> cp \<and> cp \<le> 0xDFFF then Inl (Cbor ''json: lone surrogate'')
       else and_then (ok_or (utf8_char (unat cp)) (Cbor ''json: invalid unicode scalar'')) (\<lambda>ch. Inr (ch, cs)))"

lemma unicode_escape_length: "unicode_escape cs = Inr (r, cs') \<Longrightarrow> length cs' < length cs"
  by (auto simp: unicode_escape_def read_hex4_def result_simps Let_def split: if_splits list.splits
      dest!: read_hex_length)

function parse_string_raw :: "bytes \<Rightarrow> chars \<Rightarrow> error + bytes \<times> chars" where
  "parse_string_raw s [] = Inl (Cbor ''json: unterminated string'')"
| "parse_string_raw s (c # cs) =
     (if c = c_quote then Inr (s, cs)
      else if c = c_backslash then
        (case cs of
           [] \<Rightarrow> Inl (Cbor ''json: unterminated escape'')
         | esc # cs' \<Rightarrow>
             if esc = c_quote then parse_string_raw (s @ c_quote) cs'
             else if esc = c_backslash then parse_string_raw (s @ c_backslash) cs'
             else if esc = [0x2F] then parse_string_raw (s @ [0x2F]) cs'
             else if esc = str ''b'' then parse_string_raw (s @ [0x08]) cs'
             else if esc = str ''f'' then parse_string_raw (s @ [0x0C]) cs'
             else if esc = str ''n'' then parse_string_raw (s @ [0x0A]) cs'
             else if esc = str ''r'' then parse_string_raw (s @ [0x0D]) cs'
             else if esc = str ''t'' then parse_string_raw (s @ [0x09]) cs'
             else if esc = str ''u'' then
               and_then (unicode_escape cs') (\<lambda>(ch, cs''). parse_string_raw (s @ ch) cs'')
             else Inl (Cbor ''json: invalid escape sequence''))
      else if (case c of [b] \<Rightarrow> b < 0x20 | _ \<Rightarrow> False) then Inl (Cbor ''json: control character in string'')
      else parse_string_raw (s @ c) cs)"
  by pat_completeness auto
termination
  by (relation "measure (\<lambda>(s, cs). length cs)") (auto dest: unicode_escape_length)

declare parse_string_raw.simps [simp del]

fun parse_literal :: "bytes \<Rightarrow> val \<Rightarrow> chars \<Rightarrow> error + val \<times> chars" where
  "parse_literal [] v cs = Inr (v, cs)"
| "parse_literal (l # ls) v [] = Inl (Cbor ''json: invalid literal'')"
| "parse_literal (l # ls) v (c # cs) =
     (if c = [l] then parse_literal ls v cs else Inl (Cbor ''json: invalid literal''))"

definition parse_u64 :: "bytes \<Rightarrow> error + u64" where
  "parse_u64 digits =
     (if decimal_nat digits < 2 ^ 64 then Inr (word_of_nat (decimal_nat digits))
      else Inl (Cbor ''json: integer out of range''))"

definition parse_number :: "chars \<Rightarrow> error + val \<times> chars" where
  "parse_number cs =
     (let negative = peek_char cs = Some c_minus;
          cs1 = (if negative then tl cs else cs);
          digits = concat (takeWhile char_is_digit cs1);
          cs2 = dropWhile char_is_digit cs1
      in if digits = [] then Inl (Cbor ''json: invalid number'')
         else if peek_char cs2 \<in> {Some [0x2E], Some [0x65], Some [0x45]}
         then Inl (Cbor ''json: fractional or exponential numbers are not supported'')
         else if 1 < length digits \<and> starts_with [0x30] digits then Inl (Cbor ''json: leading zero in number'')
         else if negative then
           (if digits = [0x30] then Inl (Cbor ''json: negative zero not allowed'')
            else and_then (parse_u64 digits) (\<lambda>magnitude.
              if 9223372036854775808 < magnitude then Inl (Cbor ''json: integer out of range'')
              else Inr (Nint (magnitude - 1), cs2)))
         else and_then (parse_u64 digits) (\<lambda>magnitude. Inr (Uint magnitude, cs2)))"

text \<open>
  The recursive descent.  The loops of \<open>parse_array\<close> and \<open>parse_object\<close> are the functions
  \<open>json_items\<close> and \<open>json_entries\<close>; an opening bracket is consumed before a loop starts.
\<close>

lemma parse_string_raw_length: "parse_string_raw s cs = Inr (r, cs') \<Longrightarrow> length cs' < length cs"
proof (induction "length cs" arbitrary: s cs rule: less_induct)
  case less
  show ?case
  proof (cases cs)
    case (Cons c cs1)
    note run = less.prems [unfolded Cons parse_string_raw.simps]
    have step: "length cs' < length cs" if "parse_string_raw s' cs2 = Inr (r, cs')" "length cs2 < length cs" for s' cs2
      using less.hyps [OF that(2,1)] that(2) by simp
    consider (quote) "c = c_quote" | (plain) "c \<noteq> c_quote" "c \<noteq> c_backslash"
      | (escape) esc cs2 where "c = c_backslash" "cs1 = esc # cs2"
      using run by (cases cs1) (auto split: if_splits)
    then show ?thesis
    proof cases
      case quote
      then show ?thesis using run Cons by simp
    next
      case plain
      then have "parse_string_raw (s @ c) cs1 = Inr (r, cs')"
        using run by (simp split: if_splits)
      then show ?thesis
        using step Cons by simp
    next
      case escape
      then obtain s' cs3 where "parse_string_raw s' cs3 = Inr (r, cs')" and "length cs3 \<le> length cs2"
        using run unicode_escape_length
        by (simp split: if_splits) (fastforce simp: result_simps dest: unicode_escape_length)+
      then show ?thesis
        using step [of s' cs3] escape Cons by simp
    qed
  qed (use less.prems in \<open>simp add: parse_string_raw.simps\<close>)
qed

lemma skip_ws_length: "length (skip_ws cs) \<le> length cs"
  by (simp add: skip_ws_def length_dropWhile_le)

lemma parse_literal_length: "parse_literal l v cs = Inr (w, cs') \<Longrightarrow> length cs' + length l = length cs"
  by (induction l v cs rule: parse_literal.induct) (auto split: if_splits)

lemma parse_number_length:
  assumes "parse_number cs = Inr (w, cs')"
  shows "length cs' < length cs"
proof -
  let ?cs = "if peek_char cs = Some c_minus then tl cs else cs"
  have "concat (takeWhile char_is_digit ?cs) \<noteq> []" and rest: "cs' = dropWhile char_is_digit ?cs"
    using assms by (auto simp: parse_number_def Let_def result_simps split: if_splits)
  then have "takeWhile char_is_digit ?cs \<noteq> []"
    by fastforce
  then have "length cs' < length ?cs"
    using rest length_append [of "takeWhile char_is_digit ?cs" "dropWhile char_is_digit ?cs"] by simp
  then show ?thesis
    by (simp split: if_splits)
qed

definition expected_msg :: "char \<Rightarrow> string" where
  "expected_msg c = ''json: expected '' @ [CHR 0x27, CHR 0x2C, CHR 0x27] @ '' or '' @ [CHR 0x27, c, CHR 0x27]"

function (sequential) json_value :: "nat \<Rightarrow> chars \<Rightarrow> error + val \<times> chars"
and json_items :: "nat \<Rightarrow> val list \<Rightarrow> chars \<Rightarrow> error + val \<times> chars"
and json_entries :: "nat \<Rightarrow> (val \<times> val) list \<Rightarrow> chars \<Rightarrow> error + val \<times> chars" where
  "json_value depth cs0 =
     (if max_depth < depth then Inl (Cbor ''json: nesting depth exceeds limit'')
      else
        (case skip_ws cs0 of
           [] \<Rightarrow> Inl (Cbor ''json: unexpected character or end of input'')
         | c # cs \<Rightarrow>
             if c = c_lbrace then
               (let cs1 = skip_ws cs in
                if peek_char cs1 = Some c_rbrace then Inr (Map [], tl cs1) else json_entries depth [] cs1)
             else if c = c_lbracket then
               (let cs1 = skip_ws cs in
                if peek_char cs1 = Some c_rbracket then Inr (Array [], tl cs1) else json_items depth [] cs1)
             else if c = c_quote then
               and_then (parse_string_raw [] cs) (\<lambda>(raw, cs1).
               and_then (string_value_from_json raw) (\<lambda>v. Inr (v, cs1)))
             else if c = c_minus \<or> char_is_digit c then parse_number (c # cs)
             else if c = str ''t'' then parse_literal (str ''true'') (Bool True) (c # cs)
             else if c = str ''f'' then parse_literal (str ''false'') (Bool False) (c # cs)
             else if c = str ''n'' then parse_literal (str ''null'') Null (c # cs)
             else Inl (Cbor ''json: unexpected character or end of input'')))"
| "json_items depth items cs =
     and_then (json_value (depth + 1) cs) (\<lambda>(v, cs1).
       case skip_ws cs1 of
         c # cs2 \<Rightarrow>
           if c = c_comma then json_items depth (items @ [v]) (skip_ws cs2)
           else if c = c_rbracket then Inr (Array (items @ [v]), cs2)
           else Inl (Cbor (expected_msg CHR 0x5D))
       | [] \<Rightarrow> Inl (Cbor (expected_msg CHR 0x5D)))"
| "json_entries depth entries cs =
     and_then (expect_char c_quote (skip_ws cs)) (\<lambda>cs1.
     and_then (parse_string_raw [] cs1) (\<lambda>(raw_key, cs2).
     and_then (key_value_from_json raw_key) (\<lambda>key.
     and_then (expect_char c_colon (skip_ws cs2)) (\<lambda>cs3.
     and_then (json_value (depth + 1) cs3) (\<lambda>(v, cs4).
       if key \<in> fst ` set entries then Inl (Cbor ''json: duplicate object key'')
       else
         case skip_ws cs4 of
           c # cs5 \<Rightarrow>
             if c = c_comma then json_entries depth (entries @ [(key, v)]) cs5
             else if c = c_rbrace then Inr (Map (entries @ [(key, v)]), cs5)
             else Inl (Cbor (expected_msg CHR 0x7D))
         | [] \<Rightarrow> Inl (Cbor (expected_msg CHR 0x7D)))))))"
  by pat_completeness auto

text \<open>What is read gets shorter, which the loops need for their termination.\<close>

lemma peek_char_tl: "peek_char cs = Some c \<Longrightarrow> length (tl cs) < length cs"
  by (cases cs) (simp_all add: peek_char_def)

lemma expect_char_length: "expect_char c cs = Inr cs' \<Longrightarrow> length cs' < length cs"
  by (cases cs) (auto simp: expect_char_def split: if_splits)

lemma expect_ws_length: "expect_char c (skip_ws cs) = Inr cs' \<Longrightarrow> length cs' < length cs"
  using expect_char_length skip_ws_length order.strict_trans2 by blast

lemma skip_ws_Cons_length: "skip_ws cs = c # cs' \<Longrightarrow> length cs' < length cs"
  using skip_ws_length [of cs] by simp

lemma json_consumes:
  "json_value_json_items_json_entries_dom (Inl (d, cs)) \<Longrightarrow> json_value d cs = Inr (v, cs') \<Longrightarrow> length cs' < length cs"
  "json_value_json_items_json_entries_dom (Inr (Inl (d, vs, cs))) \<Longrightarrow> json_items d vs cs = Inr (v, cs') \<Longrightarrow> length cs' < length cs"
  "json_value_json_items_json_entries_dom (Inr (Inr (d, es, cs))) \<Longrightarrow> json_entries d es cs = Inr (v, cs') \<Longrightarrow> length cs' < length cs"
proof (induction d cs and d vs cs and d es cs arbitrary: v cs' and v cs' and v cs' rule: json_value_json_items_json_entries.pinduct)
  case (1 depth cs0)
  note run = "1.prems" [unfolded json_value.psimps [OF "1.hyps"]]
  then obtain c cs where c: "skip_ws cs0 = c # cs" and depth: "\<not> max_depth < depth"
    by (auto split: if_splits list.splits)
  have short: "length cs < length cs0" "length (skip_ws cs) \<le> length cs"
    using skip_ws_Cons_length [OF c] skip_ws_length by auto
  note run = run [unfolded if_not_P [OF depth] c list.case Let_def]
  show ?case
    using run short "1.IH" [OF depth c] skip_ws_length [of cs0] c
    by (force simp: result_simps split: if_splits
        dest: peek_char_tl parse_string_raw_length parse_number_length parse_literal_length)
next
  case (2 depth items cs)
  note run = "2.prems" [unfolded json_items.psimps [OF "2.hyps"]]
  then obtain w cs1 c cs2 where w: "json_value (depth + 1) cs = Inr (w, cs1)" and c: "skip_ws cs1 = c # cs2"
    by (auto simp: result_simps neq_Nil_conv split: list.split_asm)
  have short: "length cs1 < length cs" "length cs2 < length cs1" "length (skip_ws cs2) \<le> length cs2"
    using "2.IH"(1) [OF w] skip_ws_Cons_length [OF c] skip_ws_length by auto
  show ?case
    using run [unfolded w and_then_simps prod.case c list.case] short
      "2.IH"(2) [OF w refl c] by (force split: if_splits)
next
  case (3 depth entries cs)
  note run = "3.prems" [unfolded json_entries.psimps [OF "3.hyps"]]
  then obtain cs1 k cs2 key cs3 w cs4 c cs5 where read: "expect_char c_quote (skip_ws cs) = Inr cs1"
      "parse_string_raw [] cs1 = Inr (k, cs2)" "key_value_from_json k = Inr key"
      "expect_char c_colon (skip_ws cs2) = Inr cs3" "json_value (depth + 1) cs3 = Inr (w, cs4)"
    and new: "key \<notin> fst ` set entries" and c: "skip_ws cs4 = c # cs5"
    by (auto simp: result_simps neq_Nil_conv split: list.split_asm if_split_asm) metis
  have "length cs1 < length cs" "length cs2 < length cs1" "length cs3 < length cs2"
    using read expect_ws_length parse_string_raw_length by blast+
  moreover have "length cs4 < length cs3" "length cs5 < length cs4"
    using "3.IH"(1) [OF read(1,2) refl read(3,4,5)] skip_ws_Cons_length [OF c] by auto
  ultimately show ?case
    using run [unfolded read and_then_simps prod.case c list.case if_not_P [OF new]]
      "3.IH"(2) [OF read(1,2) refl read(3,4,5) refl new c] by (force split: if_splits)
qed

termination json_value
  by (relation "measures
        [\<lambda>x. case x of Inl (_, cs) \<Rightarrow> length cs | Inr (Inl (_, _, cs)) \<Rightarrow> length cs | Inr (Inr (_, _, cs)) \<Rightarrow> length cs,
         \<lambda>x. case x of Inl _ \<Rightarrow> 0 | Inr _ \<Rightarrow> 1]")
    (auto dest!: json_consumes expect_ws_length parse_string_raw_length skip_ws_Cons_length
      intro: le_less_trans [OF skip_ws_length])

declare json_value.simps [simp del] and json_items.simps [simp del] and json_entries.simps [simp del]

definition from_json :: "bytes \<Rightarrow> error + val" where
  "from_json s =
     and_then (json_value 0 (chars_of s)) (\<lambda>(value, cs).
       if peek_char (skip_ws cs) \<noteq> None then Inl (Cbor ''json: trailing data after value'') else Inr value)"

end
