(* ===== verification/JsonSpec.thy ===== *)
theory JsonSpec
  imports Json CodecLaws
begin

unbundle bit_operations_syntax

text \<open>
  The properties of the JSON form: what it can carry, that it is read back exactly, and that the
  parser yields nothing it could not carry.
\<close>

section \<open>Characters\<close>

definition char_ok :: "bytes \<Rightarrow> bool" where
  "char_ok c \<longleftrightarrow> utf8_valid c \<and> c \<noteq> [] \<and> length c = utf8_width (hd c)"

lemma utf8_width_cases: "utf8_width b \<in> {0, 1, 2, 3, 4}"
  by (simp add: utf8_width_def)

lemma utf8_width_1: "utf8_width b = Suc 0 \<longleftrightarrow> b \<le> 0x7F"
  by (simp add: utf8_width_def)

lemma concat_chars_of [simp]: "concat (chars_of s) = s"
  by (induction s rule: chars_of.induct) (simp_all add: chars_of.simps(2) Let_def)

text \<open>A valid string starts with a valid character.\<close>

lemma utf8_valid_Cons:
  "utf8_valid (b # r) \<longleftrightarrow>
     (let w = utf8_width b in
      1 \<le> w \<and> w \<le> length (b # r) \<and> utf8_valid (take w (b # r)) \<and> utf8_valid (drop w (b # r)))"
proof -
  consider "utf8_width b = 0" | "utf8_width b = 1" | "utf8_width b = 2" | "utf8_width b = 3" | "utf8_width b = 4"
    using utf8_width_cases [of b] by auto
  then show ?thesis
  proof cases
    case 3
    then show ?thesis
      by (cases r) (simp_all add: Let_def numeral_2_eq_2)
  next
    case 4
    then show ?thesis
      by (cases r; cases "tl r") (simp_all add: Let_def numeral_3_eq_3)
  next
    case 5
    then show ?thesis
      by (cases r; cases "tl r"; cases "tl (tl r)") (simp_all add: Let_def eval_nat_numeral)
  qed (simp_all add: Let_def)
qed

lemma utf8_valid_split:
  assumes "utf8_valid (b # r)"
  obtains c s where "b # r = c @ s" and "char_ok c" and "utf8_valid s" and "chars_of (b # r) = c # chars_of s"
proof -
  let ?w = "utf8_width b"
  have w: "1 \<le> ?w" "?w \<le> length (b # r)" "utf8_valid (take ?w (b # r))" "utf8_valid (drop ?w (b # r))"
    using assms by (simp_all only: utf8_valid_Cons Let_def)
  show thesis
  proof (rule that [of "take ?w (b # r)" "drop ?w (b # r)"])
    have "hd (take ?w (b # r)) = b"
      using w(1) by (cases ?w) simp_all
    moreover have "length (take ?w (b # r)) = ?w"
      using w(2) by simp
    ultimately show "char_ok (take ?w (b # r))"
      using w(1,3) by (auto simp only: char_ok_def list.size)
    show "chars_of (b # r) = take ?w (b # r) # chars_of (drop ?w (b # r))"
      using w(1) by (simp only: chars_of.simps(2) Let_def max_absorb2)
  qed (use w in \<open>simp_all only: append_take_drop_id\<close>)
qed

lemma utf8_valid_induct [consumes 1, case_names Nil char]:
  assumes "utf8_valid s" and "P []"
    and "\<And>c s. \<lbrakk>char_ok c; utf8_valid s; chars_of (c @ s) = c # chars_of s; P s\<rbrakk> \<Longrightarrow> P (c @ s)"
  shows "P s"
  using assms(1)
proof (induction "length s" arbitrary: s rule: less_induct)
  case less
  show ?case
  proof (cases s)
    case (Cons b r)
    with less.prems obtain c t where "s = c @ t" "char_ok c" "utf8_valid t" "chars_of (c @ t) = c # chars_of t"
      using utf8_valid_split by metis
    with less.hyps [of t] assms(3) show ?thesis
      by (simp add: char_ok_def)
  qed (simp add: assms(2))
qed

lemma chars_of_char: "char_ok c \<Longrightarrow> chars_of (c @ s) = c # chars_of s"
proof (cases c)
  case (Cons b r)
  assume "char_ok c"
  then have "utf8_width b = length c" and "c \<noteq> []"
    using Cons by (simp_all add: char_ok_def)
  then show ?thesis
    using chars_of.simps(2) [of b "r @ s"] Cons by (simp add: Let_def max_def)
qed (simp add: char_ok_def)

lemma chars_of_append: "utf8_valid s \<Longrightarrow> chars_of (s @ t) = chars_of s @ chars_of t"
  by (induction s rule: utf8_valid_induct) (simp_all add: chars_of_char)

lemma chars_of_ok: "utf8_valid s \<Longrightarrow> list_all char_ok (chars_of s)"
  by (induction s rule: utf8_valid_induct) simp_all

lemma char_ok_single: "char_ok [b] \<longleftrightarrow> b \<le> 0x7F"
  using utf8_width_1 [of b] by (cases "b \<le> 0x7F") (simp_all add: char_ok_def)

lemma char_ok_long: "\<lbrakk>char_ok c; \<And>b. c \<noteq> [b]\<rbrakk> \<Longrightarrow> (case c of [b] \<Rightarrow> P b | _ \<Rightarrow> x) = x"
  by (auto split: list.splits)

lemma chars_of_ascii: "ascii s \<Longrightarrow> chars_of s = map (\<lambda>b. [b]) s"
proof (induction s)
  case (Cons b s)
  then have "char_ok [b]" and "ascii s"
    by (simp_all add: ascii_def char_ok_single)
  then show ?case
    using chars_of_char [of "[b]" s] Cons.IH by simp
qed simp

lemma utf8_valid_concat: "list_all utf8_valid ss \<Longrightarrow> utf8_valid (concat ss)"
  by (induction ss) (simp_all add: utf8_valid_append)

section \<open>Strings\<close>

text \<open>A character's escape reads back as the character.\<close>

definition special :: "u8 \<Rightarrow> bool" where
  "special b \<longleftrightarrow> b < 0x20 \<or> b = 0x22 \<or> b = 0x5C"

lemma str_byte:
  "str ''n'' = [0x6E]" "str ''r'' = [0x72]" "str ''t'' = [0x74]" "str ''b'' = [0x62]" "str ''f'' = [0x66]"
  "str ''u'' = [0x75]" "str ''u00'' = [0x75, 0x30, 0x30]"
  by code_simp+

lemma read_hex_append:
  "read_hex n v cs = Inr (r, cs') \<Longrightarrow> read_hex n v (cs @ rest) = Inr (r, cs' @ rest)"
  by (induction n v cs rule: read_hex.induct) (auto simp: result_simps)

lemma control_hex4:
  "b < 0x20 \<Longrightarrow> ascii (hex_lower [b]) \<and> read_hex4 ([0x30] # [0x30] # map (\<lambda>b. [b]) (hex_lower [b])) = Inr (ucast b, [])"
  by (rule word_upto [where m = 0 and n = 32]) (code_simp, simp_all add: word_less_nat_alt)

lemma control_escape:
  assumes "b < 0x20"
  shows "unicode_escape ([0x30] # [0x30] # map (\<lambda>b. [b]) (hex_lower [b]) @ rest) = Inr ([b], rest)"
proof -
  have "unat b < 32"
    using assms by (simp add: word_less_nat_alt)
  then have small: "unat (ucast b :: 16 word) = unat b"
    by (simp add: unsigned_ucast_eq take_bit_nat_eq_self)
  then have "(ucast b :: 16 word) < 0xD800"
    using \<open>unat b < 32\<close> by (simp add: word_less_nat_alt)
  then have "\<not> 0xD800 \<le> (ucast b :: 16 word)" "\<not> 0xDC00 \<le> (ucast b :: 16 word)"
    by (simp_all add: word_less_nat_alt word_le_nat_alt)
  moreover have "read_hex4 ([0x30] # [0x30] # map (\<lambda>b. [b]) (hex_lower [b]) @ rest) = Inr (ucast b, rest)"
    using read_hex_append [of 4 0] control_hex4 [OF assms] by (fastforce simp: read_hex4_def)
  ultimately show ?thesis
    using \<open>unat b < 32\<close> by (simp add: unicode_escape_def small utf8_char_def)
qed

lemma parse_escape:
  "parse_string_raw s ([0x5C] # [0x22] # rest) = parse_string_raw (s @ [0x22]) rest"
  "parse_string_raw s ([0x5C] # [0x5C] # rest) = parse_string_raw (s @ [0x5C]) rest"
  "parse_string_raw s ([0x5C] # str ''n'' # rest) = parse_string_raw (s @ [0x0A]) rest"
  "parse_string_raw s ([0x5C] # str ''r'' # rest) = parse_string_raw (s @ [0x0D]) rest"
  "parse_string_raw s ([0x5C] # str ''t'' # rest) = parse_string_raw (s @ [0x09]) rest"
  "parse_string_raw s ([0x5C] # str ''b'' # rest) = parse_string_raw (s @ [0x08]) rest"
  "parse_string_raw s ([0x5C] # str ''f'' # rest) = parse_string_raw (s @ [0x0C]) rest"
  "unicode_escape cs = Inr (ch, rest) \<Longrightarrow> parse_string_raw s ([0x5C] # str ''u'' # cs) = parse_string_raw (s @ ch) rest"
  by (simp_all add: parse_string_raw.simps(2) [of s "[0x5C]"] str_byte)

lemma special_cases:
  assumes "special b"
  obtains (named) "b \<in> {0x22, 0x5C, 0x0A, 0x0D, 0x09, 0x08, 0x0C}"
    | (control) "b < 0x20" "escape_char [b] = [0x5C, 0x75, 0x30, 0x30] @ hex_lower [b]"
proof (cases "b \<in> {0x22, 0x5C, 0x0A, 0x0D, 0x09, 0x08, 0x0C}")
  case False
  then show thesis
    using assms control by (simp add: special_def escape_char_def str_byte)
qed (rule named)

lemma ascii_escape:
  assumes "special b"
  shows "ascii (escape_char [b])"
  using assms
proof (cases rule: special_cases)
  case named
  then show ?thesis
    by (elim insertE emptyE) (simp_all add: escape_char_def ascii_def str_byte)
next
  case control
  then show ?thesis
    using control_hex4 by (simp add: ascii_def)
qed

lemma escape_special:
  assumes "special b"
  shows "parse_string_raw s (chars_of (escape_char [b]) @ rest) = parse_string_raw (s @ [b]) rest"
  using assms
proof (cases rule: special_cases)
  case named
  then show ?thesis
    unfolding chars_of_ascii [OF ascii_escape [OF assms]]
    by (elim insertE emptyE) (simp_all add: escape_char_def str_byte parse_escape(1-7) [unfolded str_byte])
next
  case control
  then show ?thesis
    unfolding chars_of_ascii [OF ascii_escape [OF assms]]
    using parse_escape(8) [OF control_escape] by (simp add: str_byte)
qed

lemma escape_plain: "\<not> (\<exists>b. c = [b] \<and> special b) \<Longrightarrow> escape_char c = c"
  by (cases "\<exists>b. c = [b]") (auto simp: escape_char_def special_def split: list.split)

lemma parse_escaped_char:
  assumes "char_ok c"
  shows "parse_string_raw s (chars_of (escape_char c) @ rest) = parse_string_raw (s @ c) rest"
proof (cases "\<exists>b. c = [b] \<and> special b")
  case True
  then show ?thesis
    using escape_special by blast
next
  case False
  then have ne: "c \<noteq> c_quote" "c \<noteq> c_backslash" "(case c of [b] \<Rightarrow> b < 0x20 | _ \<Rightarrow> False) = False"
    by (auto simp: special_def split: list.split)
  have "escape_char c = c"
    using False by (rule escape_plain)
  moreover have "chars_of c = [c]"
    using chars_of_char [OF assms, of "[]"] by simp
  moreover have "parse_string_raw s (c # rest) = parse_string_raw (s @ c) rest"
    by (simp only: parse_string_raw.simps(2) [of s c] ne if_False)
  ultimately show ?thesis
    by simp
qed

text \<open>A valid string, escaped and quoted, reads back.\<close>

lemma char_ok_escape: "char_ok c \<Longrightarrow> utf8_valid (escape_char c)"
  using escape_plain [of c] utf8_valid_ascii [OF ascii_escape] by (metis char_ok_def)

lemma parse_escaped:
  assumes "utf8_valid t"
  shows "parse_string_raw s (chars_of (concat (map escape_char (chars_of t))) @ c_quote # rest) = Inr (s @ t, rest)"
  using assms
proof (induction t arbitrary: s rule: utf8_valid_induct)
  case Nil
  then show ?case
    by (simp add: parse_string_raw.simps)
next
  case (char c t)
  then show ?case
    by (simp add: chars_of_append char_ok_escape parse_escaped_char)
qed

section \<open>Hex and decimal\<close>

lemma HEX_nibble: "n < 16 \<Longrightarrow> hex_digit (HEX ! unat n) = Inr n \<and> HEX ! unat n \<le> 0x7F"
  by (rule word_upto [where m = 0 and n = 16]) (code_simp, simp_all add: word_less_nat_alt)

lemma hex_lower_simps [simp]:
  "hex_lower [] = []" "hex_lower (b # bs) = HEX ! unat (drop_bit 4 b) # HEX ! unat (b AND 0x0F) # hex_lower bs"
  by (simp_all add: hex_lower_def)

lemma decode_hex_pairs_hex_lower: "decode_hex_pairs (hex_lower bs) = Inr bs \<and> even (length (hex_lower bs))"
  by (induction bs) (simp_all add: HEX_nibble nibbles_less nibbles_join)

lemma decode_hex_hex_lower: "decode_hex (hex_lower bs) = Inr bs"
  using decode_hex_pairs_hex_lower [of bs] by (simp add: decode_hex_def)

lemma ascii_hex_lower: "ascii (hex_lower bs)"
  by (induction bs) (simp_all add: ascii_def HEX_nibble nibbles_less)

text \<open>Decimals.\<close>

lemma digit_byte: "d < 10 \<Longrightarrow> is_ascii_digit (word_of_nat (0x30 + d)) \<and> unat (word_of_nat (0x30 + d) - 0x30 :: u8) = d"
proof -
  assume "d < 10"
  then have "d \<in> {0, 1, 2, 3, 4, 5, 6, 7, 8, 9}"
    by auto
  then show ?thesis
    by (elim insertE emptyE) (simp_all add: is_ascii_digit_def)
qed

lemma decimal_nat_snoc: "decimal_nat (ds @ [d]) = 10 * decimal_nat ds + unat (d - 0x30)"
  by (simp add: decimal_nat_def)

lemma decimal_nat_decimal: "decimal_nat (nat_decimal n) = n \<and> list_all is_ascii_digit (nat_decimal n) \<and> nat_decimal n \<noteq> []"
proof (induction n rule: nat_decimal.induct)
  case (1 n)
  show ?case
  proof (cases "n < 10")
    case True
    then show ?thesis
      using digit_byte [OF True] by (simp add: nat_decimal.simps [of n] decimal_nat_def)
  next
    case False
    then show ?thesis
      using 1 digit_byte [of "n mod 10"] by (simp add: nat_decimal.simps [of n] decimal_nat_snoc)
  qed
qed

lemma nat_decimal_zero: "hd (nat_decimal n) = 0x30 \<longleftrightarrow> n = 0"
proof (induction n rule: nat_decimal.induct)
  case (1 n)
  show ?case
  proof (cases "n < 10")
    case True
    then show ?thesis
      using digit_byte [OF True] by (auto simp: nat_decimal.simps [of n])
  next
    case False
    then have "hd (nat_decimal n) = hd (nat_decimal (n div 10))"
      using decimal_nat_decimal [of "n div 10"] by (simp add: nat_decimal.simps [of n])
    then show ?thesis
      using 1 False by simp
  qed
qed

lemma no_leading_zero:
  "\<not> (1 < length (nat_decimal n) \<and> starts_with [0x30] (nat_decimal n))"
proof
  assume *: "1 < length (nat_decimal n) \<and> starts_with [0x30] (nat_decimal n)"
  then have "hd (nat_decimal n) = 0x30"
    by (cases "nat_decimal n") (auto simp: starts_with_def strip_prefix_def split: if_splits)
  then have "n = 0"
    by (simp add: nat_decimal_zero)
  with * show False
    by (simp add: nat_decimal.simps [of 0])
qed

lemma nat_decimal_one_zero: "nat_decimal n = [0x30] \<longleftrightarrow> n = 0"
  using decimal_nat_decimal [of n] by (auto simp: nat_decimal.simps [of 0] decimal_nat_def)

lemma ascii_digits: "list_all is_ascii_digit ds \<Longrightarrow> ascii ds"
  by (fastforce simp: list_all_iff ascii_def is_ascii_digit_def intro: order.trans)

section \<open>Numbers\<close>

text \<open>What may follow a number without becoming part of it.\<close>

definition stops :: "chars \<Rightarrow> bool" where
  "stops cs \<longleftrightarrow> (case cs of [] \<Rightarrow> True | c # _ \<Rightarrow> c \<in> {c_comma, c_rbracket, c_rbrace})"

lemma stopsD:
  assumes "stops cs"
  shows "takeWhile char_is_digit cs = []" and "dropWhile char_is_digit cs = cs"
    and "peek_char cs \<notin> {Some [0x2E], Some [0x65], Some [0x45]}" and "skip_ws cs = cs"
  using assms by (auto simp: stops_def char_is_digit_def is_ascii_digit_def peek_char_def skip_ws_def split: list.splits)

lemma digits_span:
  assumes "list_all is_ascii_digit ds" and "stops rest"
  shows "takeWhile char_is_digit (map (\<lambda>b. [b]) ds @ rest) = map (\<lambda>b. [b]) ds"
    and "dropWhile char_is_digit (map (\<lambda>b. [b]) ds @ rest) = rest"
  using assms by (induction ds) (simp_all add: stopsD char_is_digit_def)

lemma parse_u64_decimal: "n < 2 ^ 64 \<Longrightarrow> parse_u64 (nat_decimal n) = Inr (word_of_nat n)"
  using decimal_nat_decimal [of n] by (simp add: parse_u64_def)

lemma parse_number_uint:
  assumes "stops rest"
  shows "parse_number (chars_of (uint_decimal n) @ rest) = Inr (Uint n, rest)"
proof -
  let ?ds = "nat_decimal (unat n)"
  have ds: "list_all is_ascii_digit ?ds" "?ds \<noteq> []"
    using decimal_nat_decimal by blast+
  then have "peek_char (map (\<lambda>b. [b]) ?ds @ rest) \<noteq> Some c_minus"
    by (cases ?ds) (auto simp: peek_char_def is_ascii_digit_def)
  moreover have "unat n < 2 ^ 64"
    using unsigned_less [of n, where ?'a = nat] by simp
  then have "parse_u64 ?ds = Inr n"
    using parse_u64_decimal by fastforce
  ultimately show ?thesis
    using ds assms stopsD(3) [OF assms] no_leading_zero [of "unat n"]
    by (simp add: parse_number_def uint_decimal_def chars_of_ascii ascii_digits digits_span Let_def comp_def)
qed

lemma parse_number_nint:
  assumes "stops rest" and "n \<le> i64_max"
  shows "parse_number (chars_of (nint_decimal n) @ rest) = Inr (Nint n, rest)"
proof -
  let ?ds = "nat_decimal (unat n + 1)"
  have ds: "list_all is_ascii_digit ?ds" "?ds \<noteq> []"
    using decimal_nat_decimal by blast+
  have "unat n + 1 \<le> 2 ^ 63"
    using assms(2) by (simp add: word_le_nat_alt i64_max_def)
  then have "parse_u64 ?ds = Inr (n + 1)" and "n + 1 \<le> 9223372036854775808"
    using parse_u64_decimal [of "unat n + 1"]
    by (simp_all add: word_le_nat_alt unat_word_ariths take_bit_nat_eq_self)
  moreover have "ascii (nint_decimal n)"
    using ascii_digits [OF ds(1)] by (simp add: nint_decimal_def ascii_def)
  ultimately show ?thesis
    using ds assms stopsD(3) [OF assms(1)] no_leading_zero [of "unat n + 1"] nat_decimal_one_zero [of "unat n + 1"]
    by (simp add: parse_number_def nint_decimal_def chars_of_ascii digits_span Let_def comp_def peek_char_def)
qed

section \<open>The disambiguation of strings and keys\<close>

lemma prefix_bytes:
  "str ''hex:'' = [0x68, 0x65, 0x78, 0x3A]" "str ''txt:'' = [0x74, 0x78, 0x74, 0x3A]"
  by code_simp+

lemma text_round_trip: "string_value_from_json (text_json_string s) = Inr (Text s)"
  by (auto simp: string_value_from_json_def text_json_string_def starts_with_def prefix_bytes strip_prefix_def)

lemma bytes_round_trip: "string_value_from_json (bytes_json_string b) = Inr (Bytes b)"
  by (simp add: string_value_from_json_def bytes_json_string_def decode_hex_hex_lower)

lemma prefixed_not_int: "try_parse_int_key (str ''hex:'' @ s) = None" "try_parse_int_key (str ''txt:'' @ s) = None"
  by (simp_all add: try_parse_int_key_def prefix_bytes strip_prefix_def is_ascii_digit_def)

lemma uint_key: "try_parse_int_key (uint_decimal n) = Some (Uint n)"
proof -
  let ?ds = "nat_decimal (unat n)"
  have ds: "decimal_nat ?ds = unat n" "list_all is_ascii_digit ?ds" "?ds \<noteq> []"
    using decimal_nat_decimal by blast+
  then have "strip_prefix [0x2D] ?ds = None"
    by (cases ?ds) (auto simp: strip_prefix_def is_ascii_digit_def)
  then show ?thesis
    using ds no_leading_zero [of "unat n"] unsigned_less [of n, where ?'a = nat]
    by (simp add: try_parse_int_key_def uint_decimal_def Let_def)
qed

lemma nint_key: "try_parse_int_key (nint_decimal n) = Some (Nint n)"
proof -
  let ?ds = "nat_decimal (unat n + 1)"
  have ds: "decimal_nat ?ds = unat n + 1" "list_all is_ascii_digit ?ds" "?ds \<noteq> []"
    using decimal_nat_decimal by blast+
  then show ?thesis
    using no_leading_zero [of "unat n + 1"] nat_decimal_one_zero [of "unat n + 1"]
      unsigned_less [of n, where ?'a = nat]
    by (simp add: try_parse_int_key_def nint_decimal_def Let_def strip_prefix_def)
qed

text \<open>The keys that the form supports.\<close>

fun json_key :: "val \<Rightarrow> bool" where
  "json_key (Uint n) = True"
| "json_key (Nint n) = True"
| "json_key (Bytes b) = True"
| "json_key (Text s) = utf8_valid s"
| "json_key _ = False"

lemma key_round_trip: "json_key k \<Longrightarrow> key_value_from_json (key_json_string dbg k) = Inr k"
proof (cases k)
  case (Text s)
  then show ?thesis
    using text_round_trip [of s] prefixed_not_int
    by (auto simp: key_json_string_def key_value_from_json_def text_json_string_def string_value_from_json_def
        starts_with_def prefix_bytes strip_prefix_def split: option.split)
next
  case (Bytes b)
  then show ?thesis
    using bytes_round_trip prefixed_not_int by (simp add: key_json_string_def key_value_from_json_def bytes_json_string_def)
qed (simp_all add: key_json_string_def key_value_from_json_def uint_key nint_key)

lemma utf8_valid_prefixed: "utf8_valid s \<Longrightarrow> utf8_valid (str ''txt:'' @ s)"
  by (simp add: prefix_bytes utf8_width_def)

lemma utf8_valid_rendered:
  "utf8_valid (uint_decimal n)" "utf8_valid (nint_decimal n)" "utf8_valid (bytes_json_string b)"
  "utf8_valid s \<Longrightarrow> utf8_valid (text_json_string s)" "json_key k \<Longrightarrow> utf8_valid (key_json_string dbg k)"
proof -
  have d: "utf8_valid (nat_decimal n)" for n
    using decimal_nat_decimal [of n] by (intro utf8_valid_ascii ascii_digits) blast
  then show u: "utf8_valid (uint_decimal n)" for n
    by (simp add: uint_decimal_def)
  show n: "utf8_valid (nint_decimal n)" for n
    using d by (simp add: nint_decimal_def utf8_width_def)
  show b: "utf8_valid (bytes_json_string b)" for b
    using utf8_valid_ascii [OF ascii_hex_lower] by (simp add: bytes_json_string_def prefix_bytes utf8_width_def)
  show t: "utf8_valid s \<Longrightarrow> utf8_valid (text_json_string s)" for s
    using utf8_valid_prefixed by (simp add: text_json_string_def)
  show "json_key k \<Longrightarrow> utf8_valid (key_json_string dbg k)"
    using u n b utf8_valid_prefixed by (cases k) (simp_all add: key_json_string_def)
qed

section \<open>Rendering a value\<close>

lemma to_json_append:
  "value_to_json dbg v (pre @ out) = pre @ value_to_json dbg v out"
  "items_to_json dbg first vs (pre @ out) = pre @ items_to_json dbg first vs out"
  "entries_to_json dbg first es (pre @ out) = pre @ entries_to_json dbg first es out"
proof (induction dbg v out and dbg first vs out and dbg first es out arbitrary: pre and pre and pre
    rule: value_to_json_items_to_json_entries_to_json.induct)
  case (10 dbg first item items out)
  then show ?case
    by (cases first) simp_all
next
  case (12 dbg first k v entries out)
  then show ?case
    by (cases first) (simp_all add: push_json_escaped_def Let_def)
qed (simp_all add: push_json_escaped_def Let_def)

lemmas to_json_prefix =
  to_json_append [where pre = "[x]" for x, simplified]
  to_json_append [where pre = "value_to_json dbg v []" and out = "[]" for dbg v, simplified]

definition quoted :: "bytes \<Rightarrow> bytes" where
  "quoted s = c_quote @ concat (map escape_char (chars_of s)) @ c_quote"

abbreviation more_items :: "(val \<Rightarrow> bytes) \<Rightarrow> val list \<Rightarrow> bytes" where
  "more_items dbg vs \<equiv> items_to_json dbg False vs []"

abbreviation more_entries :: "(val \<Rightarrow> bytes) \<Rightarrow> (val \<times> val) list \<Rightarrow> bytes" where
  "more_entries dbg es \<equiv> entries_to_json dbg False es []"

lemma to_json_simps:
  "to_json dbg (Uint n) = uint_decimal n"
  "to_json dbg (Nint n) = nint_decimal n"
  "to_json dbg (Bytes b) = quoted (bytes_json_string b)"
  "to_json dbg (Text s) = quoted (text_json_string s)"
  "to_json dbg (Array []) = c_lbracket @ c_rbracket"
  "to_json dbg (Array (v # vs)) = c_lbracket @ to_json dbg v @ more_items dbg vs @ c_rbracket"
  "to_json dbg (Map []) = c_lbrace @ c_rbrace"
  "to_json dbg (Map ((k, v) # es)) =
     c_lbrace @ quoted (key_json_string dbg k) @ c_colon @ to_json dbg v @ more_entries dbg es @ c_rbrace"
  "to_json dbg (Bool t) = (if t then str ''true'' else str ''false'')"
  "to_json dbg Null = str ''null''"
  by (simp_all add: to_json_def quoted_def push_json_escaped_def Let_def to_json_append [where out = "[]" and pre = "x # xs" for x xs, simplified]
      to_json_prefix)

lemma more_simps:
  "more_items dbg [] = []"
  "more_items dbg (v # vs) = c_comma @ to_json dbg v @ more_items dbg vs"
  "more_entries dbg [] = []"
  "more_entries dbg ((k, v) # es) =
     c_comma @ quoted (key_json_string dbg k) @ c_colon @ to_json dbg v @ more_entries dbg es"
  by (simp_all add: to_json_def quoted_def push_json_escaped_def Let_def to_json_append [where out = "[]" and pre = "x # xs" for x xs, simplified]
      to_json_prefix)

declare value_to_json.simps [simp del] and items_to_json.simps [simp del] and entries_to_json.simps [simp del]

text \<open>What the form carries: text keys or integer or byte keys, all distinct, negative numbers in the range
  of \<open>i64\<close>, valid strings.\<close>

fun json_ok :: "val \<Rightarrow> bool" where
  "json_ok (Nint n) = (n \<le> i64_max)"
| "json_ok (Text s) = utf8_valid s"
| "json_ok (Array vs) = list_all json_ok vs"
| "json_ok (Map es) = (distinct (map fst es) \<and> list_all (\<lambda>e. json_key (fst e) \<and> json_ok (snd e)) es)"
| "json_ok _ = True"

text \<open>Rendered values are valid strings.\<close>

lemma utf8_valid_quoted: "utf8_valid s \<Longrightarrow> utf8_valid (quoted s)"
  using chars_of_ok [of s]
  using utf8_valid_concat [of "map escape_char (chars_of s)"]
  by (simp add: quoted_def utf8_width_def utf8_valid_append list_all_iff char_ok_escape)

lemma utf8_valid_words: "utf8_valid (str ''true'')" "utf8_valid (str ''false'')" "utf8_valid (str ''null'')"
  by code_simp+

lemma utf8_valid_to_json: "json_ok v \<Longrightarrow> utf8_valid (to_json dbg v)"
proof (induction v rule: val_induct)
  case (Array vs)
  have "utf8_valid (more_items dbg ws)" if "set ws \<subseteq> set vs" for ws
    using that Array
    by (induction ws) (auto simp: more_simps utf8_width_def utf8_valid_append list_all_iff)
  then show ?case
    using Array by (cases vs) (auto simp: to_json_simps utf8_width_def utf8_valid_append list_all_iff subset_iff)
next
  case (Map es)
  have entry: "utf8_valid (quoted (key_json_string dbg k))" "utf8_valid (to_json dbg v)" if "(k, v) \<in> set es" for k v
    using Map that by (fastforce simp: list_all_iff intro: utf8_valid_quoted utf8_valid_rendered)+
  have "utf8_valid (more_entries dbg fs)" if "set fs \<subseteq> set es" for fs
    using that entry
    by (induction fs) (auto simp: more_simps utf8_width_def utf8_valid_append)
  then have more: "utf8_valid (more_entries dbg (tl es))"
    by (cases es) auto
  show ?case
  proof (cases es)
    case (Cons e fs)
    then show ?thesis
      using entry [of "fst e" "snd e"] more
      by (cases e) (simp add: to_json_simps utf8_width_def utf8_valid_append)
  qed (simp add: to_json_simps utf8_width_def)
qed (simp_all add: to_json_simps utf8_valid_rendered utf8_valid_quoted utf8_valid_words)

section \<open>Reading a value back\<close>

lemma skip_ws_idem [simp]: "skip_ws (skip_ws cs) = skip_ws cs"
  by (simp add: skip_ws_def)

lemma skip_ws_other: "b \<notin> {0x20, 0x09, 0x0A, 0x0D} \<Longrightarrow> skip_ws ([b] # cs) = [b] # cs"
  by (simp add: skip_ws_def)

lemma json_value_skip [simp]: "json_value d (skip_ws cs) = json_value d cs"
  by (simp add: json_value.simps)

lemma json_items_skip [simp]: "json_items d vs (skip_ws cs) = json_items d vs cs"
  by (simp add: json_items.simps [of d vs])

lemma json_entries_skip [simp]: "json_entries d es (skip_ws cs) = json_entries d es cs"
  by (simp add: json_entries.simps [of d es])

lemma chars_of_ascii_append: "\<lbrakk>b \<le> 0x7F\<rbrakk> \<Longrightarrow> chars_of (b # s) = [b] # chars_of s"
  using chars_of_char [of "[b]" s] by (simp add: char_ok_single)

text \<open>How a rendered value starts.\<close>

definition opens :: "bytes \<Rightarrow> bool" where
  "opens s \<longleftrightarrow> (\<exists>b t. s = b # t \<and> b \<le> 0x7F \<and> b \<notin> {0x20, 0x09, 0x0A, 0x0D, 0x5D, 0x7D})"

lemma opens_decimal: "opens (nat_decimal n)"
proof -
  obtain d ds where "nat_decimal n = d # ds" and "is_ascii_digit d"
    using decimal_nat_decimal [of n] by (cases "nat_decimal n") auto
  then show ?thesis
    using ascii_digits [of "[d]"] by (auto simp: opens_def ascii_def is_ascii_digit_def)
qed

lemma word_bytes:
  "str ''true'' = [0x74, 0x72, 0x75, 0x65]" "str ''false'' = [0x66, 0x61, 0x6C, 0x73, 0x65]"
  "str ''null'' = [0x6E, 0x75, 0x6C, 0x6C]"
  by code_simp+

lemma opens_to_json: "opens (to_json dbg v)"
proof (cases v)
  case (Array vs)
  then show ?thesis
    by (cases vs) (simp_all add: to_json_simps opens_def)
next
  case (Map es)
  then show ?thesis
    by (cases es) (auto simp: to_json_simps opens_def)
qed (use opens_decimal in \<open>auto simp: to_json_simps uint_decimal_def nint_decimal_def quoted_def opens_def word_bytes\<close>)

lemma opensD:
  assumes "opens s" and "utf8_valid s"
  obtains b cs where "\<And>t. chars_of (s @ t) = [b] # cs @ chars_of t" and "b \<notin> {0x20, 0x09, 0x0A, 0x0D, 0x5D, 0x7D}"
proof -
  from assms(1) obtain b t where s: "s = b # t" "b \<le> 0x7F" "b \<notin> {0x20, 0x09, 0x0A, 0x0D, 0x5D, 0x7D}"
    by (auto simp: opens_def)
  have "chars_of (s @ u) = [b] # chars_of t @ chars_of u" for u
    using chars_of_append [OF assms(2)] chars_of_ascii_append [OF s(2)] s(1) by simp
  then show thesis
    using that s(3) by blast
qed

text \<open>A quoted string.\<close>

lemma chars_of_quoted:
  assumes "utf8_valid s"
  shows "chars_of (quoted s @ t) = c_quote # chars_of (concat (map escape_char (chars_of s))) @ c_quote # chars_of t"
proof -
  have "utf8_valid (concat (map escape_char (chars_of s)))"
    using chars_of_ok [OF assms] by (intro utf8_valid_concat) (simp add: list_all_iff char_ok_escape)
  then show ?thesis
    by (simp add: quoted_def chars_of_ascii_append chars_of_append)
qed

text \<open>The two round trips of a value: at nesting depth \<open>d\<close>, in front of what can follow it.\<close>

definition reads :: "(val \<Rightarrow> bytes) \<Rightarrow> nat \<Rightarrow> val \<Rightarrow> bool" where
  "reads dbg d v \<longleftrightarrow>
     (\<forall>t. stops (chars_of t) \<longrightarrow> json_value d (chars_of (to_json dbg v @ t)) = Inr (v, chars_of t))"

lemma stops_bytes: "b \<in> {0x2C, 0x5D, 0x7D} \<Longrightarrow> stops (chars_of (b # t))"
  by (auto simp: stops_def chars_of_ascii_append)

lemma stops_more:
  "stops (chars_of (more_items dbg vs @ 0x5D # t))" "stops (chars_of (more_entries dbg es @ 0x7D # t))"
proof -
  show "stops (chars_of (more_items dbg vs @ 0x5D # t))"
    by (cases vs) (simp_all add: more_simps stops_bytes)
  show "stops (chars_of (more_entries dbg es @ 0x7D # t))"
    by (cases es) (auto simp: more_simps stops_bytes)
qed

lemma reads_string:
  assumes "utf8_valid s" and "string_value_from_json s = Inr v" and "to_json dbg v = quoted s" and "d \<le> 64"
  shows "reads dbg d v"
  using assms parse_escaped [OF assms(1), of "[]"]
  by (simp add: reads_def chars_of_quoted json_value.simps max_depth_def skip_ws_other not_less)

lemma reads_items:
  assumes "\<forall>w\<in>set (v # vs). reads dbg (d + 1) w \<and> utf8_valid (to_json dbg w)"
  shows "json_items d acc (chars_of (to_json dbg v @ more_items dbg vs @ 0x5D # t)) = Inr (Array (acc @ v # vs), chars_of t)"
  using assms
proof (induction vs arbitrary: v acc)
  case Nil
  then have "json_value (d + 1) (chars_of (to_json dbg v @ 0x5D # t)) = Inr (v, chars_of (0x5D # t))"
    by (simp add: reads_def stops_bytes)
  then show ?case
    by (simp add: json_items.simps [of d acc] more_simps chars_of_ascii_append skip_ws_other)
next
  case (Cons w vs)
  have "json_value (d + 1) (chars_of (to_json dbg v @ more_items dbg (w # vs) @ 0x5D # t))
      = Inr (v, chars_of (more_items dbg (w # vs) @ 0x5D # t))"
    using Cons.prems stops_more unfolding reads_def by simp
  then show ?case
    using Cons.IH [of w "acc @ [v]"] Cons.prems
    by (simp add: json_items.simps [of d acc] more_simps chars_of_ascii_append skip_ws_other)
qed

lemma reads_entries:
  assumes "\<forall>e\<in>set (e # es). reads dbg (d + 1) (snd e) \<and> utf8_valid (to_json dbg (snd e)) \<and> json_key (fst e)"
    and "distinct (map fst (acc @ e # es))"
  shows "json_entries d acc (chars_of (quoted (key_json_string dbg (fst e)) @ 0x3A # to_json dbg (snd e)
      @ more_entries dbg es @ 0x7D # t)) = Inr (Map (acc @ e # es), chars_of t)"
  using assms
proof (induction es arbitrary: e acc)
  case Nil
  then have "json_value (d + 1) (chars_of (to_json dbg (snd e) @ 0x7D # t)) = Inr (snd e, chars_of (0x7D # t))"
    by (simp add: reads_def stops_bytes)
  then show ?case
    using Nil parse_escaped [OF utf8_valid_rendered(5), of "fst e" "[]" dbg]
    by (auto simp: json_entries.simps [of d acc] chars_of_quoted utf8_valid_rendered skip_ws_other expect_char_def
        key_round_trip chars_of_ascii_append more_simps)
next
  case (Cons e' es)
  have "json_value (d + 1) (chars_of (to_json dbg (snd e) @ more_entries dbg (e' # es) @ 0x7D # t))
      = Inr (snd e, chars_of (more_entries dbg (e' # es) @ 0x7D # t))"
    using Cons.prems stops_more unfolding reads_def by simp
  then show ?case
    using Cons.IH [of e' "acc @ [e]"] Cons.prems parse_escaped [OF utf8_valid_rendered(5), of "fst e" "[]" dbg]
    by (cases e') (auto simp: json_entries.simps [of d acc] chars_of_quoted
        utf8_valid_rendered skip_ws_other expect_char_def key_round_trip chars_of_ascii_append more_simps)
qed

lemma reads_array:
  assumes "\<forall>w\<in>set vs. reads dbg (d + 1) w \<and> utf8_valid (to_json dbg w)" and "d \<le> 64"
  shows "reads dbg d (Array vs)"
  unfolding reads_def
proof (intro allI impI)
  fix t
  show "json_value d (chars_of (to_json dbg (Array vs) @ t)) = Inr (Array vs, chars_of t)"
  proof (cases vs)
    case Nil
    then show ?thesis
      using assms(2) by (simp add: to_json_simps chars_of_ascii_append json_value.simps [of d] max_depth_def
          skip_ws_other peek_char_def)
  next
    case (Cons v ws)
    obtain b cs where b: "\<And>u. chars_of (to_json dbg v @ u) = [b] # cs @ chars_of u"
        "b \<notin> {0x20, 0x09, 0x0A, 0x0D, 0x5D, 0x7D}"
      using opensD [OF opens_to_json] assms(1) Cons by (metis list.set_intros(1))
    have "json_items d [] (chars_of (to_json dbg v @ more_items dbg ws @ 0x5D # t)) = Inr (Array vs, chars_of t)"
      using reads_items [of v ws dbg d "[]"] assms(1) Cons by simp
    moreover have "chars_of (to_json dbg (Array vs) @ t) = c_lbracket # chars_of (to_json dbg v @ more_items dbg ws @ 0x5D # t)"
      by (simp add: Cons to_json_simps chars_of_ascii_append)
    moreover have "peek_char (skip_ws (chars_of (to_json dbg v @ more_items dbg ws @ 0x5D # t))) \<noteq> Some c_rbracket"
      using b by (simp add: skip_ws_other peek_char_def)
    ultimately show ?thesis
      using assms(2) by (simp add: json_value.simps [of d] max_depth_def skip_ws_other)
  qed
qed

lemma reads_map:
  assumes "\<forall>e\<in>set es. reads dbg (d + 1) (snd e) \<and> utf8_valid (to_json dbg (snd e)) \<and> json_key (fst e)"
    and "distinct (map fst es)" and "d \<le> 64"
  shows "reads dbg d (Map es)"
  unfolding reads_def
proof (intro allI impI)
  fix t
  show "json_value d (chars_of (to_json dbg (Map es) @ t)) = Inr (Map es, chars_of t)"
  proof (cases es)
    case Nil
    then show ?thesis
      using assms(3) by (simp add: to_json_simps chars_of_ascii_append json_value.simps [of d] max_depth_def
          skip_ws_other peek_char_def)
  next
    case (Cons e fs)
    let ?u = "quoted (key_json_string dbg (fst e)) @ 0x3A # to_json dbg (snd e) @ more_entries dbg fs @ 0x7D # t"
    have "json_entries d [] (chars_of ?u) = Inr (Map es, chars_of t)"
      using reads_entries [of e fs dbg d "[]"] assms(1,2) Cons by simp
    moreover have "chars_of (to_json dbg (Map es) @ t) = c_lbrace # chars_of ?u"
      by (cases e) (simp add: Cons to_json_simps chars_of_ascii_append)
    moreover have "peek_char (skip_ws (chars_of ?u)) \<noteq> Some c_rbrace"
      using assms(1) Cons by (simp add: chars_of_quoted utf8_valid_rendered skip_ws_other peek_char_def)
    ultimately show ?thesis
      using assms(3) by (simp add: json_value.simps [of d] max_depth_def skip_ws_other)
  qed
qed

lemma reads_number:
  "d \<le> 64 \<Longrightarrow> reads dbg d (Uint n)" "\<lbrakk>d \<le> 64; n \<le> i64_max\<rbrakk> \<Longrightarrow> reads dbg d (Nint n)"
proof -
  have start: "\<exists>b cs. chars_of (s @ t) = [b] # cs \<and> (b = 0x2D \<or> is_ascii_digit b)"
    if "s = uint_decimal n \<or> s = nint_decimal n" for s t
  proof -
    obtain d ds where "nat_decimal (unat n) = d # ds" and "is_ascii_digit d"
      using decimal_nat_decimal [of "unat n"] by (cases "nat_decimal (unat n)") auto
    then show ?thesis
      using that ascii_digits [of "[d]"]
      by (auto simp: uint_decimal_def nint_decimal_def chars_of_ascii_append ascii_def)
  qed
  have num: "json_value d (chars_of (s @ t)) = parse_number (chars_of (s @ t))"
    if st: "s = uint_decimal n \<or> s = nint_decimal n" and d: "d \<le> 64" for s t
  proof -
    obtain b cs where b: "chars_of (s @ t) = [b] # cs" "b = 0x2D \<or> is_ascii_digit b"
      using start [OF st] by blast
    then have "skip_ws ([b] # cs) = [b] # cs" and "b \<notin> {0x7B, 0x5B, 0x22}"
      by (auto simp: is_ascii_digit_def intro!: skip_ws_other)
    then show ?thesis
      using b d by (simp add: json_value.simps [of d] max_depth_def char_is_digit_def)
  qed
  show "d \<le> 64 \<Longrightarrow> reads dbg d (Uint n)"
    using num [of "uint_decimal n"] parse_number_uint by (simp add: reads_def to_json_simps chars_of_append utf8_valid_rendered)
  show "\<lbrakk>d \<le> 64; n \<le> i64_max\<rbrakk> \<Longrightarrow> reads dbg d (Nint n)"
    using num [of "nint_decimal n"] parse_number_nint by (simp add: reads_def to_json_simps chars_of_append utf8_valid_rendered)
qed

lemma reads_word: "d \<le> 64 \<Longrightarrow> reads dbg d (Bool b)" "d \<le> 64 \<Longrightarrow> reads dbg d Null"
  by (simp_all add: reads_def to_json_simps word_bytes chars_of_ascii_append json_value.simps [of d] max_depth_def
      skip_ws_other str_byte char_is_digit_def is_ascii_digit_def)

lemma reads_value: "\<lbrakk>json_ok v; d + vdepth v \<le> 64\<rbrakk> \<Longrightarrow> reads dbg d v"
proof (induction v arbitrary: d rule: val_induct)
  case (Array vs)
  then have "vdepth (Array vs) \<le> 64 - d"
    by simp
  then have "vdepth v < 64 - d" if "v \<in> set vs" for v
    using that by (simp add: vdepth_Array_le)
  then show ?case
    using Array utf8_valid_to_json by (intro reads_array) (fastforce simp: list_all_iff)+
next
  case (Map es)
  then have "vdepth (Map es) \<le> 64 - d"
    by simp
  then have "vdepth (snd e) < 64 - d" if "e \<in> set es" for e
    using that by (simp add: vdepth_Map_le)
  then show ?case
    using Map utf8_valid_to_json by (intro reads_map) (fastforce simp: list_all_iff)+
next
  case (Bytes b)
  then show ?case
    using reads_string [OF utf8_valid_rendered(3) bytes_round_trip] by (simp add: to_json_simps)
next
  case (Text s)
  then show ?case
    using reads_string [OF utf8_valid_rendered(4) text_round_trip] by (simp add: to_json_simps)
qed (simp_all add: reads_number reads_word)

section \<open>What the parser yields\<close>

lemma byte_nat:
  assumes "k < 256"
  shows "unat (word_of_nat k :: u8) = k"
  using assms by (simp add: unsigned_of_nat take_bit_nat_eq_self)

lemma cont_byte_nat: "cont_byte (word_of_nat (0x80 + k mod 64))"
proof -
  have "k mod 64 < 64"
    by simp
  then show ?thesis
    by (simp add: cont_byte_def word_le_nat_alt byte_nat del: of_nat_add)
qed

lemma utf8_valid_char:
  assumes "utf8_char n = Some ch"
  shows "utf8_valid ch"
proof -
  consider (one) "n < 0x80" "ch = [word_of_nat n]"
    | (two) "0x80 \<le> n" "n < 0x800" "ch = [word_of_nat (0xC0 + n div 64), word_of_nat (0x80 + n mod 64)]"
    | (three) "0x800 \<le> n" "n < 0x10000" "n < 0xD800 \<or> 0xDFFF < n"
      "ch = [word_of_nat (0xE0 + n div 4096), word_of_nat (0x80 + n div 64 mod 64), word_of_nat (0x80 + n mod 64)]"
    | (four) "0x10000 \<le> n" "n < 0x110000"
      "ch = [word_of_nat (0xF0 + n div 262144), word_of_nat (0x80 + n div 4096 mod 64),
              word_of_nat (0x80 + n div 64 mod 64), word_of_nat (0x80 + n mod 64)]"
    using assms by (auto simp: utf8_char_def not_less not_le split: if_split_asm)
  then show ?thesis
  proof cases
    case one
    then show ?thesis
      by (simp add: utf8_width_def word_le_nat_alt byte_nat)
  next
    case two
    have "2 \<le> n div 64" "n div 64 \<le> 31"
      using two(1,2) by linarith+
    then have "utf8_width (word_of_nat (0xC0 + n div 64)) = 2"
      by (simp add: utf8_width_def word_le_nat_alt byte_nat del: of_nat_add)
    with two cont_byte_nat [of n] show ?thesis
      by (simp del: of_nat_add)
  next
    case three
    define q where "q = n div 4096"
    define m where "m = n div 64 mod 64"
    have q: "q \<le> 15" "m < 64" "q = 0 \<longrightarrow> 32 \<le> m" "q = 13 \<longrightarrow> m \<le> 31"
    proof -
      have "n div 64 = 64 * q + m" and "m < 64"
        using div_mult2_eq [of n 64 64] by (simp_all add: q_def m_def)
      moreover have "32 \<le> n div 64" "n div 64 \<le> 1023" "n div 64 \<le> 863 \<or> 896 \<le> n div 64"
        using three(1-3) by linarith+
      ultimately show "q \<le> 15" "m < 64" "q = 0 \<longrightarrow> 32 \<le> m" "q = 13 \<longrightarrow> m \<le> 31"
        by auto
    qed
    have "utf8_width (word_of_nat (0xE0 + q)) = 3"
      using q by (simp add: utf8_width_def word_le_nat_alt byte_nat del: of_nat_add)
    moreover have "utf8_second (word_of_nat (0xE0 + q)) (word_of_nat (0x80 + m))"
      using q by (auto simp: utf8_second_def cont_byte_def word_le_nat_alt word_unat_eq_iff byte_nat simp del: of_nat_add)
    ultimately show ?thesis
      using three(4) cont_byte_nat [of n] by (simp add: q_def m_def del: of_nat_add)
  next
    case four
    define q where "q = n div 262144"
    define m where "m = n div 4096 mod 64"
    have q: "q \<le> 4" "m < 64" "q = 0 \<longrightarrow> 16 \<le> m" "q = 4 \<longrightarrow> m \<le> 15"
    proof -
      have "n div 4096 = 64 * q + m" and "m < 64"
        using div_mult2_eq [of n 4096 64] by (simp_all add: q_def m_def)
      moreover have "16 \<le> n div 4096" "n div 4096 \<le> 271"
        using four(1,2) by linarith+
      ultimately show "q \<le> 4" "m < 64" "q = 0 \<longrightarrow> 16 \<le> m" "q = 4 \<longrightarrow> m \<le> 15"
        by auto
    qed
    have "utf8_width (word_of_nat (0xF0 + q)) = 4"
      using q by (simp add: utf8_width_def word_le_nat_alt byte_nat del: of_nat_add)
    moreover have "utf8_second (word_of_nat (0xF0 + q)) (word_of_nat (0x80 + m))"
      using q by (auto simp: utf8_second_def cont_byte_def word_le_nat_alt word_unat_eq_iff byte_nat simp del: of_nat_add)
    ultimately show ?thesis
      using four(3) cont_byte_nat [of n] cont_byte_nat [of "n div 64"] by (simp add: q_def m_def del: of_nat_add)
  qed
qed

lemma read_hex_chars: "\<lbrakk>read_hex n v cs = Inr (r, cs'); list_all char_ok cs\<rbrakk> \<Longrightarrow> list_all char_ok cs'"
  by (induction n v cs rule: read_hex.induct) (auto simp: result_simps)

lemma unicode_escape_valid:
  assumes "unicode_escape cs = Inr (ch, cs')" and "list_all char_ok cs"
  shows "utf8_valid ch \<and> list_all char_ok cs'"
proof -
  obtain cp cs1 where cp: "read_hex4 cs = Inr (cp, cs1)" and ok: "list_all char_ok cs1"
    using assms read_hex_chars [of 4 0 cs] by (auto simp: unicode_escape_def read_hex4_def result_simps)
  show ?thesis
  proof (cases "0xD800 \<le> cp \<and> cp \<le> 0xDBFF")
    case True
    note run = assms(1) [unfolded unicode_escape_def cp and_then_simps prod.case if_P [OF True]]
    from run obtain x y cs2 where xy: "cs1 = x # y # cs2" "x = c_backslash" "y = [0x75]"
      by (auto split: list.splits if_splits)
    from run [unfolded xy(1) list.case] xy obtain low cs3 n where low: "read_hex4 cs2 = Inr (low, cs3)"
        and "utf8_char n = Some ch" and "cs' = cs3"
      by (auto simp: result_simps Let_def split: if_splits)
    moreover have "list_all char_ok cs3"
      using low ok xy read_hex_chars [of 4 0 cs2] by (simp add: read_hex4_def)
    ultimately show ?thesis
      using utf8_valid_char by blast
  next
    case False
    then have "utf8_char (unat cp) = Some ch" and "cs' = cs1"
      using assms(1) by (auto simp: unicode_escape_def cp result_simps split: if_splits)
    then show ?thesis
      using utf8_valid_char ok by blast
  qed
qed

text \<open>An escape stands for one of eight characters or for a code point.\<close>

definition named_escapes :: "bytes set" where
  "named_escapes = {c_quote, c_backslash, [0x2F], [0x08], [0x0C], [0x0A], [0x0D], [0x09]}"

lemma named_escapes_valid: "ch \<in> named_escapes \<Longrightarrow> utf8_valid ch"
  unfolding named_escapes_def by (elim insertE emptyE) (simp_all add: utf8_width_def)

lemma parse_escape_cases:
  assumes "parse_string_raw s (c_backslash # esc # cs) = Inr (r, cs')"
  obtains (named) ch where "ch \<in> named_escapes" "parse_string_raw (s @ ch) cs = Inr (r, cs')"
    | (unicode) ch cs2 where "unicode_escape cs = Inr (ch, cs2)" "parse_string_raw (s @ ch) cs2 = Inr (r, cs')"
proof -
  note run = assms [unfolded parse_string_raw.simps(2) [of s c_backslash]]
  show thesis
  proof (cases "esc = str ''u''")
    case True
    then show ?thesis
      using run unicode by (auto simp: str_byte result_simps)
  next
    case False
    then have "\<exists>ch\<in>named_escapes. parse_string_raw (s @ ch) cs = Inr (r, cs')"
      unfolding named_escapes_def using run by (simp split: if_split_asm)
    then show ?thesis
      using named by blast
  qed
qed

lemma parse_string_raw_valid:
  "\<lbrakk>parse_string_raw s cs = Inr (r, cs'); utf8_valid s; list_all char_ok cs\<rbrakk> \<Longrightarrow> utf8_valid r \<and> list_all char_ok cs'"
proof (induction "length cs" arbitrary: s cs rule: less_induct)
  case less
  show ?case
  proof (cases cs)
    case (Cons c cs1)
    note run = less.prems(1) [unfolded Cons parse_string_raw.simps]
    have step: ?thesis
      if "parse_string_raw (s @ ch) cs2 = Inr (r, cs')" "length cs2 < length cs" "utf8_valid ch" "list_all char_ok cs2" for ch cs2
      using less.hyps [OF that(2,1)] that less.prems(2) by (simp add: utf8_valid_append)
    consider (quote) "c = c_quote" | (plain) "c \<noteq> c_quote" "c \<noteq> c_backslash"
      | (escape) esc cs2 where "c = c_backslash" "cs1 = esc # cs2"
      using run by (cases cs1) (auto split: if_splits)
    then show ?thesis
    proof cases
      case quote
      then show ?thesis using run Cons less.prems by simp
    next
      case plain
      then have "parse_string_raw (s @ c) cs1 = Inr (r, cs')"
        using run by (simp split: if_splits)
      then show ?thesis
        using step Cons less.prems(3) by (simp add: char_ok_def)
    next
      case escape
      then have ok: "list_all char_ok cs2" and len: "length cs2 < length cs"
        using Cons less.prems(3) by simp_all
      from less.prems(1) [unfolded Cons escape] show ?thesis
      proof (cases rule: parse_escape_cases)
        case (named ch)
        then show ?thesis
          using step [OF named(2) len] ok named_escapes_valid by blast
      next
        case (unicode ch cs3)
        then show ?thesis
          using step [OF unicode(2)] len ok unicode_escape_valid [OF unicode(1)] unicode_escape_length [OF unicode(1)]
          by simp
      qed
    qed
  qed (use less.prems in \<open>simp add: parse_string_raw.simps\<close>)
qed

lemma skip_ws_chars: "list_all char_ok cs \<Longrightarrow> list_all char_ok (skip_ws cs)"
  by (auto simp: skip_ws_def list_all_iff dest: set_dropWhileD)

lemma string_value_valid:
  assumes "string_value_from_json raw = Inr v" and "utf8_valid raw"
  shows "json_ok v \<and> json_key v \<and> vdepth v = 0"
  using assms
  by (auto simp: string_value_from_json_def strip_prefix_eq_Some prefix_bytes utf8_width_def result_simps
      split: option.splits)

lemma key_value_valid:
  assumes "key_value_from_json raw = Inr k" and "utf8_valid raw"
  shows "json_key k \<and> vdepth k = 0"
proof (cases "try_parse_int_key raw")
  case None
  then show ?thesis
    using assms string_value_valid by (simp add: key_value_from_json_def)
next
  case (Some w)
  then have "json_key w \<and> vdepth w = 0"
    by (auto simp: try_parse_int_key_def Let_def split: if_splits option.splits)
  then show ?thesis
    using assms Some by (simp add: key_value_from_json_def)
qed

lemma chars_ok_tl: "list_all char_ok cs \<Longrightarrow> list_all char_ok (tl cs)"
  by (cases cs) simp_all

lemma expect_char_chars: "\<lbrakk>expect_char c cs = Inr cs'; list_all char_ok cs\<rbrakk> \<Longrightarrow> list_all char_ok cs'"
  by (cases cs) (auto simp: expect_char_def split: if_splits)

lemma parse_literal_chars: "\<lbrakk>parse_literal l v cs = Inr (w, cs'); list_all char_ok cs\<rbrakk> \<Longrightarrow> w = v \<and> list_all char_ok cs'"
  by (induction l v cs rule: parse_literal.induct) (auto split: if_splits)

lemma foldl_digits_ge: "(a :: nat) \<le> foldl (\<lambda>n d. 10 * n + f d) a ds"
proof (induction ds arbitrary: a)
  case (Cons d ds)
  have "a \<le> 10 * a + f d"
    by simp
  also have "\<dots> \<le> foldl (\<lambda>n d. 10 * n + f d) (10 * a + f d) ds"
    by (rule Cons.IH)
  finally show ?case
    by simp
qed simp

lemma magnitude_pos:
  assumes "list_all is_ascii_digit ds" and "ds \<noteq> []" and "ds \<noteq> [0x30]"
    and "\<not> (1 < length ds \<and> starts_with [0x30] ds)"
  shows "0 < decimal_nat ds"
proof (cases ds)
  case (Cons d ds')
  then have "d \<noteq> 0x30"
    using assms(3,4) by (cases ds') (auto simp: starts_with_def strip_prefix_def)
  moreover have "0x30 \<le> unat d" "unat (d - 0x30) = unat d - 0x30"
    using assms(1) Cons by (simp_all add: is_ascii_digit_def word_le_nat_alt unat_sub)
  ultimately have "0 < unat (d - 0x30)"
    by (simp add: word_unat_eq_iff)
  then show ?thesis
    using foldl_digits_ge [of "unat (d - 0x30)" "\<lambda>d. unat (d - 0x30)" ds'] Cons
    by (simp add: decimal_nat_def)
qed (use assms in simp)

lemma digits_of_chars: "list_all is_ascii_digit (concat (takeWhile char_is_digit cs))"
  by (induction cs) (auto simp: char_is_digit_def split: list.splits)

lemma parse_number_valid:
  assumes "parse_number cs = Inr (v, cs')" and "list_all char_ok cs"
  shows "json_ok v \<and> vdepth v = 0 \<and> list_all char_ok cs'"
proof -
  define cs1 where "cs1 = (if peek_char cs = Some c_minus then tl cs else cs)"
  define digits where "digits = concat (takeWhile char_is_digit cs1)"
  note run = assms(1) [unfolded parse_number_def Let_def, folded cs1_def, folded digits_def]
  have cs': "cs' = dropWhile char_is_digit cs1"
    using run by (auto simp: result_simps split: if_split_asm)
  have "list_all char_ok cs1"
    using assms(2) chars_ok_tl by (simp add: cs1_def)
  then have "list_all char_ok cs'"
    unfolding cs' by (auto simp: list_all_iff dest: set_dropWhileD)
  moreover have "m - 1 \<le> i64_max"
    if m: "parse_u64 digits = Inr m" "\<not> 9223372036854775808 < m" and "digits \<noteq> []" "digits \<noteq> [0x30]"
      "\<not> (1 < length digits \<and> starts_with [0x30] digits)" for m
  proof -
    have "0 < decimal_nat digits" and "decimal_nat digits < 2 ^ 64" and "m = word_of_nat (decimal_nat digits)"
      using magnitude_pos [of digits] that digits_of_chars [of cs1]
      by (auto simp: parse_u64_def digits_def split: if_split_asm)
    then have "0 < unat m"
      by (simp add: unsigned_of_nat take_bit_nat_eq_self)
    then have "unat (m - 1) = unat m - 1"
      by (simp add: unat_sub word_le_nat_alt)
    then show ?thesis
      using m(2) by (simp add: word_le_nat_alt word_less_nat_alt i64_max_def)
  qed
  ultimately show ?thesis
    using run by (auto simp: result_simps split: if_split_asm)
qed

lemma vdepth_empty: "vdepth (Map []) = 0" "vdepth (Array []) = 0"
  using vdepth_Map_le [of "[]" 0] vdepth_Array_le [of "[]" 0] by simp_all

definition within :: "nat \<Rightarrow> val \<Rightarrow> bool" where
  "within d v \<longleftrightarrow> json_ok v \<and> d + vdepth v \<le> 64"

lemma json_valid:
  "\<lbrakk>json_value d cs = Inr (v, cs'); list_all char_ok cs\<rbrakk> \<Longrightarrow> within d v \<and> list_all char_ok cs'"
  "\<lbrakk>json_items d vs cs = Inr (v, cs'); list_all char_ok cs; list_all (within (d + 1)) vs; d \<le> 64\<rbrakk>
    \<Longrightarrow> within d v \<and> list_all char_ok cs'"
  "\<lbrakk>json_entries d es cs = Inr (v, cs'); list_all char_ok cs;
     list_all (\<lambda>e. json_key (fst e) \<and> vdepth (fst e) = 0 \<and> within (d + 1) (snd e)) es; distinct (map fst es); d \<le> 64\<rbrakk>
    \<Longrightarrow> within d v \<and> list_all char_ok cs'"
proof (induction d cs and d vs cs and d es cs arbitrary: v cs' and v cs' and v cs'
    rule: json_value_json_items_json_entries.induct)
  case (1 d cs0)
  note run = "1.prems"(1) [unfolded json_value.simps [of d cs0]]
  then obtain c cs where c: "skip_ws cs0 = c # cs" and depth: "\<not> max_depth < d"
    by (auto split: if_splits list.splits)
  then have d: "d \<le> 64"
    by (simp add: max_depth_def)
  have "list_all char_ok (c # cs)"
    using skip_ws_chars [OF "1.prems"(2)] by (simp only: c)
  then have ok: "list_all char_ok (c # cs)" "list_all char_ok cs" "list_all char_ok (skip_ws cs)"
    "list_all char_ok (tl (skip_ws cs))"
    using skip_ws_chars chars_ok_tl by auto
  note run = run [unfolded if_not_P [OF depth] c list.case Let_def]
  consider (map) "c = c_lbrace" | (array) "c = c_lbracket" | (string) "c = c_quote"
    | (number) "c = c_minus \<or> char_is_digit c"
    | (word) "c \<noteq> c_lbrace" "c \<noteq> c_lbracket" "c \<noteq> c_quote" "\<not> (c = c_minus \<or> char_is_digit c)"
    by blast
  then show ?case
  proof cases
    case map
    then show ?thesis
      using run "1.IH"(1) [OF depth c map refl] ok d by (auto simp: within_def vdepth_empty split: if_splits)
  next
    case array
    then show ?thesis
      using run "1.IH"(2) [OF depth c _ array refl] ok d by (auto simp: within_def vdepth_empty split: if_splits)
  next
    case string
    then show ?thesis
      using run ok d parse_string_raw_valid [of "[]" cs] string_value_valid
      by (fastforce simp: within_def result_simps)
  next
    case number
    then have "parse_number (c # cs) = Inr (v, cs')"
      using run by (auto simp: char_is_digit_def is_ascii_digit_def split: if_split_asm)
    then show ?thesis
      using parse_number_valid ok d by (simp add: within_def)
  next
    case word
    then show ?thesis
      using run ok d by (auto simp: within_def dest!: parse_literal_chars split: if_split_asm)
  qed
next
  case (2 d vs cs)
  note run = "2.prems"(1) [unfolded json_items.simps [of d vs cs]]
  then obtain w cs1 c cs2 where w: "json_value (d + 1) cs = Inr (w, cs1)" and c: "skip_ws cs1 = c # cs2"
    by (auto simp: result_simps neq_Nil_conv split: list.split_asm)
  have ok: "within (d + 1) w" "list_all char_ok cs1"
    using "2.IH"(1) [OF w "2.prems"(2)] by auto
  have "list_all char_ok (c # cs2)"
    using skip_ws_chars [OF ok(2)] by (simp only: c)
  then have ok2: "list_all char_ok cs2" "list_all char_ok (skip_ws cs2)"
    using skip_ws_chars by auto
  note run = run [unfolded w and_then_simps prod.case c list.case]
  have vs: "list_all (within (d + 1)) (vs @ [w])"
    using ok "2.prems"(3) by simp
  then have "within d (Array (vs @ [w]))"
    using "2.prems"(4) vdepth_Array_le [of "vs @ [w]" "64 - d"] by (auto simp: within_def list_all_iff)
  then show ?case
    using run "2.IH"(2) [OF w refl c] ok2 vs "2.prems"(4) by (auto split: if_split_asm)
next
  case (3 d es cs)
  note run = "3.prems"(1) [unfolded json_entries.simps [of d es cs]]
  then obtain cs1 k cs2 key cs3 w cs4 c cs5 where read: "expect_char c_quote (skip_ws cs) = Inr cs1"
      "parse_string_raw [] cs1 = Inr (k, cs2)" "key_value_from_json k = Inr key"
      "expect_char c_colon (skip_ws cs2) = Inr cs3" "json_value (d + 1) cs3 = Inr (w, cs4)"
    and new: "key \<notin> fst ` set es" and c: "skip_ws cs4 = c # cs5"
    by (auto simp: result_simps neq_Nil_conv split: list.split_asm if_split_asm) metis
  have cs1: "list_all char_ok cs1"
    using expect_char_chars [OF read(1) skip_ws_chars [OF "3.prems"(2)]] .
  have k: "utf8_valid k" "list_all char_ok cs2"
    using parse_string_raw_valid [OF read(2) _ cs1] by auto
  have key: "json_key key \<and> vdepth key = 0"
    using key_value_valid [OF read(3) k(1)] .
  have cs3: "list_all char_ok cs3"
    using expect_char_chars [OF read(4) skip_ws_chars [OF k(2)]] .
  have w: "within (d + 1) w" "list_all char_ok cs4"
    using "3.IH"(1) [OF read(1,2) refl read(3,4,5) cs3] by auto
  have "list_all char_ok (c # cs5)"
    using skip_ws_chars [OF w(2)] by (simp only: c)
  then have cs5: "list_all char_ok cs5"
    by simp
  note run = run [unfolded read and_then_simps prod.case c list.case if_not_P [OF new]]
  let ?es = "es @ [(key, w)]"
  have es: "list_all (\<lambda>e. json_key (fst e) \<and> vdepth (fst e) = 0 \<and> within (d + 1) (snd e)) ?es"
    "distinct (map fst ?es)"
    using w key new "3.prems"(3,4) by simp_all
  then have "within d (Map ?es)"
    using "3.prems"(5) vdepth_Map_le [of ?es "64 - d"] by (auto simp: within_def list_all_iff)
  then show ?case
    using run "3.IH"(2) [OF read(1,2) refl read(3,4,5) refl new c _ _ cs5 es] cs5 "3.prems"(5)
    by (auto split: if_split_asm)
qed

section \<open>The interchange form\<close>

lemma json_round_trip:
  assumes "json_ok v" and "vdepth v \<le> 64"
  shows "from_json (to_json dbg v) = Inr v"
proof -
  have "reads dbg 0 v"
    using assms by (intro reads_value) simp_all
  then have "json_value 0 (chars_of (to_json dbg v)) = Inr (v, [])"
    using stops_def unfolding reads_def by (metis append_Nil2 chars_of.simps(1) list.case(1))
  then show ?thesis
    by (simp add: from_json_def skip_ws_def peek_char_def)
qed

lemma from_json_ok:
  assumes "from_json s = Inr v" and "utf8_valid s"
  shows "json_ok v \<and> vdepth v \<le> 64"
proof -
  obtain cs where "json_value 0 (chars_of s) = Inr (v, cs)"
    using assms(1) by (auto simp: from_json_def result_simps split: if_splits)
  then show ?thesis
    using json_valid(1) chars_of_ok [OF assms(2)] by (fastforce simp: within_def)
qed

text \<open>C34. The JSON form. What the parser can yield is exactly what the form carries (distinct integer,
  byte or text keys, negative values in the range of \<open>i64\<close>, at most 64 levels); and every such value
  is rendered as valid UTF-8 that the parser reads back as the same value.\<close>

theorem json_interchange:
  "((\<exists>s. utf8_valid s \<and> from_json s = Inr v) \<longleftrightarrow> json_ok v \<and> vdepth v \<le> 64)
   \<and> (json_ok v \<and> vdepth v \<le> 64 \<longrightarrow> utf8_valid (to_json dbg v) \<and> from_json (to_json dbg v) = Inr v)"
  using json_round_trip utf8_valid_to_json from_json_ok by blast

definition sample_value :: val where
  "sample_value = Map
     [(Text (str ''n''), Array [Uint 7, Nint 4, Bytes [0x0F], Null]), (Text (str ''5''), Bool True),
      (Uint 5, Text (str ''hex:'' @ [0x0A, 0xC3, 0xA9])), (Nint 0, Map [])]"

lemma json_interchange_witness:
  "from_json (to_json (\<lambda>_. []) sample_value) = Inr sample_value"
proof -
  have "json_ok sample_value" "vdepth sample_value \<le> 64"
    by code_simp+
  then show ?thesis
    using json_interchange [of sample_value "\<lambda>_. []"] by blast
qed

text \<open>A key the form does not carry renders like a text key, so \<open>to_json\<close> is not injective there.\<close>

lemma unsupported_bytes: "str ''unsupported-key:'' = 0x75 # str ''nsupported-key:''"
  by code_simp

lemma unsupported_key_collides:
  "to_json dbg (Map [(Null, v)]) = to_json dbg (Map [(Text (str ''unsupported-key:'' @ dbg Null), v)])"
  by (simp add: to_json_simps key_json_string_def starts_with_def prefix_bytes unsupported_bytes strip_prefix_def
      try_parse_int_key_def is_ascii_digit_def)

end
