(* ===== verification/Frames.thy ===== *)
theory Frames
  imports CodecSpec
begin

unbundle bit_operations_syntax

text \<open>
  The codec of the relay's frames, \<open>crates/evermesh-relay/src/frames.rs\<close>: a value tree without negative
  integers, its encoder, and a decoder over a position in the frame.  It does not use the kernel's
  codec; \<open>FramesSpec\<close> proves that the two agree.
\<close>

datatype frame_error =
    Truncated
  | TrailingBytes
  | FNonCanonical string
  | UnexpectedType string
  | Unsupported string
  | FUtf8
  | BadShape string
  | UnknownFrameTag bytes

datatype fval =
    FUint u64
  | FBytes bytes
  | FText bytes
  | FBool bool
  | FNull
  | FArray "fval list"
  | FMap "(fval \<times> fval) list"

fun as_uint :: "fval \<Rightarrow> u64 option" where
  "as_uint (FUint v) = Some v"
| "as_uint _ = None"

fun fas_bytes :: "fval \<Rightarrow> bytes option" where
  "fas_bytes (FBytes b) = Some b"
| "fas_bytes _ = None"

definition as_bytes32 :: "fval \<Rightarrow> bytes option" where
  "as_bytes32 v = Option.bind (fas_bytes v) (\<lambda>b. if length b \<noteq> 32 then None else Some b)"

fun fas_text :: "fval \<Rightarrow> bytes option" where
  "fas_text (FText s) = Some s"
| "fas_text _ = None"

fun fas_array :: "fval \<Rightarrow> fval list option" where
  "fas_array (FArray items) = Some items"
| "fas_array _ = None"

fun fas_map :: "fval \<Rightarrow> (fval \<times> fval) list option" where
  "fas_map (FMap pairs) = Some pairs"
| "fas_map _ = None"

section \<open>Encoding\<close>

definition encode_head :: "bytes \<Rightarrow> u8 \<Rightarrow> u64 \<Rightarrow> bytes" where
  "encode_head buf major0 value =
     (let major = push_bit 5 major0 in
      if value \<le> 23 then buf @ [major OR ucast value]
      else if value \<le> 255 then buf @ [major OR 24] @ [ucast value]
      else if value \<le> 65535 then buf @ [major OR 25] @ be_bytes 2 (unat value)
      else if value \<le> 4294967295 then buf @ [major OR 26] @ be_bytes 4 (unat value)
      else buf @ [major OR 27] @ be_bytes 8 (unat value))"

fun encode_fval :: "bytes \<Rightarrow> fval \<Rightarrow> bytes" where
  "encode_fval buf (FUint x) = encode_head buf 0 x"
| "encode_fval buf (FBytes b) = encode_head buf 2 (word_of_nat (length b)) @ b"
| "encode_fval buf (FText s) = encode_head buf 3 (word_of_nat (length s)) @ s"
| "encode_fval buf (FBool b) = buf @ [if b then 0xF5 else 0xF4]"
| "encode_fval buf FNull = buf @ [0xF6]"
| "encode_fval buf (FArray items) =
     foldl encode_fval (encode_head buf 4 (word_of_nat (length items))) items"
| "encode_fval buf (FMap pairs) =
     (let encoded = sort_key fst (map (\<lambda>(k, v). (encode_fval [] k, encode_fval [] v)) pairs)
      in foldl (\<lambda>b (k, v). b @ k @ v) (encode_head buf 5 (word_of_nat (length encoded))) encoded)"

definition encode_value_to_vec :: "fval \<Rightarrow> bytes" where
  "encode_value_to_vec v = encode_fval [] v"

section \<open>Decoding\<close>

definition fread_bytes :: "bytes \<Rightarrow> nat \<Rightarrow> nat \<Rightarrow> frame_error + bytes \<times> nat" where
  "fread_bytes buf pos n =
     (if usize_max < int pos + int n then Inl Truncated
      else if length buf < pos + n then Inl Truncated
      else Inr (slice buf pos (pos + n), pos + n))"

definition fread_be :: "nat \<Rightarrow> bytes \<Rightarrow> nat \<Rightarrow> frame_error + u64 \<times> nat" where
  "fread_be n buf pos = and_then (fread_bytes buf pos n) (\<lambda>(b, pos'). Inr (word_of_nat (be_nat b), pos'))"

definition fread_length :: "bytes \<Rightarrow> nat \<Rightarrow> u8 \<Rightarrow> frame_error + u64 \<times> nat" where
  "fread_length buf pos ai =
     (if ai \<le> 23 then Inr (ucast ai, pos)
      else if ai = 24 then
        (if pos < length buf then
           let v = ucast (buf ! pos) in
           if v < 24 then Inl (FNonCanonical ''1-byte length not minimal'') else Inr (v, pos + 1)
         else Inl Truncated)
      else if ai = 25 then
        and_then (fread_be 2 buf pos) (\<lambda>(v, pos').
          if v \<le> 255 then Inl (FNonCanonical ''2-byte length not minimal'') else Inr (v, pos'))
      else if ai = 26 then
        and_then (fread_be 4 buf pos) (\<lambda>(v, pos').
          if v \<le> 65535 then Inl (FNonCanonical ''4-byte length not minimal'') else Inr (v, pos'))
      else if ai = 27 then
        and_then (fread_be 8 buf pos) (\<lambda>(v, pos').
          if v \<le> 4294967295 then Inl (FNonCanonical ''8-byte length not minimal'') else Inr (v, pos'))
      else if 28 \<le> ai \<and> ai \<le> 30 then Inl (Unsupported ''reserved additional info'')
      else if ai = 31 then Inl (Unsupported ''indefinite length'')
      else Inl (Unsupported ''invalid additional info''))"

text \<open>\<open>read_length\<close> followed by \<open>checked_len\<close>.\<close>

definition checked_len :: "bytes \<Rightarrow> nat \<Rightarrow> u64 \<Rightarrow> frame_error + nat" where
  "checked_len buf pos len = (if length buf - pos < unat len then Inl Truncated else Inr (unat len))"

definition fread_len :: "bytes \<Rightarrow> nat \<Rightarrow> u8 \<Rightarrow> frame_error + nat \<times> nat" where
  "fread_len buf pos ai =
     and_then (fread_length buf pos ai) (\<lambda>(raw_len, pos').
     and_then (checked_len buf pos' raw_len) (\<lambda>len. Inr (len, pos')))"

text \<open>The decoder has no depth limit: it recurses as deep as the frame nests.\<close>

function (sequential) decode_fval :: "bytes \<Rightarrow> nat \<Rightarrow> frame_error + fval \<times> nat"
and decode_fitems :: "bytes \<Rightarrow> nat \<Rightarrow> nat \<Rightarrow> frame_error + fval list \<times> nat"
and decode_fpairs :: "bytes \<Rightarrow> nat \<Rightarrow> bytes option \<Rightarrow> nat \<Rightarrow> frame_error + (fval \<times> fval) list \<times> nat" where
  "decode_fval buf pos =
     (if length buf \<le> pos then Inl Truncated
      else
        let head = buf ! pos; major = drop_bit 5 head; ai = head AND 0x1F in
        if major = 0 then and_then (fread_length buf (pos + 1) ai) (\<lambda>(n, pos). Inr (FUint n, pos))
        else if major = 1 then Inl (Unsupported ''negative integers'')
        else if major = 2 then
          and_then (fread_len buf (pos + 1) ai) (\<lambda>(len, pos).
          and_then (fread_bytes buf pos len) (\<lambda>(b, pos). Inr (FBytes b, pos)))
        else if major = 3 then
          and_then (fread_len buf (pos + 1) ai) (\<lambda>(len, pos).
          and_then (fread_bytes buf pos len) (\<lambda>(b, pos).
            if utf8_valid b then Inr (FText b, pos) else Inl FUtf8))
        else if major = 4 then
          and_then (fread_len buf (pos + 1) ai) (\<lambda>(len, pos).
          and_then (decode_fitems buf pos len) (\<lambda>(items, pos). Inr (FArray items, pos)))
        else if major = 5 then
          and_then (fread_len buf (pos + 1) ai) (\<lambda>(len, pos).
          and_then (decode_fpairs buf pos None len) (\<lambda>(pairs, pos). Inr (FMap pairs, pos)))
        else if major = 6 then Inl (Unsupported ''tags'')
        else if major = 7 then
          (if ai = 20 then Inr (FBool False, pos + 1)
           else if ai = 21 then Inr (FBool True, pos + 1)
           else if ai = 22 then Inr (FNull, pos + 1)
           else Inl (Unsupported ''simple value or float''))
        else Inl (Unsupported ''invalid major type''))"
| "decode_fitems buf pos 0 = Inr ([], pos)"
| "decode_fitems buf pos (Suc n) =
     and_then (decode_fval buf pos) (\<lambda>(v, pos1).
     and_then (decode_fitems buf pos1 n) (\<lambda>(vs, pos2). Inr (v # vs, pos2)))"
| "decode_fpairs buf pos prev 0 = Inr ([], pos)"
| "decode_fpairs buf pos prev (Suc n) =
     and_then (decode_fval buf pos) (\<lambda>(k, pos1).
     and_then (decode_fval buf pos1) (\<lambda>(v, pos2).
       let key_bytes = slice buf pos pos1 in
       if (case prev of Some p \<Rightarrow> key_bytes \<le> p | None \<Rightarrow> False)
       then Inl (FNonCanonical ''map keys not strictly sorted'')
       else and_then (decode_fpairs buf pos2 (Some key_bytes) n) (\<lambda>(es, pos3). Inr ((k, v) # es, pos3))))"
  by pat_completeness auto

lemma fread_bytes_pos: "fread_bytes buf pos n = Inr (b, pos') \<Longrightarrow> pos' = pos + n \<and> pos' \<le> length buf"
  by (auto simp: fread_bytes_def split: if_splits)

lemma fread_be_pos: "fread_be n buf pos = Inr (v, pos') \<Longrightarrow> pos \<le> pos' \<and> pos' \<le> length buf"
  by (auto simp: fread_be_def result_simps dest: fread_bytes_pos)

lemma fread_length_pos: "\<lbrakk>fread_length buf pos ai = Inr (v, pos'); pos \<le> length buf\<rbrakk> \<Longrightarrow> pos \<le> pos' \<and> pos' \<le> length buf"
  by (auto simp: fread_length_def result_simps Let_def split: if_splits dest: fread_be_pos)

lemma fread_len_pos:
  "\<lbrakk>fread_len buf pos ai = Inr (n, pos'); pos \<le> length buf\<rbrakk> \<Longrightarrow> pos \<le> pos' \<and> pos' + n \<le> length buf"
  by (auto simp: fread_len_def checked_len_def result_simps split: if_splits dest!: fread_length_pos)

lemma decode_fval_pos:
  "decode_fval_decode_fitems_decode_fpairs_dom (Inl (buf, pos)) \<Longrightarrow> decode_fval buf pos = Inr (v, pos') \<Longrightarrow>
    pos < pos' \<and> pos' \<le> length buf"
  "decode_fval_decode_fitems_decode_fpairs_dom (Inr (Inl (buf, pos, n))) \<Longrightarrow> decode_fitems buf pos n = Inr (vs, pos') \<Longrightarrow>
    pos \<le> length buf \<Longrightarrow> pos \<le> pos' \<and> pos' \<le> length buf"
  "decode_fval_decode_fitems_decode_fpairs_dom (Inr (Inr (buf, pos, prev, n))) \<Longrightarrow> decode_fpairs buf pos prev n = Inr (es, pos') \<Longrightarrow>
    pos \<le> length buf \<Longrightarrow> pos \<le> pos' \<and> pos' \<le> length buf"
proof (induction buf pos and buf pos n and buf pos prev n arbitrary: v pos' and vs pos' and es pos'
    rule: decode_fval_decode_fitems_decode_fpairs.pinduct)
  case (1 buf pos)
  note run = "1.prems" [unfolded decode_fval.psimps [OF "1.hyps"]]
  have len: "pos < length buf"
    using run by (simp split: if_splits)
  then have not: "\<not> length buf \<le> pos"
    by simp
  define head where "head = buf ! pos"
  define ai where "ai = head AND 0x1F"
  note run = run [unfolded if_not_P [OF not] Let_def, folded head_def, folded ai_def]
  note IH = "1.IH" [OF not head_def refl ai_def]
  consider (uint) "drop_bit 5 head = 0" | (bytes) "drop_bit 5 head = 2" | (chars) "drop_bit 5 head = 3"
    | (array) "drop_bit 5 head = 4" | (map) "drop_bit 5 head = 5" | (simple) "drop_bit 5 head = 7"
    using run by (auto split: if_split_asm)
  then show ?case
  proof cases
    case uint
    then show ?thesis
      using run len by (auto simp: result_simps dest: fread_length_pos)
  next
    case bytes
    then show ?thesis
      using run len by (auto simp: result_simps dest!: fread_len_pos fread_bytes_pos)
  next
    case chars
    then show ?thesis
      using run len by (auto simp: result_simps split: if_splits dest!: fread_len_pos fread_bytes_pos)
  next
    case array
    then obtain n p vs where "fread_len buf (pos + 1) ai = Inr (n, p)" and "decode_fitems buf p n = Inr (vs, pos')"
      using run by (auto simp: result_simps)
    then show ?thesis
      using IH(1) array len by (fastforce dest: fread_len_pos)
  next
    case map
    then obtain n p es where "fread_len buf (pos + 1) ai = Inr (n, p)" and "decode_fpairs buf p None n = Inr (es, pos')"
      using run by (auto simp: result_simps)
    then show ?thesis
      using IH(2) map len by (fastforce dest: fread_len_pos)
  next
    case simple
    then show ?thesis
      using run len by (auto split: if_split_asm)
  qed
next
  case (2 buf pos)
  then show ?case by (simp add: decode_fitems.psimps)
next
  case (3 buf pos n)
  show ?case
    using "3.prems" "3.IH" by (fastforce simp: decode_fitems.psimps(2) [OF "3.hyps"] result_simps)
next
  case (4 buf pos prev)
  then show ?case by (simp add: decode_fpairs.psimps)
next
  case (5 buf pos prev n)
  note run = "5.prems"(1) [unfolded decode_fpairs.psimps(2) [OF "5.hyps"]]
  then obtain k p1 w p2 fs where k: "decode_fval buf pos = Inr (k, p1)" and w: "decode_fval buf p1 = Inr (w, p2)"
    and order: "\<not> (case prev of Some p \<Rightarrow> slice buf pos p1 \<le> p | None \<Rightarrow> False)"
    and fs: "decode_fpairs buf p2 (Some (slice buf pos p1)) n = Inr (fs, pos')"
    by (auto simp: result_simps Let_def split: if_split_asm)
  have "pos < p1" "p1 < p2" "p2 \<le> length buf"
    using "5.IH"(1) [OF k] "5.IH"(2) [OF k refl w] by auto
  then show ?case
    using "5.IH"(3) [OF k refl w refl refl order fs] by simp
qed

termination decode_fval
  by (relation "measures
        [\<lambda>x. case x of Inl (buf, pos) \<Rightarrow> length buf - pos | Inr (Inl (buf, pos, _)) \<Rightarrow> length buf - pos
             | Inr (Inr (buf, pos, _, _)) \<Rightarrow> length buf - pos,
         \<lambda>x. case x of Inl _ \<Rightarrow> 0 | Inr (Inl (_, _, n)) \<Rightarrow> Suc n | Inr (Inr (_, _, _, n)) \<Rightarrow> Suc n]")
    (auto dest!: decode_fval_pos(1) dest: fread_len_pos)

declare decode_fval.simps [simp del]

definition decode_value_complete :: "bytes \<Rightarrow> frame_error + fval" where
  "decode_value_complete bytes =
     and_then (decode_fval bytes 0) (\<lambda>(v, pos). if pos \<noteq> length bytes then Inl TrailingBytes else Inr v)"

end
