(* ===== verification/FramesSpec.thy ===== *)
theory FramesSpec
  imports Frames
begin

unbundle bit_operations_syntax

text \<open>
  The relay's frame codec and the kernel's codec agree: on values without negative integers they write
  the same bytes, and up to the kernel's depth limit they accept the same bytes for the same values.
\<close>

section \<open>Frame values as kernel values\<close>

fun kval :: "fval \<Rightarrow> val" where
  "kval (FUint n) = Uint n"
| "kval (FBytes b) = Bytes b"
| "kval (FText s) = Text s"
| "kval (FBool b) = Bool b"
| "kval FNull = Null"
| "kval (FArray vs) = Array (map kval vs)"
| "kval (FMap es) = Map (map (\<lambda>e. (kval (fst e), kval (snd e))) es)"

fun plain :: "val \<Rightarrow> bool" where
  "plain (Nint n) = False"
| "plain (Array vs) = list_all plain vs"
| "plain (Map es) = list_all (\<lambda>e. plain (fst e) \<and> plain (snd e)) es"
| "plain _ = True"

section \<open>Lengths\<close>

lemma fread_bytes_iff: "fread_bytes buf pos n = Inr r \<longleftrightarrow> read_exact buf pos n = Inr r"
  by (auto simp: fread_bytes_def read_exact_def)

lemma fread_be_iff: "fread_be n buf pos = Inr r \<longleftrightarrow> read_be n buf pos = Inr r"
  by (simp add: fread_be_def read_be_def result_simps fread_bytes_iff)

lemma fread_length_iff: "fread_length buf pos ai = Inr r \<longleftrightarrow> read_arg buf pos ai = Inr r"
  by (cases r) (auto simp: fread_length_def read_arg_def read_u8_def result_simps fread_be_iff Let_def)

lemma fread_len_iff: "fread_len buf pos ai = Inr r \<longleftrightarrow> read_length buf pos ai = Inr r"
  by (cases r) (auto simp: fread_len_def checked_len_def read_length_def result_simps fread_length_iff)

lemmas fread_iffs = fread_bytes_iff fread_length_iff fread_len_iff

section \<open>What frames accept, the kernel accepts\<close>

lemma kval_depth:
  "v \<in> set vs \<Longrightarrow> vdepth (kval v) < vdepth (kval (FArray vs))"
  "e \<in> set es \<Longrightarrow> vdepth (kval (fst e)) < vdepth (kval (FMap es)) \<and> vdepth (kval (snd e)) < vdepth (kval (FMap es))"
  using vdepth_Array_le [of "map kval vs" "vdepth (kval (FArray vs))"]
    vdepth_Map_le [of "map (\<lambda>e. (kval (fst e), kval (snd e))) es" "vdepth (kval (FMap es))"]
  by auto

lemma kernel_accepts:
  "\<lbrakk>decode_fval buf pos = Inr (v, pos'); d + vdepth (kval v) \<le> 64\<rbrakk> \<Longrightarrow> parse_value buf pos d = Inr (kval v, pos')"
  "\<lbrakk>decode_fitems buf pos n = Inr (vs, pos'); \<forall>v\<in>set vs. d + vdepth (kval v) \<le> 64\<rbrakk>
    \<Longrightarrow> parse_items buf pos d n = Inr (map kval vs, pos')"
  "\<lbrakk>decode_fpairs buf pos prev n = Inr (es, pos');
     \<forall>e\<in>set es. d + vdepth (kval (fst e)) \<le> 64 \<and> d + vdepth (kval (snd e)) \<le> 64\<rbrakk>
    \<Longrightarrow> parse_entries buf pos d prev n = Inr (map (\<lambda>e. (kval (fst e), kval (snd e))) es, pos')"
proof (induction buf pos and buf pos n and buf pos prev n arbitrary: v pos' d and vs pos' d and es pos' d
    rule: decode_fval_decode_fitems_decode_fpairs.induct)
  case (1 buf pos)
  note run = "1.prems"(1) [unfolded decode_fval.simps [of buf pos]]
  have len: "pos < length buf"
    using run by (simp split: if_splits)
  then have not: "\<not> length buf \<le> pos"
    by simp
  define head where "head = buf ! pos"
  define ai where "ai = head AND 0x1F"
  note run = run [unfolded if_not_P [OF not] Let_def, folded head_def, folded ai_def]
  note IH = "1.IH" [OF not head_def refl ai_def]
  have d: "\<not> max_depth < d"
    using "1.prems"(2) by (simp add: max_depth_def)
  note kernel = parse_value.simps [of buf pos d]
  note start = read_u8_ok [OF len] d not head_def [symmetric] ai_def [symmetric] Let_def
  consider (uint) "drop_bit 5 head = 0" | (bytes) "drop_bit 5 head = 2" | (chars) "drop_bit 5 head = 3"
    | (array) "drop_bit 5 head = 4" | (map) "drop_bit 5 head = 5" | (simple) "drop_bit 5 head = 7"
    using run by (auto split: if_split_asm)
  then show ?case
  proof cases
    case uint
    then show ?thesis
      using run by (auto simp: kernel start result_simps fread_iffs)
  next
    case bytes
    then show ?thesis
      using run by (fastforce simp: kernel start result_simps fread_iffs)
  next
    case chars
    then show ?thesis
      using run by (fastforce simp: kernel start result_simps fread_iffs split: if_splits)
  next
    case array
    then obtain n p vs where n: "fread_len buf (pos + 1) ai = Inr (n, p)"
      and vs: "decode_fitems buf p n = Inr (vs, pos')" and v: "v = FArray vs"
      using run by (auto simp: result_simps)
    have "\<forall>w\<in>set vs. (d + 1) + vdepth (kval w) \<le> 64"
      using "1.prems"(2) kval_depth(1) [of _ vs] unfolding v by fastforce
    then have "parse_items buf p (d + 1) n = Inr (map kval vs, pos')"
      using IH(1) array n vs by fastforce
    then show ?thesis
      using array n v by (simp add: kernel start result_simps fread_iffs)
  next
    case map
    then obtain n p es where n: "fread_len buf (pos + 1) ai = Inr (n, p)"
      and es: "decode_fpairs buf p None n = Inr (es, pos')" and v: "v = FMap es"
      using run by (auto simp: result_simps)
    have "\<forall>e\<in>set es. (d + 1) + vdepth (kval (fst e)) \<le> 64 \<and> (d + 1) + vdepth (kval (snd e)) \<le> 64"
      using "1.prems"(2) kval_depth(2) [of _ es] unfolding v by fastforce
    then have "parse_entries buf p (d + 1) None n = Inr (map (\<lambda>e. (kval (fst e), kval (snd e))) es, pos')"
      using IH(2) map n es by fastforce
    then show ?thesis
      using map n v by (simp add: kernel start result_simps fread_iffs)
  next
    case simple
    then show ?thesis
      using run by (auto simp: kernel start split: if_split_asm)
  qed
next
  case (3 buf pos n)
  then show ?case
    by (fastforce simp: result_simps)
next
  case (5 buf pos prev n)
  then show ?case
    by (fastforce simp: result_simps Let_def split: if_split_asm)
qed simp_all

section \<open>What the kernel accepts without negative integers, frames accept\<close>

lemma frames_accept:
  "\<lbrakk>parse_value buf pos d = Inr (w, pos'); plain w\<rbrakk> \<Longrightarrow> \<exists>v. decode_fval buf pos = Inr (v, pos') \<and> kval v = w"
  "\<lbrakk>parse_items buf pos d n = Inr (ws, pos'); list_all plain ws\<rbrakk>
    \<Longrightarrow> \<exists>vs. decode_fitems buf pos n = Inr (vs, pos') \<and> map kval vs = ws"
  "\<lbrakk>parse_entries buf pos d prev n = Inr (fs, pos'); list_all (\<lambda>e. plain (fst e) \<and> plain (snd e)) fs\<rbrakk>
    \<Longrightarrow> \<exists>es. decode_fpairs buf pos prev n = Inr (es, pos') \<and> map (\<lambda>e. (kval (fst e), kval (snd e))) es = fs"
proof (induction buf pos d and buf pos d n and buf pos d prev n arbitrary: w pos' and ws pos' and fs pos'
    rule: parse_value_parse_items_parse_entries.induct)
  case (1 buf pos d)
  note run = "1.prems"(1) [unfolded parse_value.simps [of buf pos d]]
  have d: "\<not> max_depth < d"
    using run by (auto split: if_splits)
  have len: "pos < length buf"
    using run d by (auto simp: result_simps read_u8_def split: if_splits)
  then have not: "\<not> length buf \<le> pos"
    by simp
  define head where "head = buf ! pos"
  define ai where "ai = head AND 0x1F"
  note start = read_u8_ok [OF len] d not head_def [symmetric] ai_def [symmetric] Let_def
  note run = run [unfolded if_not_P [OF d] read_u8_ok [OF len], simplified, unfolded Let_def, folded head_def, folded ai_def]
  note IH = "1.IH" [OF d read_u8_ok [OF len] refl, folded head_def, OF refl ai_def]
  note frame = decode_fval.simps [of buf pos]
  consider (uint) "drop_bit 5 head = 0" | (nint) "drop_bit 5 head = 1" | (bytes) "drop_bit 5 head = 2"
    | (chars) "drop_bit 5 head = 3"
    | (array) "drop_bit 5 head = 4" | (map) "drop_bit 5 head = 5" | (simple) "drop_bit 5 head = 7"
    using run by (auto split: if_split_asm)
  then show ?case
  proof cases
    case uint
    then show ?thesis
      using run by (auto simp: frame start result_simps fread_iffs)
  next
    case nint
    then show ?thesis
      using run "1.prems"(2) by (auto simp: result_simps)
  next
    case bytes
    then show ?thesis
      using run by (fastforce simp: frame start result_simps fread_iffs)
  next
    case chars
    then show ?thesis
      using run by (fastforce simp: frame start result_simps fread_iffs split: if_splits)
  next
    case array
    then obtain n p ws where n: "read_length buf (pos + 1) ai = Inr (n, p)"
      and ws: "parse_items buf p (d + 1) n = Inr (ws, pos')" and w: "w = Array ws"
      using run by (auto simp: result_simps)
    then obtain vs where "decode_fitems buf p n = Inr (vs, pos')" "map kval vs = ws"
      using IH(1) array "1.prems"(2) by fastforce
    then show ?thesis
      using array n w by (auto simp: frame start result_simps fread_iffs)
  next
    case map
    then obtain n p fs where n: "read_length buf (pos + 1) ai = Inr (n, p)"
      and fs: "parse_entries buf p (d + 1) None n = Inr (fs, pos')" and w: "w = Map fs"
      using run by (auto simp: result_simps)
    then obtain es where "decode_fpairs buf p None n = Inr (es, pos')"
      "map (\<lambda>e. (kval (fst e), kval (snd e))) es = fs"
      using IH(2) map "1.prems"(2) by fastforce
    then show ?thesis
      using map n w by (auto simp: frame start result_simps fread_iffs)
  next
    case simple
    then show ?thesis
      using run by (auto simp: frame start split: if_split_asm)
  qed
next
  case (3 buf pos d n)
  then show ?case
    by (fastforce simp: result_simps)
next
  case (5 buf pos d prev n)
  then obtain k p1 v p2 gs where k: "parse_value buf pos d = Inr (k, p1)" and v: "parse_value buf p1 d = Inr (v, p2)"
    and order: "\<not> (case prev of Some p \<Rightarrow> slice buf pos p1 \<le> p | None \<Rightarrow> False)"
    and gs: "parse_entries buf p2 d (Some (slice buf pos p1)) n = Inr (gs, pos')" and fs: "fs = (k, v) # gs"
    by (auto simp: result_simps Let_def split: if_split_asm)
  obtain k' where k': "decode_fval buf pos = Inr (k', p1)" "kval k' = k"
    using "5.IH"(1) [OF k] "5.prems"(2) fs by auto
  obtain v' where v': "decode_fval buf p1 = Inr (v', p2)" "kval v' = v"
    using "5.IH"(2) [OF k refl refl order v] "5.prems"(2) fs by auto
  obtain es where "decode_fpairs buf p2 (Some (slice buf pos p1)) n = Inr (es, pos')"
    "map (\<lambda>e. (kval (fst e), kval (snd e))) es = gs"
    using "5.IH"(3) [OF k refl refl order v refl gs] "5.prems"(2) fs by auto
  then show ?case
    using k' v' order fs by (auto simp: result_simps Let_def split: option.splits)
qed simp_all

lemma plain_kval: "plain (kval v)"
  by (induction v) (auto simp: list_all_iff)

lemma kval_inj: "kval v = kval w \<Longrightarrow> v = w"
proof (induction v arbitrary: w)
  case (FArray vs)
  then show ?case
    by (cases w) (auto intro!: list.inj_map_strong [of vs _ kval kval])
next
  case (FMap es)
  define pair where "pair = (\<lambda>e. (kval (fst e), kval (snd e)))"
  obtain fs where w: "w = FMap fs" and eq: "map pair es = map pair fs"
    using FMap.prems by (cases w) (simp_all add: pair_def)
  have "es = fs"
    by (rule list.inj_map_strong [OF _ eq])
      (auto simp: pair_def intro: FMap.IH fsts.intros snds.intros)
  with w show ?case by simp
next
qed (rename_tac w, case_tac w; simp)+

section \<open>The encoders\<close>

lemma encode_head_conv: "encode_head out m n = out @ head m n"
proof -
  have "n \<le> 23 \<longleftrightarrow> n < 24"
    by unat_arith
  then show ?thesis
    by (simp add: encode_head_def head_def write_head_def Let_def)
qed

lemma foldl_append: "(\<And>x b. x \<in> set xs \<Longrightarrow> f b x = b @ g x) \<Longrightarrow> foldl f out xs = out @ concat (map g xs)"
  by (induction xs arbitrary: out) simp_all

lemma list_all2_map_iff: "list_all2 (\<lambda>x y. f x = Inr y) xs ys \<Longrightarrow> (\<And>x y. x \<in> set xs \<Longrightarrow> f x = Inr y \<Longrightarrow> g x = y) \<Longrightarrow> map g xs = ys"
  by (induction xs ys rule: list_all2_induct) auto

lemma encoders_agree: "encode_canonical (kval v) = Inr b \<Longrightarrow> encode_fval out v = out @ b"
proof (induction v arbitrary: out b)
  case (FArray vs)
  then obtain bss where bss: "list_all2 (\<lambda>w y. encode_canonical (kval w) = Inr y) vs bss"
    and b: "b = head 4 (word_of_nat (length vs)) @ concat bss"
    by (auto simp: encode_canonical_Array result_simps try_map_eq_Inr list_all2_map1)
  have item: "encode_fval c w = c @ keybuf (kval w)" if "w \<in> set vs" for c w
  proof -
    obtain y where "encode_canonical (kval w) = Inr y"
      using bss \<open>w \<in> set vs\<close> by (auto simp: list_all2_conv_all_nth in_set_conv_nth)
    then show ?thesis
      using FArray.IH [OF that] encode_canonical_keybuf by metis
  qed
  have "map (\<lambda>w. keybuf (kval w)) vs = bss"
    using bss by (rule list_all2_map_iff) (rule encode_canonical_keybuf)
  then show ?case
    using foldl_append [of vs encode_fval "\<lambda>w. keybuf (kval w)", OF item] b by (simp add: encode_head_conv)
next
  case (FMap es)
  define pair where "pair = (\<lambda>e. (kval (fst e), kval (snd e)))"
  define enc where "enc = (\<lambda>e. (keybuf (kval (fst e)), keybuf (kval (snd e))))"
  obtain bss where bss: "list_all2 (\<lambda>e y. encode_pair (pair e) = Inr y) es bss"
    and b: "b = head 5 (word_of_nat (length es)) @ concat (map (\<lambda>(k, v). k @ v) (sort_key fst bss))"
    using FMap.prems
    by (auto simp: encode_canonical_Map pair_def result_simps try_map_eq_Inr list_all2_map1 split: if_split_asm)
  have both: "(case e of (k, w) \<Rightarrow> (encode_fval [] k, encode_fval [] w)) = y"
    if "e \<in> set es" and "encode_pair (pair e) = Inr y" for e y
    using that(2) FMap.IH(1,2) [OF that(1)]
    by (cases e) (force simp: encode_pair_def pair_def result_simps fsts.simps snds.simps)
  have "map (\<lambda>(k, w). (encode_fval [] k, encode_fval [] w)) es = bss"
    using bss both by (rule list_all2_map_iff)
  moreover have "length bss = length es"
    using bss list_all2_lengthD by fastforce
  moreover have "foldl (\<lambda>b (k, v). b @ k @ v) c ps = c @ concat (map (\<lambda>(k, v). k @ v) ps)" for c and ps :: "(bytes \<times> bytes) list"
    by (rule foldl_append) auto
  ultimately show ?case
    using b by (simp add: encode_head_conv Let_def)
qed (auto simp: encode_head_conv encode_canonical_keybuf [symmetric])

corollary encode_value_to_vec_kernel: "encode_canonical (kval v) = Inr b \<Longrightarrow> encode_value_to_vec v = b"
  using encoders_agree [of v b "[]"] by (simp add: encode_value_to_vec_def)

section \<open>Agreement\<close>

lemma frame_decodes_kernel: "\<lbrakk>decode_value_complete bs = Inr v; vdepth (kval v) \<le> 64\<rbrakk> \<Longrightarrow> decode_canonical bs = Inr (kval v)"
  using kernel_accepts(1) [of bs 0 v "length bs" 0]
  by (auto simp: decode_value_complete_def decode_canonical_def result_simps split: if_splits)

lemma kernel_decodes_frame: "\<lbrakk>decode_canonical bs = Inr w; plain w\<rbrakk> \<Longrightarrow> \<exists>v. decode_value_complete bs = Inr v \<and> kval v = w"
  using frames_accept(1) [of bs 0 0 w "length bs"]
  by (auto simp: decode_value_complete_def decode_canonical_def result_simps split: if_splits)

lemma kernel_decodes_kval: "decode_canonical bs = Inr (kval v) \<Longrightarrow> decode_value_complete bs = Inr v"
  using kernel_decodes_frame [OF _ plain_kval] kval_inj by blast

text \<open>What frames write of a value without repeated keys, they read back with the maps in canonical order.\<close>

lemma frame_decode_encode:
  assumes "encode_canonical (kval v) = Inr bs" "decodable (kval v)" "addressable bs"
    and "kval w = into_canonical (kval v)"
  shows "encode_value_to_vec v = bs" and "decode_value_complete bs = Inr w"
  using encode_value_to_vec_kernel [OF assms(1)] decode_encode [OF assms(1-3)] kernel_decodes_kval assms(4)
  by auto

text \<open>
  The kernel's decoder stops at 64 levels, the frame decoder does not: every depth is decoded, each by
  a further recursive call.
\<close>

fun nested :: "nat \<Rightarrow> fval" where
  "nested 0 = FArray []"
| "nested (Suc n) = FArray [nested n]"

lemma decode_nested:
  "\<lbrakk>addressable (pre @ replicate n 0x81 @ [0x80])\<rbrakk> \<Longrightarrow>
   decode_fval (pre @ replicate n 0x81 @ [0x80]) (length pre) = Inr (nested n, length pre + n + 1)"
proof (induction n arbitrary: pre)
  case 0
  then show ?case
    by (simp add: decode_fval.simps fread_len_def fread_length_def checked_len_def nth_append and_1F take_bit_eq_mod)
next
  case (Suc n)
  have eq: "pre @ replicate (Suc n) 0x81 @ [0x80] = (pre @ [0x81]) @ replicate n 0x81 @ [0x80]"
    by simp
  have "decode_fval ((pre @ [0x81]) @ replicate n 0x81 @ [0x80]) (length (pre @ [0x81]))
     = Inr (nested n, length (pre @ [0x81]) + n + 1)"
    using Suc.prems by (intro Suc.IH) (simp add: eq)
  then show ?case
    by (simp add: decode_fval.simps [of _ "length pre"] fread_len_def fread_length_def checked_len_def nth_append
      and_1F take_bit_eq_mod numeral_eq_Suc)
qed

lemma nesting_unlimited:
  "addressable (replicate n 0x81 @ [0x80]) \<Longrightarrow>
   decode_value_complete (replicate n 0x81 @ [0x80]) = Inr (nested n) \<and> vdepth (kval (nested n)) = n"
proof -
  have "vdepth (kval (nested n)) = n"
    by (induction n) (simp_all add: vdepth.simps)
  then show "addressable (replicate n 0x81 @ [0x80]) \<Longrightarrow> ?thesis"
    using decode_nested [of "[]" n] by (simp add: decode_value_complete_def)
qed

text \<open>C35. The frame codec and the kernel codec are one format. Up to the kernel's depth limit a frame
  decodes to a value exactly when the kernel decodes it to the same value; whatever the kernel encodes
  of a frame value, the frame encoder writes byte for byte; and a frame the kernel accepts is refused
  by the frame decoder only over a negative integer.\<close>

theorem frame_codec_is_kernel_codec:
  "(decode_value_complete bs = Inr v \<and> vdepth (kval v) \<le> 64 \<longleftrightarrow> decode_canonical bs = Inr (kval v))
   \<and> (encode_canonical (kval v) = Inr bs \<longrightarrow> encode_value_to_vec v = bs)
   \<and> (decode_canonical bs = Inr w \<and> plain w \<longrightarrow> is_ok (decode_value_complete bs))"
proof (intro conjI impI)
  show "decode_value_complete bs = Inr v \<and> vdepth (kval v) \<le> 64 \<longleftrightarrow> decode_canonical bs = Inr (kval v)"
    using frame_decodes_kernel kernel_decodes_kval decode_canonicalD by blast
  show "encode_value_to_vec v = bs" if "encode_canonical (kval v) = Inr bs"
    using that by (rule encode_value_to_vec_kernel)
  show "is_ok (decode_value_complete bs)" if "decode_canonical bs = Inr w \<and> plain w"
    using that kernel_decodes_frame [of bs w] by (auto simp: is_ok_iff)
qed

lemma frame_codec_is_kernel_codec_witness:
  "encode_value_to_vec (FMap [(FText (str ''b''), FNull), (FUint 1, FBool True)]) = [0xA2, 0x01, 0xF5, 0x61, 0x62, 0xF6]
   \<and> is_ok (decode_value_complete [0xA2, 0x01, 0xF5, 0x61, 0x62, 0xF6])"
proof -
  have "encode_canonical (kval (FMap [(FText (str ''b''), FNull), (FUint 1, FBool True)]))
      = Inr [0xA2, 0x01, 0xF5, 0x61, 0x62, 0xF6]"
    and "decode_canonical [0xA2, 0x01, 0xF5, 0x61, 0x62, 0xF6]
      = Inr (Map [(Uint 1, Bool True), (Text (str ''b''), Null)])"
    by code_simp+
  then show ?thesis
    using frame_codec_is_kernel_codec
      [of "[0xA2, 0x01, 0xF5, 0x61, 0x62, 0xF6]" "FMap [(FText (str ''b''), FNull), (FUint 1, FBool True)]"
        "Map [(Uint 1, Bool True), (Text (str ''b''), Null)]"] by simp
qed

end
