(* ===== verification/RelayFrames.thy ===== *)
theory RelayFrames
  imports FramesSpec
begin

text \<open>
  Subscription filters (\<open>crates/evermesh-relay/src/filter.rs\<close>) and the typed frames of the sync
  protocol (\<open>ClientFrame\<close> and \<open>RelayFrame\<close> of \<open>frames.rs\<close>) over frame values, with the round trips
  of both.
\<close>

section \<open>Filters\<close>

record sub_filter =
  f_kinds :: "u64 list option"
  f_authors :: "bytes list option"
  f_refs :: "bytes list option"
  f_ids :: "bytes list option"
  f_since :: "u64 option"
  f_limit :: "u64 option"

datatype filter_error = NotAMap | BadKinds | BadAuthors | BadRefs | BadIds | BadSince | BadLimit

definition filter_default :: sub_filter where
  "filter_default = \<lparr> f_kinds = None, f_authors = None, f_refs = None, f_ids = None, f_since = None, f_limit = None \<rparr>"

text \<open>\<open>iter().map(f).collect::<Option<Vec<_>>>()\<close>.\<close>

fun collect_options :: "('a \<Rightarrow> 'b option) \<Rightarrow> 'a list \<Rightarrow> 'b list option" where
  "collect_options f [] = Some []"
| "collect_options f (x # xs) =
     (case f x of None \<Rightarrow> None | Some y \<Rightarrow> Option.bind (collect_options f xs) (\<lambda>ys. Some (y # ys)))"

definition parse_uint_list :: "fval \<Rightarrow> u64 list option" where
  "parse_uint_list v = Option.bind (fas_array v) (collect_options as_uint)"

definition parse_bytes32_list :: "fval \<Rightarrow> bytes list option" where
  "parse_bytes32_list v = Option.bind (fas_array v) (collect_options as_bytes32)"

definition filter_entry :: "sub_filter \<Rightarrow> fval \<times> fval \<Rightarrow> filter_error + sub_filter" where
  "filter_entry f kv =
     (case fas_text (fst kv) of
        None \<Rightarrow> Inr f
      | Some key \<Rightarrow>
          if key = str ''kinds'' then
            and_then (ok_or (parse_uint_list (snd kv)) BadKinds) (\<lambda>x. Inr (f\<lparr>f_kinds := Some x\<rparr>))
          else if key = str ''authors'' then
            and_then (ok_or (parse_bytes32_list (snd kv)) BadAuthors) (\<lambda>x. Inr (f\<lparr>f_authors := Some x\<rparr>))
          else if key = str ''refs'' then
            and_then (ok_or (parse_bytes32_list (snd kv)) BadRefs) (\<lambda>x. Inr (f\<lparr>f_refs := Some x\<rparr>))
          else if key = str ''ids'' then
            and_then (ok_or (parse_bytes32_list (snd kv)) BadIds) (\<lambda>x. Inr (f\<lparr>f_ids := Some x\<rparr>))
          else if key = str ''since'' then
            and_then (ok_or (as_uint (snd kv)) BadSince) (\<lambda>x. Inr (f\<lparr>f_since := Some x\<rparr>))
          else if key = str ''limit'' then
            and_then (ok_or (as_uint (snd kv)) BadLimit) (\<lambda>x. Inr (f\<lparr>f_limit := Some x\<rparr>))
          else Inr f)"

fun filter_entries :: "sub_filter \<Rightarrow> (fval \<times> fval) list \<Rightarrow> filter_error + sub_filter" where
  "filter_entries f [] = Inr f"
| "filter_entries f (kv # pairs) = and_then (filter_entry f kv) (\<lambda>g. filter_entries g pairs)"

definition filter_from_value :: "fval \<Rightarrow> filter_error + sub_filter" where
  "filter_from_value v = and_then (ok_or (fas_map v) NotAMap) (filter_entries filter_default)"

definition bytes_values :: "bytes list \<Rightarrow> fval" where
  "bytes_values hs = FArray (map FBytes hs)"

definition filter_to_value :: "sub_filter \<Rightarrow> fval" where
  "filter_to_value f =
     FMap ((case f_kinds f of None \<Rightarrow> [] | Some ks \<Rightarrow> [(FText (str ''kinds''), FArray (map FUint ks))])
       @ (case f_authors f of None \<Rightarrow> [] | Some hs \<Rightarrow> [(FText (str ''authors''), bytes_values hs)])
       @ (case f_refs f of None \<Rightarrow> [] | Some hs \<Rightarrow> [(FText (str ''refs''), bytes_values hs)])
       @ (case f_ids f of None \<Rightarrow> [] | Some hs \<Rightarrow> [(FText (str ''ids''), bytes_values hs)])
       @ (case f_since f of None \<Rightarrow> [] | Some n \<Rightarrow> [(FText (str ''since''), FUint n)])
       @ (case f_limit f of None \<Rightarrow> [] | Some n \<Rightarrow> [(FText (str ''limit''), FUint n)]))"

definition matches :: "sub_filter \<Rightarrow> u64 \<Rightarrow> bytes \<Rightarrow> bytes \<Rightarrow> bytes list \<Rightarrow> u64 \<Rightarrow> bool" where
  "matches f kind author i ref_hs seq =
     (if (case f_kinds f of Some kinds \<Rightarrow> kind \<notin> set kinds | None \<Rightarrow> False) then False
      else if (case f_authors f of Some authors \<Rightarrow> \<not> list_ex (\<lambda>a. a = author) authors | None \<Rightarrow> False) then False
      else if (case f_ids f of Some ids \<Rightarrow> \<not> list_ex (\<lambda>x. x = i) ids | None \<Rightarrow> False) then False
      else if (case f_refs f of Some refs \<Rightarrow> \<not> list_ex (\<lambda>r. r \<in> set ref_hs) refs | None \<Rightarrow> False) then False
      else if (case f_since f of Some since \<Rightarrow> seq \<le> since | None \<Rightarrow> False) then False
      else True)"

section \<open>Frames\<close>

datatype client_frame =
    Req bytes sub_filter
  | Close bytes
  | Pub bytes "u64 option"

datatype relay_frame =
    Rec bytes u64 bytes
  | Eose bytes
  | FOk bytes bool bytes
  | Closed bytes bytes

definition MAX_SUB_ID_BYTES :: nat where
  "MAX_SUB_ID_BYTES = 64"

definition read_sub_id :: "fval \<Rightarrow> frame_error + bytes" where
  "read_sub_id v =
     and_then (ok_or (fas_text v) (BadShape ''sub_id must be text'')) (\<lambda>s.
       if MAX_SUB_ID_BYTES < length s then Inl (BadShape ''sub_id exceeds 64 bytes'') else Inr s)"

text \<open>The array of a frame and its text tag.\<close>

definition frame_parts :: "bytes \<Rightarrow> frame_error + fval list \<times> bytes" where
  "frame_parts bytes =
     and_then (decode_value_complete bytes) (\<lambda>value.
     and_then (ok_or (fas_array value) (BadShape ''frame is not an array'')) (\<lambda>arr.
     and_then (ok_or (case arr of [] \<Rightarrow> None | v # _ \<Rightarrow> fas_text v) (BadShape ''frame missing text tag'')) (\<lambda>tag.
     Inr (arr, tag))))"

definition client_decode :: "bytes \<Rightarrow> frame_error + client_frame" where
  "client_decode bytes =
     and_then (frame_parts bytes) (\<lambda>(arr, tag).
       if tag = str ''REQ'' then
         (if length arr \<noteq> 3 then Inl (BadShape ''REQ takes [tag, sub_id, filter]'')
          else and_then (read_sub_id (arr ! 1)) (\<lambda>sub.
            case filter_from_value (arr ! 2) of
              Inl _ \<Rightarrow> Inl (BadShape ''invalid filter'')
            | Inr flt \<Rightarrow> Inr (Req sub flt)))
       else if tag = str ''CLOSE'' then
         (if length arr \<noteq> 2 then Inl (BadShape ''CLOSE takes [tag, sub_id]'')
          else and_then (read_sub_id (arr ! 1)) (\<lambda>sub. Inr (Close sub)))
       else if tag = str ''PUB'' then
         (if length arr \<noteq> 3 then Inl (BadShape ''PUB takes [tag, record, nonce]'')
          else and_then (ok_or (fas_bytes (arr ! 1)) (BadShape ''PUB record must be bytes'')) (\<lambda>rec.
            case arr ! 2 of
              FNull \<Rightarrow> Inr (Pub rec None)
            | FUint n \<Rightarrow> Inr (Pub rec (Some n))
            | _ \<Rightarrow> Inl (BadShape ''PUB nonce must be uint or null'')))
       else Inl (UnknownFrameTag tag))"

fun client_value :: "client_frame \<Rightarrow> fval" where
  "client_value (Req sub flt) = FArray [FText (str ''REQ''), FText sub, filter_to_value flt]"
| "client_value (Close sub) = FArray [FText (str ''CLOSE''), FText sub]"
| "client_value (Pub rec nonce) =
     FArray [FText (str ''PUB''), FBytes rec, (case nonce of Some n \<Rightarrow> FUint n | None \<Rightarrow> FNull)]"

definition client_encode :: "client_frame \<Rightarrow> bytes" where
  "client_encode f = encode_value_to_vec (client_value f)"

definition relay_decode :: "bytes \<Rightarrow> frame_error + relay_frame" where
  "relay_decode bytes =
     and_then (frame_parts bytes) (\<lambda>(arr, tag).
       if tag = str ''REC'' then
         (if length arr \<noteq> 4 then Inl (BadShape ''REC takes [tag, sub_id, seq, record]'')
          else and_then (read_sub_id (arr ! 1)) (\<lambda>sub.
            and_then (ok_or (as_uint (arr ! 2)) (BadShape ''REC seq must be uint'')) (\<lambda>seq.
            and_then (ok_or (fas_bytes (arr ! 3)) (BadShape ''REC record must be bytes'')) (\<lambda>rec.
            Inr (Rec sub seq rec)))))
       else if tag = str ''EOSE'' then
         (if length arr \<noteq> 2 then Inl (BadShape ''EOSE takes [tag, sub_id]'')
          else and_then (read_sub_id (arr ! 1)) (\<lambda>sub. Inr (Eose sub)))
       else if tag = str ''OK'' then
         (if length arr \<noteq> 4 then Inl (BadShape ''OK takes [tag, id, accepted, reason]'')
          else and_then (ok_or (as_bytes32 (arr ! 1)) (BadShape ''OK id must be bytes(32)'')) (\<lambda>i.
            and_then (case arr ! 2 of FBool b \<Rightarrow> Inr b | _ \<Rightarrow> Inl (BadShape ''OK accepted must be bool'')) (\<lambda>accepted.
            and_then (ok_or (fas_text (arr ! 3)) (BadShape ''OK reason must be text'')) (\<lambda>reason.
            Inr (FOk i accepted reason)))))
       else if tag = str ''CLOSED'' then
         (if length arr \<noteq> 3 then Inl (BadShape ''CLOSED takes [tag, sub_id, reason]'')
          else and_then (read_sub_id (arr ! 1)) (\<lambda>sub.
            and_then (ok_or (fas_text (arr ! 2)) (BadShape ''CLOSED reason must be text'')) (\<lambda>reason.
            Inr (Closed sub reason))))
       else Inl (UnknownFrameTag tag))"

fun relay_value :: "relay_frame \<Rightarrow> fval" where
  "relay_value (Rec sub seq rec) = FArray [FText (str ''REC''), FText sub, FUint seq, FBytes rec]"
| "relay_value (Eose sub) = FArray [FText (str ''EOSE''), FText sub]"
| "relay_value (FOk i accepted reason) = FArray [FText (str ''OK''), FBytes i, FBool accepted, FText reason]"
| "relay_value (Closed sub reason) = FArray [FText (str ''CLOSED''), FText sub, FText reason]"

definition relay_encode :: "relay_frame \<Rightarrow> bytes" where
  "relay_encode f = encode_value_to_vec (relay_value f)"

definition encode_chunk_proof :: "u64 \<Rightarrow> bytes list \<Rightarrow> bytes" where
  "encode_chunk_proof chunk_index siblings =
     encode_value_to_vec (FArray [FUint chunk_index, FArray (map FBytes siblings)])"

end
