(* ===== verification/RelayConfig.thy ===== *)
theory RelayConfig
  imports Prelude
begin

text \<open>
  The relay's configuration (\<open>crates/evermesh-relay/src/config.rs\<close>) with the defaults of its fields.
  Reading it from JSON is serde's; the record is what comes out.
\<close>

type_synonym u32 = "32 word"

record rate_config =
  records_per_minute_per_key :: u32

record retention =
  default_days :: u32
  by_kind_days :: "(u64 \<times> u32) list"

record blob_config =
  blob_enabled :: bool
  blob_dir :: bytes
  blob_max_bytes :: u64

record relay_config =
  cfg_listen_addr :: bytes
  cfg_db_path :: bytes
  cfg_name :: bytes
  cfg_pow_min_bits :: u32
  cfg_rate :: rate_config
  cfg_retention :: retention
  cfg_blob :: blob_config
  cfg_peers :: "bytes list"

definition rate_config_default :: rate_config where
  "rate_config_default = \<lparr> records_per_minute_per_key = 60 \<rparr>"

definition retention_default :: retention where
  "retention_default = \<lparr> default_days = 365, by_kind_days = [] \<rparr>"

definition blob_config_default :: blob_config where
  "blob_config_default =
     \<lparr> blob_enabled = False, blob_dir = str ''./blobs'', blob_max_bytes = 4 * 1024 * 1024 * 1024 \<rparr>"

definition relay_config_default :: relay_config where
  "relay_config_default =
     \<lparr> cfg_listen_addr = str ''127.0.0.1:8787'', cfg_db_path = str ''evermesh-relay.sqlite3'',
       cfg_name = str ''evermesh-relay'', cfg_pow_min_bits = 0, cfg_rate = rate_config_default,
       cfg_retention = retention_default, cfg_blob = blob_config_default, cfg_peers = [] \<rparr>"

definition retention_days_for_kind :: "retention \<Rightarrow> u64 \<Rightarrow> u32" where
  "retention_days_for_kind ret kind =
     (case map_of (by_kind_days ret) kind of Some d \<Rightarrow> d | None \<Rightarrow> default_days ret)"

end
