(* ===== verification/RelayStore.thy ===== *)
theory RelayStore
  imports RelayFrames RelayConfig Crypto
begin

unbundle bit_operations_syntax

text \<open>
  The relay's store (\<open>crates/evermesh-relay/src/store.rs\<close>) and the proof-of-work check (\<open>pow.rs\<close>).

  The code of the store is its SQL.  A table is the list of its rows in insertion order and each
  statement is the operation its text says: \<open>AUTOINCREMENT\<close> hands out the successor of the largest
  \<open>seq\<close> ever given (\<open>st_sequence\<close>, SQLite's \<open>sqlite_sequence\<close>) and fails when that is the largest
  \<open>i64\<close>; a transaction that is dropped leaves the tables as they were; a statement with more
  parameters than the engine's limit (\<open>max_vars\<close>, an argument) fails.
\<close>

section \<open>Tables\<close>

record row =
  row_seq :: u64
  row_id :: bytes
  row_kind :: u64
  row_author :: bytes
  row_received_at :: i64
  row_bytes :: bytes

record store =
  st_rows :: "row list"
  st_refs :: "(bytes \<times> bytes) list"
  st_sequence :: u64

datatype sql_error = SqlFull | TooManyVariables

datatype insert_outcome = Inserted u64 | Duplicate

record stored_record =
  sr_seq :: u64
  sr_bytes :: bytes

definition empty_store :: store where
  "empty_store = \<lparr> st_rows = [], st_refs = [], st_sequence = 0 \<rparr>"

definition u64_to_sql :: "u64 \<Rightarrow> u64" where
  "u64_to_sql v = (if v \<le> i64_max then v else i64_max)"

section \<open>Insertion\<close>

definition insert_record ::
  "bytes \<Rightarrow> u64 \<Rightarrow> bytes \<Rightarrow> i64 \<Rightarrow> bytes list \<Rightarrow> bytes \<Rightarrow> store \<Rightarrow> (sql_error + insert_outcome) \<times> store" where
  "insert_record i kind author received_at ref_hs bytes st =
     (if list_ex (\<lambda>r. row_id r = i) (st_rows st) then (Inr Duplicate, st)
      else if st_sequence st = i64_max then (Inl SqlFull, st)
      else
        let seq = st_sequence st + 1 in
        (Inr (Inserted seq),
         \<lparr> st_rows = st_rows st @
             [\<lparr> row_seq = seq, row_id = i, row_kind = u64_to_sql kind, row_author = author,
                row_received_at = received_at, row_bytes = bytes \<rparr>],
           st_refs = st_refs st @ map (\<lambda>h. (i, h)) ref_hs,
           st_sequence = seq \<rparr>))"

section \<open>Query\<close>

definition empty_condition :: "sub_filter \<Rightarrow> bool" where
  "empty_condition f \<longleftrightarrow> f_kinds f = Some [] \<or> f_authors f = Some [] \<or> f_ids f = Some [] \<or> f_refs f = Some []"

definition bound_count :: "sub_filter \<Rightarrow> nat" where
  "bound_count f =
     (case f_kinds f of None \<Rightarrow> 0 | Some l \<Rightarrow> length l) + (case f_authors f of None \<Rightarrow> 0 | Some l \<Rightarrow> length l)
     + (case f_ids f of None \<Rightarrow> 0 | Some l \<Rightarrow> length l) + (case f_refs f of None \<Rightarrow> 0 | Some l \<Rightarrow> length l)
     + (case f_since f of None \<Rightarrow> 0 | Some _ \<Rightarrow> 1) + 1"

text \<open>The \<open>WHERE\<close> clause the query is built with.\<close>

definition where_clause :: "sub_filter \<Rightarrow> store \<Rightarrow> row \<Rightarrow> bool" where
  "where_clause f st r \<longleftrightarrow>
     (case f_kinds f of None \<Rightarrow> True | Some kinds \<Rightarrow> row_kind r \<in> set (map u64_to_sql kinds))
     \<and> (case f_authors f of None \<Rightarrow> True | Some authors \<Rightarrow> row_author r \<in> set authors)
     \<and> (case f_ids f of None \<Rightarrow> True | Some ids \<Rightarrow> row_id r \<in> set ids)
     \<and> (case f_refs f of None \<Rightarrow> True
         | Some refs \<Rightarrow> row_id r \<in> set (map fst (filter (\<lambda>e. snd e \<in> set refs) (st_refs st))))
     \<and> (case f_since f of None \<Rightarrow> True | Some since \<Rightarrow> u64_to_sql since < row_seq r)"

definition query_limit :: "sub_filter \<Rightarrow> u64 \<Rightarrow> u64" where
  "query_limit f default_limit = u64_to_sql (case f_limit f of None \<Rightarrow> default_limit | Some l \<Rightarrow> l)"

definition query_rows :: "sub_filter \<Rightarrow> u64 \<Rightarrow> store \<Rightarrow> row list" where
  "query_rows f default_limit st =
     take (unat (query_limit f default_limit)) (rev (sort_key row_seq (filter (where_clause f st) (st_rows st))))"

definition query :: "nat \<Rightarrow> sub_filter \<Rightarrow> u64 \<Rightarrow> store \<Rightarrow> sql_error + stored_record list" where
  "query max_vars f default_limit st =
     (if empty_condition f then Inr []
      else if max_vars < bound_count f then Inl TooManyVariables
      else Inr (map (\<lambda>r. \<lparr> sr_seq = row_seq r, sr_bytes = row_bytes r \<rparr>) (query_rows f default_limit st)))"

definition max_seq :: "store \<Rightarrow> u64" where
  "max_seq st = (if st_rows st = [] then 0 else Max (set (map row_seq (st_rows st))))"

section \<open>Retention\<close>

definition cutoff :: "i64 \<Rightarrow> u32 \<Rightarrow> i64" where
  "cutoff now days = now - ucast days * 86400"

definition older :: "row \<Rightarrow> i64 \<Rightarrow> bool" where
  "older r c \<longleftrightarrow> sint (row_received_at r) < sint c"

text \<open>\<open>DELETE FROM records WHERE\<close>: the number of rows deleted and the table left.\<close>

definition delete_rows :: "(row \<Rightarrow> bool) \<Rightarrow> store \<Rightarrow> nat \<times> store" where
  "delete_rows P st = (length (filter P (st_rows st)), st\<lparr> st_rows := filter (\<lambda>r. \<not> P r) (st_rows st) \<rparr>)"

fun delete_by_kind :: "(u64 \<times> u32) list \<Rightarrow> i64 \<Rightarrow> store \<Rightarrow> nat \<times> store" where
  "delete_by_kind [] now st = (0, st)"
| "delete_by_kind ((kind, days) # kds) now st =
     (let (n, st1) = delete_rows (\<lambda>r. row_kind r = u64_to_sql kind \<and> older r (cutoff now days)) st;
          (m, st2) = delete_by_kind kds now st1
      in (n + m, st2))"

definition delete_default_expired :: "(u64 \<times> u32) list \<Rightarrow> i64 \<Rightarrow> store \<Rightarrow> nat \<times> store" where
  "delete_default_expired overrides default_cutoff st =
     (if overrides = [] then delete_rows (\<lambda>r. older r default_cutoff) st
      else delete_rows (\<lambda>r. older r default_cutoff \<and> row_kind r \<notin> set (map (\<lambda>kd. u64_to_sql (fst kd)) overrides)) st)"

definition prune_expired :: "retention \<Rightarrow> i64 \<Rightarrow> store \<Rightarrow> nat \<times> store" where
  "prune_expired ret now st =
     (let (n, st1) = delete_by_kind (by_kind_days ret) now st;
          (m, st2) = delete_default_expired (by_kind_days ret) (cutoff now (default_days ret)) st1
      in (n + m, st2\<lparr> st_refs := filter (\<lambda>e. fst e \<in> set (map row_id (st_rows st2))) (st_refs st2) \<rparr>))"

section \<open>Proof of work\<close>

text \<open>\<open>u8::leading_zeros\<close>: how many of the eight bits from the top are zero before the first one.\<close>

definition leading_zeros :: "u8 \<Rightarrow> nat" where
  "leading_zeros b = length (takeWhile (\<lambda>i. \<not> bit b i) [7, 6, 5, 4, 3, 2, 1, 0])"

fun leading_zero_bits :: "bytes \<Rightarrow> nat" where
  "leading_zero_bits [] = 0"
| "leading_zero_bits (b # bs) = (if b = 0 then 8 + leading_zero_bits bs else leading_zeros b)"

definition work_digest :: "crypto \<Rightarrow> bytes \<Rightarrow> u64 \<Rightarrow> bytes" where
  "work_digest c i nonce = blake3 c (i @ rev (be_bytes 8 (unat nonce)))"

definition difficulty :: "crypto \<Rightarrow> bytes \<Rightarrow> u64 \<Rightarrow> nat" where
  "difficulty c i nonce = leading_zero_bits (work_digest c i nonce)"

definition pow_check :: "crypto \<Rightarrow> bytes \<Rightarrow> u64 option \<Rightarrow> nat \<Rightarrow> bool" where
  "pow_check c i nonce min_bits =
     (if min_bits = 0 then True
      else case nonce of Some n \<Rightarrow> min_bits \<le> difficulty c i n | None \<Rightarrow> False)"

section \<open>Accepted records\<close>

text \<open>\<open>AcceptedRecord\<close> of \<open>lib.rs\<close>: what is broadcast for a record that was just stored.\<close>

record accepted =
  a_id :: bytes
  a_kind :: u64
  a_author :: bytes
  a_refs :: "bytes list"
  a_seq :: u64
  a_bytes :: bytes

definition accepted_matches :: "sub_filter \<Rightarrow> accepted \<Rightarrow> bool" where
  "accepted_matches f a = matches f (a_kind a) (a_author a) (a_id a) (a_refs a) (a_seq a)"

end
