(* ===== verification/RelayStoreSpec.thy ===== *)
theory RelayStoreSpec
  imports RelayStore
begin

text \<open>
  The store against its abstraction, the log of accepted records: insertion appends to the log or
  changes nothing, and a query returns what the live filter would have let through, newest first.
\<close>

section \<open>The contract of a store keyed by id\<close>

locale receipt_store =
  fixes ins :: "'item \<Rightarrow> 'st \<Rightarrow> 'st"
    and ids :: "'st \<Rightarrow> 'k list"
    and key :: "'item \<Rightarrow> 'k"
  assumes known: "key x \<in> set (ids s) \<Longrightarrow> ins x s = s"
    and grows: "ids (ins x s) = ids s \<and> ins x s = s \<or> key x \<notin> set (ids s) \<and> ids (ins x s) = ids s @ [key x]"
begin

text \<open>Loop suppression: what was stored stays stored, and storing it again changes nothing.\<close>

lemma idempotent: "ins x (ins x s) = ins x s"
  using grows [of x s] known [of x "ins x s"] by auto

lemma keeps: "k \<in> set (ids s) \<Longrightarrow> k \<in> set (ids (ins x s))"
  using grows [of x s] by auto

lemma keeps_all: "k \<in> set (ids s) \<Longrightarrow> k \<in> set (ids (fold ins xs s))"
  by (induction xs arbitrary: s) (simp_all add: keeps)

lemma distinct_ids: "distinct (ids s) \<Longrightarrow> distinct (ids (fold ins xs s))"
proof (induction xs arbitrary: s)
  case (Cons x xs)
  then show ?case
    using grows [of x s] by auto
qed simp

lemma repeat_changes_nothing: "key x \<in> set (ids s) \<Longrightarrow> fold ins (xs @ [x]) s = fold ins xs s"
  using keeps_all [of "key x" s xs] known by simp

end

section \<open>Logs\<close>

definition row_of :: "i64 \<Rightarrow> accepted \<Rightarrow> row" where
  "row_of t a = \<lparr> row_seq = a_seq a, row_id = a_id a, row_kind = u64_to_sql (a_kind a), row_author = a_author a,
                  row_received_at = t, row_bytes = a_bytes a \<rparr>"

definition ref_rows :: "accepted list \<Rightarrow> (bytes \<times> bytes) list" where
  "ref_rows log = concat (map (\<lambda>a. map (\<lambda>h. (a_id a, h)) (a_refs a)) log)"

text \<open>
  \<open>represents st log\<close>: the tables hold exactly the records of the log, in the order of their receipt
  sequence, each id once.
\<close>

definition represents :: "store \<Rightarrow> accepted list \<Rightarrow> bool" where
  "represents st log \<longleftrightarrow>
     list_all2 (\<lambda>r a. r = row_of (row_received_at r) a) (st_rows st) log
     \<and> st_refs st = ref_rows log
     \<and> distinct (map a_id log) \<and> sorted_wrt (<) (map a_seq log)
     \<and> (\<forall>a\<in>set log. a_seq a \<le> st_sequence st) \<and> st_sequence st \<le> i64_max"

lemma represents_empty: "represents empty_store []"
  by (simp add: represents_def empty_store_def ref_rows_def i64_max_def)

lemma rows_of_log:
  assumes "represents st log"
  shows "map row_id (st_rows st) = map a_id log" "map row_seq (st_rows st) = map a_seq log"
proof -
  have "list_all2 (\<lambda>r a. r = row_of (row_received_at r) a) (st_rows st) log"
    using assms by (simp add: represents_def)
  then show "map row_id (st_rows st) = map a_id log" "map row_seq (st_rows st) = map a_seq log"
    by (induction rule: list_all2_induct) (auto simp: row_of_def dest: arg_cong [of _ _ row_id] arg_cong [of _ _ row_seq])
qed

definition accepted_of :: "bytes \<Rightarrow> u64 \<Rightarrow> bytes \<Rightarrow> bytes list \<Rightarrow> bytes \<Rightarrow> u64 \<Rightarrow> accepted" where
  "accepted_of i kind author hs bs seq =
     \<lparr> a_id = i, a_kind = kind, a_author = author, a_refs = hs, a_seq = seq, a_bytes = bs \<rparr>"

lemma insert_record_cases:
  assumes "represents st log"
  obtains (dup) "i \<in> set (map a_id log)" "insert_record i kind author t hs bs st = (Inr Duplicate, st)"
    | (full) "i \<notin> set (map a_id log)" "st_sequence st = i64_max" "insert_record i kind author t hs bs st = (Inl SqlFull, st)"
    | (new) st' seq where "i \<notin> set (map a_id log)" "seq = st_sequence st + 1" "st_sequence st < i64_max"
        "insert_record i kind author t hs bs st = (Inr (Inserted seq), st')"
        "represents st' (log @ [accepted_of i kind author hs bs seq])"
        "\<forall>a\<in>set log. a_seq a < seq" "st_sequence st' = seq"
proof -
  have ids: "list_ex (\<lambda>r. row_id r = i) (st_rows st) \<longleftrightarrow> i \<in> set (map a_id log)"
    unfolding rows_of_log(1) [OF assms, symmetric] by (auto simp: list_ex_iff)
  note w = assms [unfolded represents_def]
  consider "i \<in> set (map a_id log)" | "i \<notin> set (map a_id log)" "st_sequence st = i64_max"
    | "i \<notin> set (map a_id log)" "st_sequence st < i64_max"
    using w by fastforce
  then show ?thesis
  proof cases
    case 1
    then show ?thesis
      using ids by (intro dup) (simp_all add: insert_record_def)
  next
    case 2
    then show ?thesis
      using ids by (intro full) (simp_all add: insert_record_def)
  next
    case 3
    define seq where "seq = st_sequence st + 1"
    have "1 + st_sequence st \<noteq> 0"
      using 3(2) word_n1_ge [of i64_max] by (auto simp: add_eq_0_iff)
    then have "unat seq = Suc (unat (st_sequence st))"
      by (simp add: seq_def add.commute unatSuc)
    then have less: "x < seq" if "x \<le> st_sequence st" for x
      using that by (simp add: word_less_nat_alt word_le_nat_alt)
    have le: "seq \<le> i64_max"
      using 3(2) by (simp add: seq_def inc_le)
    define st' where "st' = snd (insert_record i kind author t hs bs st)"
    have st': "insert_record i kind author t hs bs st = (Inr (Inserted seq), st')"
      and rows: "st_rows st' = st_rows st @ [row_of t (accepted_of i kind author hs bs seq)]"
      and refs: "st_refs st' = st_refs st @ map (\<lambda>h. (i, h)) hs" and sequence: "st_sequence st' = seq"
      using 3(1) less_imp_neq [OF 3(2)] ids
      by (simp_all add: st'_def insert_record_def Let_def seq_def row_of_def accepted_of_def)
    have "represents st' (log @ [accepted_of i kind author hs bs seq])"
      using w 3(1) le less unfolding represents_def rows refs sequence
      by (auto simp: ref_rows_def accepted_of_def row_of_def sorted_wrt_append intro: order.strict_implies_order intro!: list_all2_appendI)
    moreover have "\<forall>a\<in>set log. a_seq a < seq"
      using w less by blast
    ultimately show ?thesis
      using 3 st' sequence by (intro new [of seq st']) (simp_all add: seq_def)
  qed
qed


section \<open>The interpretation\<close>

type_synonym publication = "bytes \<times> u64 \<times> bytes \<times> i64 \<times> bytes list \<times> bytes"

definition insert_publication :: "publication \<Rightarrow> store \<Rightarrow> store" where
  "insert_publication p st = (case p of (i, kind, author, t, hs, bs) \<Rightarrow> snd (insert_record i kind author t hs bs st))"

interpretation sql: receipt_store insert_publication "\<lambda>st. map row_id (st_rows st)" fst
proof unfold_locales
  fix p :: publication and st :: store
  obtain i kind author t hs bs where p: "p = (i, kind, author, t, hs, bs)"
    by (cases p) auto
  have known: "list_ex (\<lambda>r. row_id r = i) (st_rows st) \<longleftrightarrow> i \<in> set (map row_id (st_rows st))"
    by (auto simp: list_ex_iff)
  show "fst p \<in> set (map row_id (st_rows st)) \<Longrightarrow> insert_publication p st = st"
    by (simp only: insert_publication_def insert_record_def p known prod.case fst_conv snd_conv if_True)
  show "map row_id (st_rows (insert_publication p st)) = map row_id (st_rows st) \<and> insert_publication p st = st
    \<or> fst p \<notin> set (map row_id (st_rows st))
      \<and> map row_id (st_rows (insert_publication p st)) = map row_id (st_rows st) @ [fst p]"
    by (simp add: insert_publication_def insert_record_def p known Let_def)
qed

section \<open>Queries\<close>

definition small_kinds :: "sub_filter \<Rightarrow> bool" where
  "small_kinds f \<longleftrightarrow> (case f_kinds f of None \<Rightarrow> True | Some ks \<Rightarrow> list_all (\<lambda>k. k \<le> i64_max) ks)"

lemma u64_to_sql_small: "k \<le> i64_max \<Longrightarrow> u64_to_sql k = k"
  by (simp add: u64_to_sql_def)

lemma u64_to_sql_less: "x \<le> i64_max \<Longrightarrow> u64_to_sql since < x \<longleftrightarrow> since < x"
  by (auto simp: u64_to_sql_def)

lemma ref_rows_of:
  assumes "distinct (map a_id log)" and "a \<in> set log"
  shows "a_id a \<in> set (map fst (filter (\<lambda>e. snd e \<in> R) (ref_rows log))) \<longleftrightarrow> (\<exists>h\<in>set (a_refs a). h \<in> R)"
proof
  assume "a_id a \<in> set (map fst (filter (\<lambda>e. snd e \<in> R) (ref_rows log)))"
  then obtain b h where b: "b \<in> set log" "h \<in> set (a_refs b)" "h \<in> R" and "a_id b = a_id a"
    by (auto simp: ref_rows_def)
  then have "b = a"
    using assms by (auto simp: distinct_map dest: inj_onD)
  then show "\<exists>h\<in>set (a_refs a). h \<in> R"
    using b by blast
next
  assume "\<exists>h\<in>set (a_refs a). h \<in> R"
  then obtain h where "h \<in> set (a_refs a)" "h \<in> R"
    by blast
  then have "(a_id a, h) \<in> set (filter (\<lambda>e. snd e \<in> R) (ref_rows log))"
    using assms(2) by (auto simp: ref_rows_def)
  then show "a_id a \<in> set (map fst (filter (\<lambda>e. snd e \<in> R) (ref_rows log)))"
    by (metis fst_conv image_eqI set_map)
qed

lemma where_clause_matches:
  assumes log: "represents st log" and a: "a \<in> set log" "a_kind a \<le> i64_max" and f: "small_kinds f"
  shows "where_clause f st (row_of t a) \<longleftrightarrow> accepted_matches f a"
proof -
  note w = log [unfolded represents_def]
  have seq: "a_seq a \<le> i64_max"
    using w a(1) by fastforce
  have kinds: "(case f_kinds f of None \<Rightarrow> True | Some ks \<Rightarrow> a_kind a \<in> set (map u64_to_sql ks))
      \<longleftrightarrow> (case f_kinds f of None \<Rightarrow> True | Some ks \<Rightarrow> a_kind a \<in> set ks)"
    using f by (force simp: small_kinds_def list_all_iff u64_to_sql_small split: option.split)
  have refs: "row_id (row_of t a) \<in> set (map fst (filter (\<lambda>e. snd e \<in> R) (st_refs st))) \<longleftrightarrow> (\<exists>h\<in>set (a_refs a). h \<in> R)" for R
    using ref_rows_of [of log a R] w a(1) by (simp add: row_of_def)
  show ?thesis
    unfolding where_clause_def refs
    using kinds seq a(2)
    by (auto simp: row_of_def accepted_matches_def matches_def u64_to_sql_small u64_to_sql_less list_ex_iff not_le
        split: option.splits)
qed

definition stored_of :: "accepted \<Rightarrow> stored_record" where
  "stored_of a = \<lparr> sr_seq = a_seq a, sr_bytes = a_bytes a \<rparr>"

lemma sorted_rows: "represents st log \<Longrightarrow> sorted (map row_seq (filter P (st_rows st)))"
proof -
  assume log: "represents st log"
  then have "sorted_wrt (<) (map row_seq (st_rows st))"
    unfolding rows_of_log(2) [OF log] by (simp add: represents_def)
  then have "sorted (map row_seq (st_rows st))"
    by (simp add: strict_sorted_iff)
  then show ?thesis
    by (rule sorted_filter)
qed

lemma query_rows_newest:
  assumes "represents st log"
  shows "query_rows f d st = take (unat (query_limit f d)) (rev (filter (where_clause f st) (st_rows st)))"
  using sort_key_sorted [OF sorted_rows [OF assms]] by (simp add: query_rows_def)

lemma filtered_rows:
  assumes "list_all2 (\<lambda>r a. r = row_of (row_received_at r) a) rows log"
    and "\<And>t a. a \<in> set log \<Longrightarrow> P (row_of t a) \<longleftrightarrow> Q a"
  shows "map (\<lambda>r. \<lparr> sr_seq = row_seq r, sr_bytes = row_bytes r \<rparr>) (filter P rows) = map stored_of (filter Q log)"
  using assms
proof (induction rule: list_all2_induct)
  case (Cons r rows a log)
  then obtain t where r: "r = row_of t a"
    by blast
  then have "\<lparr> sr_seq = row_seq r, sr_bytes = row_bytes r \<rparr> = stored_of a"
    by (simp add: stored_of_def row_of_def)
  moreover have "P r \<longleftrightarrow> Q a"
    using Cons.prems r by simp
  ultimately show ?case
    using Cons.IH Cons.prems by simp
qed simp

lemma empty_condition_matches: "empty_condition f \<Longrightarrow> \<not> accepted_matches f a"
  by (auto simp: empty_condition_def accepted_matches_def matches_def split: option.split)

lemma list_all2_in_left: "\<lbrakk>list_all2 P xs ys; x \<in> set xs\<rbrakk> \<Longrightarrow> \<exists>y\<in>set ys. P x y"
  by (induction rule: list_all2_induct) auto

lemma query_log:
  assumes "represents st log" and "list_all (\<lambda>a. a_kind a \<le> i64_max) log" and "small_kinds f" and "bound_count f \<le> max_vars"
  shows "query max_vars f d st = Inr (map stored_of (take (unat (query_limit f d)) (rev (filter (accepted_matches f) log))))"
proof (cases "empty_condition f")
  case True
  then have "\<not> accepted_matches f a" for a
    by (rule empty_condition_matches)
  with True show ?thesis
    by (simp add: query_def)
next
  case False
  have "map (\<lambda>r. \<lparr> sr_seq = row_seq r, sr_bytes = row_bytes r \<rparr>) (filter (where_clause f st) (st_rows st))
      = map stored_of (filter (accepted_matches f) log)"
    using assms(1-3) where_clause_matches by (intro filtered_rows) (auto simp: represents_def list_all_iff)
  with False show ?thesis
    using assms(4) by (simp add: query_def query_rows_newest [OF assms(1)] take_map [symmetric] rev_map [symmetric])
qed


definition sample_log :: "accepted list" where
  "sample_log = [accepted_of [1] 10 [5] [[7]] [0xA] 1, accepted_of [2] 20 [6] [[8], [7]] [0xB] 2, accepted_of [3] 10 [5] [] [0xC] 3]"

definition sample_store :: store where
  "sample_store = fold insert_publication
     [([1], 10, [5], 100, [[7]], [0xA]), ([2], 20, [6], 101, [[8], [7]], [0xB]), ([1], 10, [5], 102, [[7]], [0xA]),
      ([3], 10, [5], 103, [], [0xC])] empty_store"

lemma sample_represents: "represents sample_store sample_log"
  unfolding represents_def by code_simp


end
