(* ===== verification/KernelText.thy ===== *)
theory KernelText
  imports Envelope JsonSpec
begin

text \<open>
  The text forms that the kernel gives to other crates: the \<open>Display\<close> of its errors
  (\<open>crates/evermesh-kernel/src/error.rs\<close>) and the JSON interchange form of a record
  (\<open>Record::to_json\<close>, \<open>Record::from_json\<close> in \<open>record.rs\<close>).  \<open>dbg\<close> is Rust's debug formatting of a
  value, as in \<open>to_json\<close>.
\<close>

section \<open>Errors\<close>

definition display_error :: "error \<Rightarrow> bytes" where
  "display_error e =
     (case e of
        Cbor m \<Rightarrow> str ''malformed CBOR: '' @ str m
      | NonCanonical m \<Rightarrow> str ''non-canonical encoding: '' @ str m
      | Envelope m \<Rightarrow> str ''invalid envelope: '' @ str m
      | Signature \<Rightarrow> str ''signature verification failed''
      | UnknownAlgorithm i \<Rightarrow> str ''unknown algorithm id '' @ nat_decimal (unat i)
      | Identity m \<Rightarrow> str ''invalid identity chain: '' @ str m
      | ChunkProof m \<Rightarrow> str ''chunk proof failed: '' @ str m
      | Kind m \<Rightarrow> str ''kind validation failed: '' @ str m
      | Bundle m \<Rightarrow> str ''invalid bundle: '' @ str m
      | Io m \<Rightarrow> str ''i/o error: '' @ str m)"

section \<open>Records as JSON\<close>

definition record_to_json :: "(val \<Rightarrow> bytes) \<Rightarrow> erecord \<Rightarrow> bytes" where
  "record_to_json dbg r = to_json dbg (record_to_value r True)"

definition record_from_json :: "bytes \<Rightarrow> error + erecord" where
  "record_from_json s =
     and_then (from_json s) (\<lambda>v. and_then (encode_canonical v) (\<lambda>bytes. record_from_cbor bytes))"

text \<open>A record that came in as JSON is a record of its canonical bytes: it is as strictly checked.\<close>

lemma record_from_jsonD:
  assumes "record_from_json s = Inr r"
  obtains v bytes where "from_json s = Inr v" and "encode_canonical v = Inr bytes"
    and "record_from_cbor bytes = Inr r" and "wf_record r" and "to_canonical_cbor r = Inr bytes"
proof -
  from assms obtain v bytes where *: "from_json s = Inr v" "encode_canonical v = Inr bytes"
      "record_from_cbor bytes = Inr r"
    by (auto simp: record_from_json_def result_simps)
  moreover from record_from_cborD [OF *(3)] have "wf_record r" "to_canonical_cbor r = Inr bytes"
    by (simp_all add: to_canonical_cbor_wf)
  ultimately show thesis
    by (rule that)
qed

text \<open>
  A record whose body the JSON form carries is read back from it, signature included, as
  \<open>Record::to_json\<close> promises.
\<close>

lemma json_ok_from_i64 [simp]: "json_ok (from_i64 t)"
  using as_i64_of_from_i64 [of t] by (cases "from_i64 t") (auto split: if_splits simp: from_i64_def)

lemma json_ok_record_to_value: "json_ok (r_body r) \<Longrightarrow> json_ok (record_to_value r s)"
  by (simp add: record_to_value_def Let_def identity_ref_to_value_def ref_to_value_def list_all_iff)

lemma record_json_round_trip:
  assumes "wf_record r" and "vdepth (r_body r) < 64" and "json_ok (r_body r)"
    and "addressable (keybuf (record_to_value r True))"
  shows "record_from_json (record_to_json dbg r) = Inr r"
proof -
  have "from_json (record_to_json dbg r) = Inr (record_to_value r True)"
    using assms by (simp add: record_to_json_def json_round_trip json_ok_record_to_value vdepth_record_to_value)
  moreover have "encode_canonical (record_to_value r True) = Inr (keybuf (record_to_value r True))"
    using assms by (simp add: wf_record_def record_encodes)
  moreover have "record_from_cbor (keybuf (record_to_value r True)) = Inr r"
    using assms by (intro read_back) (simp_all add: to_canonical_cbor_wf)
  ultimately show ?thesis
    by (simp add: record_from_json_def)
qed

end
