(* ===== verification/Relay.thy ===== *)
theory Relay
  imports RelayStoreSpec KernelText
begin

text \<open>
  The running relay: the connection tasks of \<open>crates/evermesh-relay/src/sync.rs\<close>, the peer tasks of
  \<open>gossip.rs\<close> and the shared state of \<open>lib.rs\<close>, as a labelled step function.

  A task is at one of the code's suspension points (\<open>phase\<close>): waiting in its \<open>select!\<close> loop, for the
  store's answer to a query or an insertion, or, after the \<open>OK\<close> of a new record, about to broadcast
  it.  Every step is what one task does up to its next suspension point, so that a run is an
  interleaving of the tasks.  What comes from outside is in the event: frames, whether the rate
  limiter lets the author through (\<open>RelayRate\<close> has its token buckets), the time, whether the store's
  task failed, and the order in which a \<open>HashMap\<close> is walked.

  The broadcast channel (\<open>tokio::sync::broadcast\<close>) is a queue per receiver that holds at most
  \<open>ACCEPTED_CHANNEL_CAPACITY\<close> records: a receiver that is further behind is first told how many it
  lost.  What the code logs about the channel, the store and the peer is kept in the task.
\<close>

section \<open>Configuration\<close>

text \<open>The configuration, and the number of parameters that the SQL engine allows in a statement.\<close>

record relay_env =
  env_config :: relay_config
  env_max_vars :: nat

definition ACCEPTED_CHANNEL_CAPACITY :: nat where
  "ACCEPTED_CHANNEL_CAPACITY = 1024"

definition DEFAULT_BACKFILL_LIMIT :: u64 where
  "DEFAULT_BACKFILL_LIMIT = 500"

definition GOSSIP_SUB_ID :: bytes where
  "GOSSIP_SUB_ID = str ''gossip''"

section \<open>Tasks and the relay\<close>

datatype warning = Skipped nat | QueryFailed | InsertFailed | IngestFailed

text \<open>A publication that passed its checks and is on its way into the store.\<close>

record candidate =
  cd_id :: bytes
  cd_kind :: u64
  cd_author :: bytes
  cd_refs :: "bytes list"
  cd_bytes :: bytes

datatype phase = Waiting | Querying bytes sub_filter | Storing candidate | Announcing accepted

record task =
  t_peer :: bool
  t_subs :: "(bytes \<times> sub_filter) list"
  t_queue :: "accepted list"
  t_phase :: phase
  t_out :: "relay_frame list"
  t_fwd :: "client_frame list"
  t_log :: "warning list"

record relay =
  rl_store :: store
  rl_tasks :: "nat \<Rightarrow> task option"

definition peer_hello :: "client_frame list" where
  "peer_hello = [Req GOSSIP_SUB_ID filter_default]"

definition new_task :: "bool \<Rightarrow> task" where
  "new_task peer =
     \<lparr> t_peer = peer, t_subs = [], t_queue = [], t_phase = Waiting, t_out = [],
       t_fwd = (if peer then peer_hello else []), t_log = [] \<rparr>"

definition relay_start :: "store \<Rightarrow> relay" where
  "relay_start st = \<lparr> rl_store = st, rl_tasks = Map.empty \<rparr>"

definition send_frame :: "relay_frame \<Rightarrow> task \<Rightarrow> task" where
  "send_frame f t = t\<lparr> t_out := t_out t @ [f] \<rparr>"

definition warn :: "warning \<Rightarrow> task \<Rightarrow> task" where
  "warn w t = t\<lparr> t_log := t_log t @ [w] \<rparr>"

definition sub_remove :: "bytes \<Rightarrow> (bytes \<times> sub_filter) list \<Rightarrow> (bytes \<times> sub_filter) list" where
  "sub_remove sid subs = filter (\<lambda>e. fst e \<noteq> sid) subs"

definition sub_insert :: "bytes \<Rightarrow> sub_filter \<Rightarrow> (bytes \<times> sub_filter) list \<Rightarrow> (bytes \<times> sub_filter) list" where
  "sub_insert sid f subs = (sid, f) # sub_remove sid subs"

section \<open>Publications\<close>

definition candidate_of :: "bytes \<Rightarrow> erecord \<Rightarrow> bytes \<Rightarrow> candidate" where
  "candidate_of i r bytes =
     \<lparr> cd_id = i, cd_kind = r_kind r, cd_author = author_identity_id r, cd_refs = ref_hashes r, cd_bytes = bytes \<rparr>"

text \<open>
  \<open>handle_pub\<close> up to the insertion: a refusal (the \<open>OK(false)\<close> frame) or a candidate; a panic of the
  kernel ends the task.
\<close>

definition handle_pub ::
  "crypto \<Rightarrow> relay_env \<Rightarrow> bytes \<Rightarrow> u64 option \<Rightarrow> bool \<Rightarrow> fault + (relay_frame + candidate)" where
  "handle_pub c env record_bytes nonce rate_ok =
     (case record_from_cbor record_bytes of
        Inl e \<Rightarrow> Inr (Inl (FOk (replicate 32 0) False (str ''invalid envelope: '' @ display_error e)))
      | Inr r \<Rightarrow>
          and_then (record_id_of c r) (\<lambda>rid.
            let i = record_id_bytes rid in
            case verify c r of
              Inl (Panic m) \<Rightarrow> Inl (Panic m)
            | Inl (Err e) \<Rightarrow> Inr (Inl (FOk i False (str ''verification failed: '' @ display_error e)))
            | Inr _ \<Rightarrow>
                if \<not> pow_check c i nonce (unat (cfg_pow_min_bits (env_config env))) then Inr (Inl (FOk i False (str ''pow'')))
                else if records_per_minute_per_key (cfg_rate (env_config env)) \<noteq> 0 \<and> \<not> rate_ok then Inr (Inl (FOk i False (str ''rate'')))
                else Inr (Inr (candidate_of i r record_bytes))))"

text \<open>\<open>ingest_from_peer\<close> up to the insertion: only a \<open>REC\<close> carries a record.\<close>

definition ingest_from_peer :: "crypto \<Rightarrow> bytes \<Rightarrow> fault + (unit + candidate option)" where
  "ingest_from_peer c bytes =
     (case relay_decode bytes of
        Inl _ \<Rightarrow> Inr (Inl ())
      | Inr (Rec _ _ record_bytes) \<Rightarrow>
          (case record_from_cbor record_bytes of
             Inl _ \<Rightarrow> Inr (Inl ())
           | Inr r \<Rightarrow>
               (case verify c r of
                  Inl (Panic m) \<Rightarrow> Inl (Panic m)
                | Inl (Err _) \<Rightarrow> Inr (Inl ())
                | Inr _ \<Rightarrow> and_then (record_id_of c r) (\<lambda>rid. Inr (Inr (Some (candidate_of (record_id_bytes rid) r record_bytes))))))
      | Inr _ \<Rightarrow> Inr (Inr None))"

definition accepted_from :: "candidate \<Rightarrow> u64 \<Rightarrow> accepted" where
  "accepted_from cd seq = accepted_of (cd_id cd) (cd_kind cd) (cd_author cd) (cd_refs cd) (cd_bytes cd) seq"

section \<open>What a task does\<close>

text \<open>The task after a client frame, \<open>None\<close> when it panics.\<close>

definition handle_client_frame :: "crypto \<Rightarrow> relay_env \<Rightarrow> bytes \<Rightarrow> bool \<Rightarrow> task \<Rightarrow> task option" where
  "handle_client_frame c env bytes rate_ok t =
     (case client_decode bytes of
        Inl _ \<Rightarrow> Some t
      | Inr (Req sid f) \<Rightarrow> Some (t\<lparr> t_subs := sub_insert sid f (t_subs t), t_phase := Querying sid f \<rparr>)
      | Inr (Close sid) \<Rightarrow> Some (t\<lparr> t_subs := sub_remove sid (t_subs t) \<rparr>)
      | Inr (Pub record_bytes nonce) \<Rightarrow>
          (case handle_pub c env record_bytes nonce rate_ok of
             Inl _ \<Rightarrow> None
           | Inr (Inl refusal) \<Rightarrow> Some (send_frame refusal t)
           | Inr (Inr cd) \<Rightarrow> Some (t\<lparr> t_phase := Storing cd \<rparr>)))"

definition handle_peer_frame :: "crypto \<Rightarrow> bytes \<Rightarrow> task \<Rightarrow> task option" where
  "handle_peer_frame c bytes t =
     (case ingest_from_peer c bytes of
        Inl _ \<Rightarrow> None
      | Inr (Inl _) \<Rightarrow> Some (warn IngestFailed t)
      | Inr (Inr None) \<Rightarrow> Some t
      | Inr (Inr (Some cd)) \<Rightarrow> Some (t\<lparr> t_phase := Storing cd \<rparr>))"

text \<open>The end of \<open>handle_req\<close>: the rows of the query and \<open>EOSE\<close>.\<close>

definition finish_req :: "relay_env \<Rightarrow> bytes \<Rightarrow> sub_filter \<Rightarrow> bool \<Rightarrow> store \<Rightarrow> task \<Rightarrow> task" where
  "finish_req env sid f failed st t =
     (case (if failed then Inl TooManyVariables else query (env_max_vars env) f DEFAULT_BACKFILL_LIMIT st) of
        Inl _ \<Rightarrow> warn QueryFailed (send_frame (Eose sid) t\<lparr> t_phase := Waiting \<rparr>)
      | Inr rows \<Rightarrow>
          send_frame (Eose sid)
            (fold (\<lambda>r. send_frame (Rec sid (sr_seq r) (sr_bytes r))) rows (t\<lparr> t_phase := Waiting \<rparr>)))"

text \<open>After the insertion: the answer to the client, then the broadcast of a new record.\<close>

definition reply :: "relay_frame \<Rightarrow> task \<Rightarrow> task" where
  "reply f t = (if t_peer t then t else send_frame f t)"

definition finish_insert :: "candidate \<Rightarrow> sql_error + insert_outcome \<Rightarrow> task \<Rightarrow> task" where
  "finish_insert cd result t =
     (case result of
        Inr Duplicate \<Rightarrow> reply (FOk (cd_id cd) True []) (t\<lparr> t_phase := Waiting \<rparr>)
      | Inr (Inserted seq) \<Rightarrow> reply (FOk (cd_id cd) True []) (t\<lparr> t_phase := Announcing (accepted_from cd seq) \<rparr>)
      | Inl _ \<Rightarrow> warn InsertFailed (reply (FOk (cd_id cd) False (str ''internal error'')) (t\<lparr> t_phase := Waiting \<rparr>)))"

definition deliver_live :: "accepted \<Rightarrow> (bytes \<times> sub_filter) list \<Rightarrow> task \<Rightarrow> task" where
  "deliver_live a subs t =
     fold (\<lambda>(sid, f) u. if accepted_matches f a then send_frame (Rec sid (a_seq a) (a_bytes a)) u else u) subs t"

definition forward_to_peer :: "accepted \<Rightarrow> task \<Rightarrow> task" where
  "forward_to_peer a t = t\<lparr> t_fwd := t_fwd t @ [Pub (a_bytes a) None] \<rparr>"

text \<open>\<open>accepted_rx.recv()\<close> and what the task does with it; the subscriptions are walked in \<open>order\<close>.\<close>

definition receive :: "(bytes \<times> sub_filter) list \<Rightarrow> task \<Rightarrow> task option" where
  "receive order t =
     (case t_queue t of
        [] \<Rightarrow> None
      | a # q \<Rightarrow>
          if ACCEPTED_CHANNEL_CAPACITY < length (t_queue t) then
            (let n = length (t_queue t) - ACCEPTED_CHANNEL_CAPACITY
             in Some (warn (Skipped n) (t\<lparr> t_queue := drop n (t_queue t) \<rparr>)))
          else if t_peer t then Some (forward_to_peer a (t\<lparr> t_queue := q \<rparr>))
          else if mset order = mset (t_subs t) then Some (deliver_live a order (t\<lparr> t_queue := q \<rparr>))
          else None)"

section \<open>Steps\<close>

datatype event =
    Connect nat bool
  | Disconnect nat
  | Frame nat bytes bool
  | QueryDone nat bool
  | InsertDone nat i64 bool
  | Announce nat
  | Receive nat "(bytes \<times> sub_filter) list"
  | Restart

definition broadcast :: "accepted \<Rightarrow> (nat \<Rightarrow> task option) \<Rightarrow> nat \<Rightarrow> task option" where
  "broadcast a tasks k = map_option (\<lambda>t. t\<lparr> t_queue := t_queue t @ [a] \<rparr>) (tasks k)"

fun step :: "crypto \<Rightarrow> relay_env \<Rightarrow> event \<Rightarrow> relay \<Rightarrow> relay option" where
  "step c env (Connect k peer) s =
     (case rl_tasks s k of None \<Rightarrow> Some (s\<lparr> rl_tasks := (rl_tasks s)(k \<mapsto> new_task peer) \<rparr>) | Some _ \<Rightarrow> None)"
| "step c env (Disconnect k) s =
     (case rl_tasks s k of
        Some t \<Rightarrow> if t_phase t = Waiting then Some (s\<lparr> rl_tasks := (rl_tasks s)(k := None) \<rparr>) else None
      | None \<Rightarrow> None)"
| "step c env (Frame k bytes rate_ok) s =
     (case rl_tasks s k of
        Some t \<Rightarrow>
          if t_phase t = Waiting then
            Some (s\<lparr> rl_tasks := (rl_tasks s)(k :=
              (if t_peer t then handle_peer_frame c bytes t else handle_client_frame c env bytes rate_ok t)) \<rparr>)
          else None
      | None \<Rightarrow> None)"
| "step c env (QueryDone k failed) s =
     (case rl_tasks s k of
        Some t \<Rightarrow>
          (case t_phase t of
             Querying sid f \<Rightarrow> Some (s\<lparr> rl_tasks := (rl_tasks s)(k \<mapsto> finish_req env sid f failed (rl_store s) t) \<rparr>)
           | _ \<Rightarrow> None)
      | None \<Rightarrow> None)"
| "step c env (InsertDone k now failed) s =
     (case rl_tasks s k of
        Some t \<Rightarrow>
          (case t_phase t of
             Storing cd \<Rightarrow>
               (let (result, st') =
                  (if failed then (Inl SqlFull, rl_store s)
                   else insert_record (cd_id cd) (cd_kind cd) (cd_author cd) now (cd_refs cd) (cd_bytes cd) (rl_store s))
                in Some \<lparr> rl_store = st', rl_tasks = (rl_tasks s)(k \<mapsto> finish_insert cd result t) \<rparr>)
           | _ \<Rightarrow> None)
      | None \<Rightarrow> None)"
| "step c env (Announce k) s =
     (case rl_tasks s k of
        Some t \<Rightarrow>
          (case t_phase t of
             Announcing a \<Rightarrow> Some (s\<lparr> rl_tasks := broadcast a ((rl_tasks s)(k \<mapsto> t\<lparr> t_phase := Waiting \<rparr>)) \<rparr>)
           | _ \<Rightarrow> None)
      | None \<Rightarrow> None)"
| "step c env (Receive k order) s =
     (case rl_tasks s k of
        Some t \<Rightarrow>
          if t_phase t = Waiting then map_option (\<lambda>t'. s\<lparr> rl_tasks := (rl_tasks s)(k \<mapsto> t') \<rparr>) (receive order t) else None
      | None \<Rightarrow> None)"
| "step c env Restart s = Some (relay_start (rl_store s))"

fun run :: "crypto \<Rightarrow> relay_env \<Rightarrow> event list \<Rightarrow> relay \<Rightarrow> relay option" where
  "run c env [] s = Some s"
| "run c env (e # es) s = Option.bind (step c env e s) (run c env es)"

inductive reachable :: "crypto \<Rightarrow> relay_env \<Rightarrow> relay \<Rightarrow> bool" for c env where
  start: "reachable c env (relay_start empty_store)"
| step: "\<lbrakk>reachable c env s; step c env e s = Some s'\<rbrakk> \<Longrightarrow> reachable c env s'"

end
