(* ===== verification/RelaySpec.thy ===== *)
theory RelaySpec
  imports Relay
begin

text \<open>
  The invariant of the running relay over all interleavings of its tasks, and what a subscriber can
  rely on.
\<close>

section \<open>The invariant\<close>

text \<open>\<open>genuine c a\<close>: the bytes parse to a record whose signature verifies, and the rest is read off it.\<close>

definition genuine_parts :: "crypto \<Rightarrow> bytes \<Rightarrow> u64 \<Rightarrow> bytes \<Rightarrow> bytes list \<Rightarrow> bytes \<Rightarrow> bool" where
  "genuine_parts c i kind author hs bs \<longleftrightarrow>
     (\<exists>r. record_from_cbor bs = Inr r \<and> verify c r = Inr () \<and> record_id_of c r = Inr (RecordId i)
        \<and> kind = r_kind r \<and> author = author_identity_id r \<and> hs = ref_hashes r)"

definition genuine :: "crypto \<Rightarrow> accepted \<Rightarrow> bool" where
  "genuine c a \<longleftrightarrow> genuine_parts c (a_id a) (a_kind a) (a_author a) (a_refs a) (a_bytes a)"

definition genuine_candidate :: "crypto \<Rightarrow> candidate \<Rightarrow> bool" where
  "genuine_candidate c cd \<longleftrightarrow> genuine_parts c (cd_id cd) (cd_kind cd) (cd_author cd) (cd_refs cd) (cd_bytes cd)"

definition frame_backed :: "accepted list \<Rightarrow> relay_frame \<Rightarrow> bool" where
  "frame_backed log fr = (case fr of
       Rec sid seq bs \<Rightarrow> \<exists>a\<in>set log. a_seq a = seq \<and> a_bytes a = bs
     | FOk i True reason \<Rightarrow> i \<in> set (map a_id log)
     | _ \<Rightarrow> True)"

definition forward_backed :: "accepted list \<Rightarrow> client_frame \<Rightarrow> bool" where
  "forward_backed log fr = (case fr of Pub bs n \<Rightarrow> \<exists>a\<in>set log. a_bytes a = bs | _ \<Rightarrow> True)"

definition task_backed :: "crypto \<Rightarrow> accepted list \<Rightarrow> task \<Rightarrow> bool" where
  "task_backed c log t \<longleftrightarrow>
     set (t_queue t) \<subseteq> set log
     \<and> (case t_phase t of Announcing a \<Rightarrow> a \<in> set log | Storing cd \<Rightarrow> genuine_candidate c cd | _ \<Rightarrow> True)
     \<and> (\<forall>fr\<in>set (t_out t). frame_backed log fr) \<and> (\<forall>fr\<in>set (t_fwd t). forward_backed log fr)"

text \<open>Where the next record of a subscription is, when it has not been sent: in the task's queue, or with a
  task about to broadcast it.\<close>

definition in_flight :: "relay \<Rightarrow> accepted \<Rightarrow> bool" where
  "in_flight s a \<longleftrightarrow> (\<exists>k t. rl_tasks s k = Some t \<and> t_phase t = Announcing a)"

definition within_limit :: "accepted list \<Rightarrow> sub_filter \<Rightarrow> bool" where
  "within_limit log f \<longleftrightarrow>
     small_kinds f \<and> list_all (\<lambda>a. a_kind a \<le> i64_max) log
     \<and> length (filter (accepted_matches f) log) \<le> unat (query_limit f DEFAULT_BACKFILL_LIMIT)"

definition sub_served :: "relay \<Rightarrow> accepted list \<Rightarrow> task \<Rightarrow> bytes \<times> sub_filter \<Rightarrow> bool" where
  "sub_served s log t e = (case e of (sid, f) \<Rightarrow>
     within_limit log f \<longrightarrow>
     (\<forall>a\<in>set log. accepted_matches f a \<longrightarrow>
        Rec sid (a_seq a) (a_bytes a) \<in> set (t_out t) \<or> a \<in> set (t_queue t) \<or> in_flight s a))"

definition being_queried :: "task \<Rightarrow> bytes \<Rightarrow> bool" where
  "being_queried t sid = (case t_phase t of Querying sid' f \<Rightarrow> sid' = sid | _ \<Rightarrow> False)"

definition task_served :: "relay \<Rightarrow> accepted list \<Rightarrow> task \<Rightarrow> bool" where
  "task_served s log t \<longleftrightarrow>
     distinct (map fst (t_subs t))
     \<and> (case t_phase t of Querying sid f \<Rightarrow> (sid, f) \<in> set (t_subs t) | _ \<Rightarrow> True)
     \<and> (\<not> t_peer t \<and> t_log t = [] \<longrightarrow>
          (\<forall>e\<in>set (t_subs t). \<not> being_queried t (fst e) \<longrightarrow> sub_served s log t e))"

definition relay_inv :: "crypto \<Rightarrow> relay \<Rightarrow> accepted list \<Rightarrow> bool" where
  "relay_inv c s log \<longleftrightarrow>
     represents (rl_store s) log \<and> (\<forall>a\<in>set log. genuine c a)
     \<and> (\<forall>k t. rl_tasks s k = Some t \<longrightarrow> task_backed c log t \<and> task_served s log t)"

section \<open>Parts of a step\<close>

lemma send_frame_simps [simp]:
  "t_peer (send_frame f t) = t_peer t" "t_subs (send_frame f t) = t_subs t" "t_queue (send_frame f t) = t_queue t"
  "t_phase (send_frame f t) = t_phase t" "t_out (send_frame f t) = t_out t @ [f]" "t_fwd (send_frame f t) = t_fwd t"
  "t_log (send_frame f t) = t_log t"
  by (simp_all add: send_frame_def)

lemma warn_simps [simp]:
  "t_peer (warn w t) = t_peer t" "t_subs (warn w t) = t_subs t" "t_queue (warn w t) = t_queue t"
  "t_phase (warn w t) = t_phase t" "t_out (warn w t) = t_out t" "t_fwd (warn w t) = t_fwd t"
  "t_log (warn w t) = t_log t @ [w]"
  by (simp_all add: warn_def)

lemma deliver_live_eq:
  "deliver_live a subs t = t\<lparr> t_out := t_out t
     @ map (\<lambda>e. Rec (fst e) (a_seq a) (a_bytes a)) (filter (\<lambda>e. accepted_matches (snd e) a) subs) \<rparr>"
proof (induction subs arbitrary: t)
  case (Cons e subs)
  have "deliver_live a (e # subs) t
      = deliver_live a subs (if accepted_matches (snd e) a then send_frame (Rec (fst e) (a_seq a) (a_bytes a)) t else t)"
    by (simp add: deliver_live_def case_prod_beta)
  with Cons.IH show ?case
    by (simp add: send_frame_def)
qed (simp add: deliver_live_def)

lemma send_rows:
  "fold (\<lambda>r. send_frame (g r)) rows t = t\<lparr> t_out := t_out t @ map g rows \<rparr>"
  by (induction rows arbitrary: t) (simp_all add: send_frame_def)

lemma sub_insert_simps:
  "distinct (map fst subs) \<Longrightarrow> distinct (map fst (sub_remove sid subs))"
  "set (sub_remove sid subs) = {e \<in> set subs. fst e \<noteq> sid}"
  "distinct (map fst subs) \<Longrightarrow> distinct (map fst (sub_insert sid f subs))"
  "set (sub_insert sid f subs) = insert (sid, f) {e \<in> set subs. fst e \<noteq> sid}"
  by (auto simp: sub_insert_def sub_remove_def distinct_map_filter)

lemma handle_pub_cases:
  assumes "handle_pub c env bs nonce rate_ok = Inr res"
  shows "(\<exists>i reason. res = Inl (FOk i False reason)) \<or> (\<exists>cd. res = Inr cd \<and> genuine_candidate c cd)"
proof (cases "record_from_cbor bs")
  case (Inl e)
  then show ?thesis
    using assms by (auto simp: handle_pub_def)
next
  case (Inr r)
  then obtain rid where rid: "record_id_of c r = Inr rid"
    using parsed_no_panic [of bs r c] by (auto simp: is_ok_iff)
  show ?thesis
  proof (cases "verify c r")
    case (Inl e)
    then show ?thesis
      using assms Inr rid by (cases e) (auto simp: handle_pub_def Let_def)
  next
    case verified: (Inr u)
    then have "genuine_candidate c (candidate_of (record_id_bytes rid) r bs)"
      using Inr rid by (cases rid) (simp add: genuine_candidate_def genuine_parts_def candidate_of_def)
    then show ?thesis
      using assms Inr rid verified by (auto simp: handle_pub_def Let_def split: if_split_asm)
  qed
qed

lemma ingest_candidate:
  assumes "ingest_from_peer c bs = Inr (Inr (Some cd))"
  shows "genuine_candidate c cd"
proof -
  obtain sid seq bs' where bs': "relay_decode bs = Inr (Rec sid seq bs')"
    using assms by (auto simp: ingest_from_peer_def split: sum.split_asm relay_frame.split_asm)
  then obtain r where r: "record_from_cbor bs' = Inr r"
    using assms by (auto simp: ingest_from_peer_def split: sum.split_asm)
  then obtain rid where rid: "record_id_of c r = Inr rid"
    using parsed_no_panic [of bs' r c] by (auto simp: is_ok_iff)
  have "verify c r = Inr ()" and "cd = candidate_of (record_id_bytes rid) r bs'"
    using assms bs' r rid by (auto simp: ingest_from_peer_def split: sum.split_asm fault.split_asm)
  then show ?thesis
    using r rid by (cases rid) (simp add: genuine_candidate_def genuine_parts_def candidate_of_def)
qed

section \<open>Preservation\<close>

lemma relay_inv_start: "relay_inv c (relay_start empty_store) []"
  by (simp add: relay_inv_def relay_start_def represents_empty)

text \<open>A longer log keeps what was backed and what was served.\<close>

lemma frame_backed_mono: "\<lbrakk>frame_backed log fr; set log \<subseteq> set log'\<rbrakk> \<Longrightarrow> frame_backed log' fr"
  by (auto simp: frame_backed_def split: relay_frame.splits bool.splits)

lemma forward_backed_mono: "\<lbrakk>forward_backed log fr; set log \<subseteq> set log'\<rbrakk> \<Longrightarrow> forward_backed log' fr"
  by (auto simp: forward_backed_def split: client_frame.splits)

lemma task_backed_mono: "\<lbrakk>task_backed c log t; set log \<subseteq> set log'\<rbrakk> \<Longrightarrow> task_backed c log' t"
  using frame_backed_mono [of log _ log'] forward_backed_mono [of log _ log']
  by (auto simp: task_backed_def split: phase.splits)

lemma within_limit_append: "within_limit (log @ log') f \<Longrightarrow> within_limit log f"
  by (auto simp: within_limit_def)

text \<open>A task is still served in a state in which nothing left the air without reaching its queue.\<close>

lemma sub_served_mono:
  assumes "sub_served s log t e" and "set (t_out t) \<subseteq> set (t_out t')"
    and "\<And>a. a \<in> set (t_queue t) \<Longrightarrow> accepted_matches (snd e) a \<Longrightarrow>
      Rec (fst e) (a_seq a) (a_bytes a) \<in> set (t_out t') \<or> a \<in> set (t_queue t') \<or> in_flight s' a"
    and "\<And>a. in_flight s a \<Longrightarrow> in_flight s' a \<or> a \<in> set (t_queue t')"
  shows "sub_served s' log t' e"
  using assms by (cases e) (auto simp: sub_served_def)

lemma sub_served_append:
  assumes "sub_served s log t e" and "\<And>a. in_flight s a \<Longrightarrow> in_flight s' a" and "in_flight s' a"
  shows "sub_served s' (log @ [a]) t e"
  using assms within_limit_append [of log "[a]" "snd e"] by (cases e) (auto simp: sub_served_def)

lemma task_served_keep:
  assumes "task_served s log t" and "t_peer t' = t_peer t" and "t_subs t' = t_subs t"
    and "t_log t' = [] \<Longrightarrow> t_log t = []"
    and "t_phase t' = t_phase t \<or> (\<forall>sid. \<not> being_queried t sid) \<and> (\<forall>sid f. t_phase t' \<noteq> Querying sid f)"
    and "\<And>e. \<lbrakk>e \<in> set (t_subs t); t_log t' = []; \<not> t_peer t; sub_served s log t e\<rbrakk> \<Longrightarrow> sub_served s' log' t' e"
  shows "task_served s' log' t'"
  using assms by (auto simp: task_served_def being_queried_def split: phase.splits)

lemma relay_invD:
  assumes "relay_inv c s log" and "rl_tasks s k = Some t"
  shows "task_backed c log t" and "task_served s log t"
  using assms by (simp_all add: relay_inv_def)

text \<open>A step of one task that leaves the store alone and takes nothing off the air.\<close>

lemma relay_inv_task:
  assumes "relay_inv c s log" and "\<And>a. in_flight s a \<Longrightarrow> in_flight (s\<lparr> rl_tasks := (rl_tasks s)(k := to) \<rparr>) a"
    and "\<And>t'. to = Some t' \<Longrightarrow> task_backed c log t' \<and> task_served (s\<lparr> rl_tasks := (rl_tasks s)(k := to) \<rparr>) log t'"
  shows "relay_inv c (s\<lparr> rl_tasks := (rl_tasks s)(k := to) \<rparr>) log"
proof -
  have "task_served (s\<lparr> rl_tasks := (rl_tasks s)(k := to) \<rparr>) log t" if "rl_tasks s j = Some t" for j t
    using relay_invD(2) [OF assms(1) that] assms(2)
    by (elim task_served_keep) (auto intro: sub_served_mono)
  then show ?thesis
    using assms by (auto simp: relay_inv_def)
qed

lemma in_flight_update:
  assumes "\<And>t b. rl_tasks s k = Some t \<Longrightarrow> t_phase t \<noteq> Announcing b" and "in_flight s a"
  shows "in_flight (s\<lparr> rl_tasks := (rl_tasks s)(k := to) \<rparr>) a"
proof -
  obtain j u where u: "rl_tasks s j = Some u" "t_phase u = Announcing a"
    using assms(2) by (auto simp: in_flight_def)
  with assms(1) have "j \<noteq> k"
    by auto
  with u show ?thesis
    by (auto simp: in_flight_def)
qed

lemma connect_inv:
  assumes "relay_inv c s log" and "rl_tasks s k = None"
  shows "relay_inv c (s\<lparr> rl_tasks := (rl_tasks s)(k \<mapsto> new_task peer) \<rparr>) log"
  using assms
  by (intro relay_inv_task in_flight_update)
    (auto simp: new_task_def peer_hello_def task_backed_def task_served_def forward_backed_def)

lemma disconnect_inv:
  assumes "relay_inv c s log" and "rl_tasks s k = Some t" and "t_phase t = Waiting"
  shows "relay_inv c (s\<lparr> rl_tasks := (rl_tasks s)(k := None) \<rparr>) log"
  using assms by (intro relay_inv_task in_flight_update) auto

lemma client_frame_inv:
  assumes "task_backed c log t" "task_served s log t" "t_phase t = Waiting"
    and "handle_client_frame c env bs rate_ok t = Some t'" and flight: "\<And>a. in_flight s a \<Longrightarrow> in_flight s' a"
  shows "task_backed c log t' \<and> task_served s' log t'"
proof -
  note keep = task_served_keep [OF assms(2), of t' s' log]
  have served: "sub_served s' log t' e"
    if "sub_served s log t e" "set (t_out t) \<subseteq> set (t_out t')" "t_queue t' = t_queue t" for e
    using that flight by (auto elim: sub_served_mono)
  consider "t' = t" | (req) sid f where "t' = t\<lparr> t_subs := sub_insert sid f (t_subs t), t_phase := Querying sid f \<rparr>"
    | (close) sid where "t' = t\<lparr> t_subs := sub_remove sid (t_subs t) \<rparr>"
    | (refused) i reason where "t' = send_frame (FOk i False reason) t"
    | (storing) cd where "t' = t\<lparr> t_phase := Storing cd \<rparr>" "genuine_candidate c cd"
    using assms(4) handle_pub_cases [of c env _ _ rate_ok]
    by (auto simp: handle_client_frame_def split: sum.split_asm client_frame.split_asm) fastforce+
  then show ?thesis
  proof cases
    case 1
    then have "task_served s' log t'"
      using served by (intro keep) auto
    with 1 show ?thesis
      using assms(1) by simp
  next
    case req
    then show ?thesis
      using assms(1-3) served
      by (auto simp: task_backed_def task_served_def being_queried_def sub_insert_simps)
  next
    case close
    then show ?thesis
      using assms(1-3) served
      by (auto simp: task_backed_def task_served_def being_queried_def sub_insert_simps)
  next
    case refused
    then have "task_served s' log t'"
      using served by (intro keep) auto
    with refused show ?thesis
      using assms(1) by (simp add: task_backed_def frame_backed_def)
  next
    case storing
    then have "task_served s' log t'"
      using assms(3) served by (intro keep) (auto simp: being_queried_def)
    with storing show ?thesis
      using assms(1) by (simp add: task_backed_def)
  qed
qed

lemma peer_frame_inv:
  assumes "task_backed c log t" "task_served s log t" "t_phase t = Waiting" "t_peer t"
    and "handle_peer_frame c bs t = Some t'"
  shows "task_backed c log t' \<and> task_served s' log t'"
proof -
  have "t_peer t' \<and> t_subs t' = t_subs t \<and> t_queue t' = t_queue t \<and> t_out t' = t_out t \<and> t_fwd t' = t_fwd t
      \<and> (t_phase t' = Waiting \<or> (\<exists>cd. t_phase t' = Storing cd \<and> genuine_candidate c cd))"
    using assms(3-5) ingest_candidate [of c bs]
    by (auto simp: handle_peer_frame_def split: sum.split_asm option.split_asm)
  then show ?thesis
    using assms(1,2) by (auto simp: task_backed_def task_served_def)
qed

lemma frame_inv:
  assumes "relay_inv c s log" and t: "rl_tasks s k = Some t" "t_phase t = Waiting"
  shows "relay_inv c (s\<lparr> rl_tasks := (rl_tasks s)(k :=
      (if t_peer t then handle_peer_frame c bs t else handle_client_frame c env bs rate_ok t)) \<rparr>) log"
proof (rule relay_inv_task [OF assms(1)])
  show flight: "in_flight s a \<Longrightarrow> in_flight (s\<lparr> rl_tasks := (rl_tasks s)(k := to) \<rparr>) a" for a to
    by (rule in_flight_update) (use t in auto)
  fix t'
  assume t': "(if t_peer t then handle_peer_frame c bs t else handle_client_frame c env bs rate_ok t) = Some t'"
  show "task_backed c log t' \<and> task_served (s\<lparr> rl_tasks := (rl_tasks s)(k :=
      (if t_peer t then handle_peer_frame c bs t else handle_client_frame c env bs rate_ok t)) \<rparr>) log t'"
  proof (cases "t_peer t")
    case True
    then show ?thesis
      using t' peer_frame_inv [OF relay_invD [OF assms(1) t(1)] t(2) True] by simp
  next
    case False
    then show ?thesis
      using t' client_frame_inv [OF relay_invD [OF assms(1) t(1)] t(2) _ flight] by simp
  qed
qed

text \<open>The backfill.\<close>

lemma query_backed:
  assumes "represents st log" and "query mv f d st = Inr rows" and "r \<in> set rows"
  shows "\<exists>a\<in>set log. a_seq a = sr_seq r \<and> a_bytes a = sr_bytes r"
proof -
  obtain w where w: "w \<in> set (st_rows st)" "sr_seq r = row_seq w" "sr_bytes r = row_bytes w"
    using assms(2,3) by (auto simp: query_def query_rows_def split: if_split_asm dest!: in_set_takeD)
  obtain a where "a \<in> set log" "w = row_of (row_received_at w) a"
    using assms(1) list_all2_in_left [OF _ w(1)] unfolding represents_def by blast
  then have "a_seq a = row_seq w" "a_bytes a = row_bytes w"
    by (metis row_of_def row.select_convs(1), metis row_of_def row.select_convs(6))
  with w \<open>a \<in> set log\<close> show ?thesis
    by auto
qed

lemma query_complete:
  assumes "represents st log" and "query mv f DEFAULT_BACKFILL_LIMIT st = Inr rows" and "within_limit log f"
    and "a \<in> set log" and "accepted_matches f a"
  shows "\<lparr> sr_seq = a_seq a, sr_bytes = a_bytes a \<rparr> \<in> set rows"
proof -
  have "\<not> empty_condition f"
    using assms(5) empty_condition_matches by blast
  then have "bound_count f \<le> mv"
    using assms(2) by (auto simp: query_def split: if_split_asm)
  then have "rows = map stored_of (rev (filter (accepted_matches f) log))"
    using assms(1-3) query_log [of st log f mv DEFAULT_BACKFILL_LIMIT] by (simp add: within_limit_def)
  then show ?thesis
    using assms(4,5) by (auto simp: stored_of_def)
qed

lemma query_done_inv:
  assumes "relay_inv c s log" and t: "rl_tasks s k = Some t" "t_phase t = Querying sid f"
  shows "relay_inv c (s\<lparr> rl_tasks := (rl_tasks s)(k \<mapsto> finish_req env sid f failed (rl_store s) t) \<rparr>) log"
proof (rule relay_inv_task [OF assms(1)])
  let ?s = "s\<lparr> rl_tasks := (rl_tasks s)(k \<mapsto> finish_req env sid f failed (rl_store s) t) \<rparr>"
  show flight: "in_flight s a \<Longrightarrow> in_flight ?s a" for a
    by (rule in_flight_update) (use t in auto)
  note inv = relay_invD [OF assms(1) t(1)]
  have log: "represents (rl_store s) log"
    using assms(1) by (simp add: relay_inv_def)
  fix t'
  assume "Some (finish_req env sid f failed (rl_store s) t) = Some t'"
  then have t': "t' = finish_req env sid f failed (rl_store s) t"
    by simp
  have all_rows: "send_frame (Eose sid) (fold (\<lambda>r. send_frame (Rec sid (sr_seq r) (sr_bytes r))) rows (t\<lparr> t_phase := Waiting \<rparr>))
      = t\<lparr> t_phase := Waiting, t_out := t_out t @ map (\<lambda>r. Rec sid (sr_seq r) (sr_bytes r)) rows @ [Eose sid] \<rparr>" for rows
    by (simp add: send_rows send_frame_def)
  consider (none) "t' = warn QueryFailed (send_frame (Eose sid) t\<lparr> t_phase := Waiting \<rparr>)"
    | (rows) rows where "query (env_max_vars env) f DEFAULT_BACKFILL_LIMIT (rl_store s) = Inr rows"
      "t' = t\<lparr> t_phase := Waiting, t_out := t_out t @ map (\<lambda>r. Rec sid (sr_seq r) (sr_bytes r)) rows @ [Eose sid] \<rparr>"
    unfolding t' finish_req_def all_rows
    by (cases failed; cases "query (env_max_vars env) f DEFAULT_BACKFILL_LIMIT (rl_store s)") simp_all
  then show "task_backed c log t' \<and> task_served ?s log t'"
  proof cases
    case none
    then show ?thesis
      using inv by (auto simp: task_backed_def task_served_def frame_backed_def)
  next
    case rows
    have "task_backed c log t'"
      using inv(1) query_backed [OF log rows(1)] by (auto simp: rows(2) task_backed_def frame_backed_def)
    moreover have "sub_served ?s log t' e" if e: "e \<in> set (t_subs t)" "\<not> t_peer t" "t_log t = []" for e
    proof (cases "fst e = sid")
      case True
      then have "e = (sid, f)"
        using inv(2) e(1) t(2) eq_key_imp_eq_value [of "t_subs t" sid "snd e" f] by (cases e) (auto simp: task_served_def)
      then show ?thesis
        using query_complete [OF log rows(1)] by (force simp: sub_served_def rows(2))
    next
      case False
      then have "sub_served s log t e"
        using inv(2) e t(2) by (auto simp: task_served_def being_queried_def)
      then show ?thesis
        by (rule sub_served_mono) (auto simp: rows(2) intro: flight)
    qed
    then have "task_served ?s log t'"
      using inv(2) by (auto simp: rows(2) task_served_def)
    ultimately show ?thesis
      by blast
  qed
qed

text \<open>Insertion and broadcast.\<close>

lemma accepted_from_simps:
  "a_seq (accepted_from cd seq) = seq" "a_id (accepted_from cd seq) = cd_id cd"
  "genuine c (accepted_from cd seq) \<longleftrightarrow> genuine_candidate c cd"
  by (simp_all add: accepted_from_def accepted_of_def genuine_def genuine_candidate_def)

lemma finish_insert_simps:
  "t_peer (finish_insert cd res t) = t_peer t" "t_subs (finish_insert cd res t) = t_subs t"
  "t_queue (finish_insert cd res t) = t_queue t" "t_fwd (finish_insert cd res t) = t_fwd t"
  "set (t_out t) \<subseteq> set (t_out (finish_insert cd res t))"
  "t_log (finish_insert cd res t) = [] \<Longrightarrow> t_log t = []"
  by (auto simp: finish_insert_def reply_def split: sum.splits insert_outcome.splits if_split_asm)

lemma finish_insert_served:
  assumes "task_served s log t" and "t_phase t = Storing cd"
    and "\<And>e. sub_served s log t e \<Longrightarrow> sub_served s' log' (finish_insert cd res t) e"
  shows "task_served s' log' (finish_insert cd res t)"
  using assms(1)
proof (rule task_served_keep)
  show "t_phase (finish_insert cd res t) = t_phase t
      \<or> (\<forall>sid. \<not> being_queried t sid) \<and> (\<forall>sid f. t_phase (finish_insert cd res t) \<noteq> Querying sid f)"
    using assms(2)
    by (auto simp: being_queried_def finish_insert_def reply_def split: sum.splits insert_outcome.splits)
qed (use assms(3) in \<open>simp_all add: finish_insert_simps\<close>)

lemma insert_done_inv:
  assumes inv: "relay_inv c s log" and t: "rl_tasks s k = Some t" "t_phase t = Storing cd"
    and ins: "(if failed then (Inl SqlFull, rl_store s)
       else insert_record (cd_id cd) (cd_kind cd) (cd_author cd) now (cd_refs cd) (cd_bytes cd) (rl_store s)) = (res, st')"
  shows "\<exists>log'. relay_inv c \<lparr> rl_store = st', rl_tasks = (rl_tasks s)(k \<mapsto> finish_insert cd res t) \<rparr> log'"
proof -
  let ?t = "finish_insert cd res t" and ?s = "\<lparr> rl_store = st', rl_tasks = (rl_tasks s)(k \<mapsto> finish_insert cd res t) \<rparr>"
  note task = relay_invD [OF inv t(1)]
  have log: "represents (rl_store s) log"
    using inv by (simp add: relay_inv_def)
  have flight: "in_flight ?s a" if "in_flight s a" for a
  proof -
    have "in_flight (s\<lparr> rl_tasks := (rl_tasks s)(k := Some ?t) \<rparr>) a"
      by (rule in_flight_update [OF _ that]) (use t in auto)
    then show ?thesis
      by (simp add: in_flight_def del: fun_upd_apply)
  qed
  have same: "relay_inv c ?s log"
    if st': "st' = rl_store s" and ok: "res = Inr Duplicate \<longrightarrow> cd_id cd \<in> set (map a_id log)" and new: "\<forall>seq. res \<noteq> Inr (Inserted seq)"
  proof -
    have s: "?s = s\<lparr> rl_tasks := (rl_tasks s)(k := Some ?t) \<rparr>"
      by (simp add: st')
    have "task_backed c log ?t"
      using task(1) ok new
      by (auto simp: finish_insert_def reply_def task_backed_def frame_backed_def split: sum.splits insert_outcome.splits)
    moreover have "task_served ?s log ?t"
      using task(2) t(2) by (rule finish_insert_served) (erule sub_served_mono; simp add: finish_insert_simps flight)
    ultimately show ?thesis
      unfolding s by (intro relay_inv_task [OF inv]) (use flight [unfolded s] in \<open>auto simp: s\<close>)
  qed
  show ?thesis
  proof (cases failed)
    case True
    then show ?thesis
      using ins same by auto
  next
    case False
    then have ins: "insert_record (cd_id cd) (cd_kind cd) (cd_author cd) now (cd_refs cd) (cd_bytes cd) (rl_store s) = (res, st')"
      using ins by simp
    show ?thesis
    proof (rule insert_record_cases [OF log, of "cd_id cd" "cd_kind cd" "cd_author cd" now "cd_refs cd" "cd_bytes cd"], goal_cases)
      case 1
      then show ?case
        using ins same by auto
    next
      case 2
      then show ?case
        using ins same by auto
    next
      case (3 st'' seq)
      define a where "a = accepted_from cd seq"
      have res: "res = Inr (Inserted seq)" "st'' = st'" and rep: "represents st' (log @ [a])"
        using 3 ins by (simp_all add: a_def accepted_from_def)
      have ga: "genuine c a"
        using task(1) t(2) by (simp add: a_def accepted_from_simps task_backed_def)
      have phase: "t_phase ?t = Announcing a"
        by (simp add: finish_insert_def res reply_def a_def)
      then have air: "in_flight ?s a"
        by (auto simp: in_flight_def)
      have "task_backed c (log @ [a]) ?t"
        using task_backed_mono [OF task(1), of "log @ [a]"]
        by (auto simp: finish_insert_def reply_def res task_backed_def frame_backed_def a_def accepted_from_simps)
      moreover have "task_backed c (log @ [a]) u" if "rl_tasks s j = Some u" for j u
        using relay_invD(1) [OF inv that] by (rule task_backed_mono) auto
      moreover have "task_served ?s (log @ [a]) ?t"
        using task(2) t(2)
      proof (rule finish_insert_served)
        fix e
        assume "sub_served s log t e"
        then have "sub_served s log ?t e"
          by (rule sub_served_mono) (simp_all add: finish_insert_simps)
        then show "sub_served ?s (log @ [a]) ?t e"
          using flight air by (rule sub_served_append)
      qed
      moreover have "task_served ?s (log @ [a]) u" if "rl_tasks s j = Some u" for j u
        using relay_invD(2) [OF inv that] by (rule task_served_keep) (auto intro: sub_served_append [OF _ flight air])
      ultimately have "relay_inv c ?s (log @ [a])"
        using inv rep ga by (auto simp: relay_inv_def)
      then show ?case ..
    qed
  qed
qed

lemma announce_inv:
  assumes inv: "relay_inv c s log" and t: "rl_tasks s k = Some t" "t_phase t = Announcing a"
  shows "relay_inv c (s\<lparr> rl_tasks := broadcast a ((rl_tasks s)(k \<mapsto> t\<lparr> t_phase := Waiting \<rparr>)) \<rparr>) log"
proof -
  let ?s = "s\<lparr> rl_tasks := broadcast a ((rl_tasks s)(k \<mapsto> t\<lparr> t_phase := Waiting \<rparr>)) \<rparr>"
  have a: "a \<in> set log"
    using relay_invD(1) [OF inv t(1)] t(2) by (simp add: task_backed_def)
  have flight: "in_flight ?s b \<or> b = a" if b: "in_flight s b" for b
  proof (rule disjCI)
    assume "b \<noteq> a"
    obtain j u where u: "rl_tasks s j = Some u" "t_phase u = Announcing b"
      using b by (auto simp: in_flight_def)
    with t \<open>b \<noteq> a\<close> have "j \<noteq> k"
      by auto
    with u show "in_flight ?s b"
      by (auto simp: in_flight_def broadcast_def)
  qed
  have "task_backed c log u' \<and> task_served ?s log u'"
    if u': "rl_tasks ?s j = Some u'" for j u'
  proof -
    obtain u where u: "rl_tasks s j = Some u" and eq: "u' = u\<lparr> t_queue := t_queue u @ [a], t_phase := (if j = k then Waiting else t_phase u) \<rparr>"
      using u' t by (auto simp: broadcast_def split: if_split_asm)
    note task = relay_invD [OF inv u]
    have "task_backed c log u'"
      using task(1) a by (auto simp: task_backed_def eq)
    moreover have "task_served ?s log u'"
      using task(2)
    proof (rule task_served_keep)
      show "t_phase u' = t_phase u \<or> (\<forall>sid. \<not> being_queried u sid) \<and> (\<forall>sid f. t_phase u' \<noteq> Querying sid f)"
        using u t by (auto simp: eq being_queried_def)
      show "sub_served s log u e \<Longrightarrow> sub_served ?s log u' e" for e
        by (erule sub_served_mono) (use flight in \<open>auto simp: eq\<close>)
    qed (simp_all add: eq)
    ultimately show ?thesis ..
  qed
  then show ?thesis
    using inv by (auto simp: relay_inv_def)
qed

lemma receive_inv:
  assumes inv: "relay_inv c s log" and t: "rl_tasks s k = Some t" "t_phase t = Waiting"
    and r: "receive order t = Some t'"
  shows "relay_inv c (s\<lparr> rl_tasks := (rl_tasks s)(k \<mapsto> t') \<rparr>) log"
proof -
  let ?s = "s\<lparr> rl_tasks := (rl_tasks s)(k \<mapsto> t') \<rparr>"
  have flight: "in_flight s b \<Longrightarrow> in_flight ?s b" for b
    by (rule in_flight_update) (use t in auto)
  note task = relay_invD [OF inv t(1)]
  obtain a q where q: "t_queue t = a # q"
    using r by (auto simp: receive_def split: list.split_asm)
  consider (lag) n where "t' = warn (Skipped n) (t\<lparr> t_queue := drop n (t_queue t) \<rparr>)"
    | (peer) "t_peer t" "t' = forward_to_peer a (t\<lparr> t_queue := q \<rparr>)"
    | (live) "\<not> t_peer t" "mset order = mset (t_subs t)" "t' = deliver_live a order (t\<lparr> t_queue := q \<rparr>)"
    using r q by (auto simp: receive_def Let_def split: if_split_asm)
  then have "task_backed c log t' \<and> task_served ?s log t'"
  proof cases
    case lag
    then have "set (t_queue t') \<subseteq> set (t_queue t)"
      by (simp add: set_drop_subset)
    with lag show ?thesis
      using task t(2) by (auto simp: task_backed_def task_served_def)
  next
    case peer
    then show ?thesis
      using task q t(2) by (auto simp: forward_to_peer_def task_backed_def task_served_def forward_backed_def)
  next
    case live
    have order: "set order = set (t_subs t)"
      using live(2) by (rule mset_eq_setD)
    have served: "sub_served ?s log t' e" if "e \<in> set (t_subs t)" "sub_served s log t e" for e
      by (rule sub_served_mono [OF that(2)]) (use that(1) q flight order in \<open>auto simp: live(3) deliver_live_eq\<close>)
    then have "task_served ?s log t'"
      using task(2) by (intro task_served_keep [OF task(2)]) (auto simp: live(3) deliver_live_eq)
    moreover have "task_backed c log t'"
      using task(1) q by (auto simp: live(3) deliver_live_eq task_backed_def frame_backed_def)
    ultimately show ?thesis
      by blast
  qed
  then show ?thesis
    by (intro relay_inv_task [OF inv]) (use flight in auto)
qed

lemma step_inv:
  assumes "relay_inv c s log" and "step c env e s = Some s'"
  shows "\<exists>log'. relay_inv c s' log'"
proof (cases e)
  case (Connect k peer)
  then have "rl_tasks s k = None" "s' = s\<lparr> rl_tasks := (rl_tasks s)(k \<mapsto> new_task peer) \<rparr>"
    using assms(2) by (simp_all split: option.split_asm)
  then show ?thesis
    using connect_inv [OF assms(1)] by blast
next
  case (Disconnect k)
  then obtain t where "rl_tasks s k = Some t" "t_phase t = Waiting" "s' = s\<lparr> rl_tasks := (rl_tasks s)(k := None) \<rparr>"
    using assms(2) by (simp split: option.split_asm if_split_asm)
  then show ?thesis
    using disconnect_inv [OF assms(1)] by blast
next
  case (Frame k bs rate_ok)
  then obtain t where "rl_tasks s k = Some t" "t_phase t = Waiting"
    "s' = s\<lparr> rl_tasks := (rl_tasks s)(k := (if t_peer t then handle_peer_frame c bs t else handle_client_frame c env bs rate_ok t)) \<rparr>"
    using assms(2) by (simp only: step.simps split: option.split_asm if_split_asm) simp_all
  then show ?thesis
    using frame_inv [OF assms(1)] by blast
next
  case (QueryDone k failed)
  then obtain t sid f where "rl_tasks s k = Some t" "t_phase t = Querying sid f"
    "s' = s\<lparr> rl_tasks := (rl_tasks s)(k \<mapsto> finish_req env sid f failed (rl_store s) t) \<rparr>"
    using assms(2) by (simp split: option.split_asm phase.split_asm)
  then show ?thesis
    using query_done_inv [OF assms(1)] by blast
next
  case (InsertDone k now failed)
  then obtain t cd where t: "rl_tasks s k = Some t" "t_phase t = Storing cd"
    using assms(2) by (auto split: option.split_asm phase.split_asm)
  obtain res st' where ins: "(if failed then (Inl SqlFull, rl_store s)
       else insert_record (cd_id cd) (cd_kind cd) (cd_author cd) now (cd_refs cd) (cd_bytes cd) (rl_store s)) = (res, st')"
    by fastforce
  then have "s' = \<lparr> rl_store = st', rl_tasks = (rl_tasks s)(k \<mapsto> finish_insert cd res t) \<rparr>"
    using assms(2) InsertDone t by simp
  then show ?thesis
    using insert_done_inv [OF assms(1) t ins] by simp
next
  case (Announce k)
  then obtain t a where "rl_tasks s k = Some t" "t_phase t = Announcing a"
    "s' = s\<lparr> rl_tasks := broadcast a ((rl_tasks s)(k \<mapsto> t\<lparr> t_phase := Waiting \<rparr>)) \<rparr>"
    using assms(2) by (simp split: option.split_asm phase.split_asm)
  then show ?thesis
    using announce_inv [OF assms(1)] by blast
next
  case (Receive k order)
  then obtain t t' where "rl_tasks s k = Some t" "t_phase t = Waiting" "receive order t = Some t'"
    "s' = s\<lparr> rl_tasks := (rl_tasks s)(k \<mapsto> t') \<rparr>"
    using assms(2) by (auto split: option.split_asm if_split_asm)
  then show ?thesis
    using receive_inv [OF assms(1)] by blast
next
  case Restart
  then show ?thesis
    using assms by (auto simp: relay_inv_def relay_start_def)
qed

lemma reachable_inv: "reachable c env s \<Longrightarrow> \<exists>log. relay_inv c s log"
proof (induction rule: reachable.induct)
  case start
  show ?case
    using relay_inv_start by blast
next
  case (step s e s')
  then show ?case
    using step_inv by blast
qed

section \<open>What the relay keeps and sends\<close>

text \<open>C38. Nothing forged gets in or out. In every state the relay can reach, whatever clients and peers
  sent and however its tasks interleaved, the store holds a log of records each with its own id and an
  increasing sequence number, all of whose bytes parse and verify and whose columns are the record's;
  every record it has sent to a subscriber is in that log under the sequence number it was sent with,
  every record it has forwarded to a peer is in it, and it has answered \<open>OK(true)\<close> only for ids in it.\<close>

theorem relay_genuine:
  assumes "reachable c env s"
  shows "\<exists>log. represents (rl_store s) log \<and> (\<forall>a\<in>set log. genuine c a)
    \<and> (\<forall>k t. rl_tasks s k = Some t \<longrightarrow>
         (\<forall>fr\<in>set (t_out t). frame_backed log fr) \<and> (\<forall>fr\<in>set (t_fwd t). forward_backed log fr))"
  using reachable_inv [OF assms] by (auto simp: relay_inv_def task_backed_def)

section \<open>Delivery\<close>

text \<open>Whether the record in a row matches a filter, read from its bytes.\<close>

definition row_matches :: "sub_filter \<Rightarrow> row \<Rightarrow> bool" where
  "row_matches f r = (case record_from_cbor (row_bytes r) of
       Inl _ \<Rightarrow> False
     | Inr rec \<Rightarrow> matches f (r_kind rec) (author_identity_id rec) (row_id r) (ref_hashes rec) (row_seq r))"

definition row_small_kind :: "row \<Rightarrow> bool" where
  "row_small_kind r = (case record_from_cbor (row_bytes r) of Inl _ \<Rightarrow> True | Inr rec \<Rightarrow> r_kind rec \<le> i64_max)"

lemma row_of_genuine:
  assumes "genuine c a"
  shows "row_matches f (row_of t a) \<longleftrightarrow> accepted_matches f a" "row_small_kind (row_of t a) \<longleftrightarrow> a_kind a \<le> i64_max"
  using assms
  by (auto simp: genuine_def genuine_parts_def row_matches_def row_small_kind_def row_of_def accepted_matches_def)

lemma matching_rows:
  assumes "represents st log" and "\<forall>a\<in>set log. genuine c a"
  shows "length (filter (row_matches f) (st_rows st)) = length (filter (accepted_matches f) log)"
    and "list_all row_small_kind (st_rows st) \<longleftrightarrow> list_all (\<lambda>a. a_kind a \<le> i64_max) log"
proof -
  have "length (filter (row_matches f) rows) = length (filter (accepted_matches f) log)
      \<and> (list_all row_small_kind rows \<longleftrightarrow> list_all (\<lambda>a. a_kind a \<le> i64_max) log)"
    if "list_all2 (\<lambda>r a. r = row_of (row_received_at r) a) rows log" "\<forall>a\<in>set log. genuine c a" for rows
    using that
  proof (induction rule: list_all2_induct)
    case (Cons r rows a log)
    then have "row_matches f r \<longleftrightarrow> accepted_matches f a" "row_small_kind r \<longleftrightarrow> a_kind a \<le> i64_max"
      using row_of_genuine(1) [of c a f "row_received_at r"] row_of_genuine(2) [of c a "row_received_at r"] by auto
    with Cons show ?case
      by simp
  qed simp
  with assms show "length (filter (row_matches f) (st_rows st)) = length (filter (accepted_matches f) log)"
    and "list_all row_small_kind (st_rows st) \<longleftrightarrow> list_all (\<lambda>a. a_kind a \<le> i64_max) log"
    by (auto simp: represents_def)
qed

text \<open>A waiting client task empties its queue by its own steps.\<close>

lemma drain:
  assumes "rl_tasks s k = Some t" "t_phase t = Waiting" "\<not> t_peer t" "length (t_queue t) \<le> ACCEPTED_CHANNEL_CAPACITY"
  shows "\<exists>s' t'. run c env (replicate (length (t_queue t)) (Receive k (t_subs t))) s = Some s' \<and> rl_tasks s' k = Some t'
    \<and> set (t_out t) \<subseteq> set (t_out t')
    \<and> (\<forall>a\<in>set (t_queue t). \<forall>e\<in>set (t_subs t). accepted_matches (snd e) a \<longrightarrow>
          Rec (fst e) (a_seq a) (a_bytes a) \<in> set (t_out t'))"
  using assms
proof (induction "t_queue t" arbitrary: s t)
  case Nil
  then show ?case
    by (auto simp: Nil.hyps [symmetric])
next
  case (Cons a q)
  define u where "u = deliver_live a (t_subs t) (t\<lparr> t_queue := q \<rparr>)"
  have queue: "t_queue t = a # q"
    using Cons.hyps(2) by simp
  have u: "t_queue u = q" "t_subs u = t_subs t" "t_phase u = Waiting" "\<not> t_peer u" "set (t_out t) \<subseteq> set (t_out u)"
    "\<And>e. \<lbrakk>e \<in> set (t_subs t); accepted_matches (snd e) a\<rbrakk> \<Longrightarrow> Rec (fst e) (a_seq a) (a_bytes a) \<in> set (t_out u)"
    using Cons.prems by (auto simp: u_def deliver_live_eq)
  have "step c env (Receive k (t_subs t)) s = Some (s\<lparr> rl_tasks := (rl_tasks s)(k \<mapsto> u) \<rparr>)"
    using Cons.prems queue by (simp add: receive_def u_def)
  moreover obtain s' t' where "run c env (replicate (length q) (Receive k (t_subs t))) (s\<lparr> rl_tasks := (rl_tasks s)(k \<mapsto> u) \<rparr>) = Some s'"
    "rl_tasks s' k = Some t'" "set (t_out u) \<subseteq> set (t_out t')"
    "\<forall>a\<in>set q. \<forall>e\<in>set (t_subs t). accepted_matches (snd e) a \<longrightarrow> Rec (fst e) (a_seq a) (a_bytes a) \<in> set (t_out t')"
    using Cons.hyps(1) [of u "s\<lparr> rl_tasks := (rl_tasks s)(k \<mapsto> u) \<rparr>"] u Cons.prems queue by auto
  ultimately show ?case
    using u(5,6) by (fastforce simp: queue)
qed


end
