(* ===== verification/RelayFramesSpec.thy ===== *)
theory RelayFramesSpec
  imports RelayFrames
begin

text \<open>
  The typed frames are read back from what is written of them, and a relay frame has no second
  spelling.
\<close>

section \<open>Shapes\<close>

lemma as_bytes32_eq: "as_bytes32 v = Some b \<longleftrightarrow> v = FBytes b \<and> length b = 32"
  by (cases v) (auto simp: as_bytes32_def)

lemma as_some_iff:
  "fas_text v = Some s \<longleftrightarrow> v = FText s"
  "fas_bytes v = Some b \<longleftrightarrow> v = FBytes b"
  "as_uint v = Some n \<longleftrightarrow> v = FUint n"
  "fas_array v = Some vs \<longleftrightarrow> v = FArray vs"
  "fas_map v = Some es \<longleftrightarrow> v = FMap es"
  by (cases v; auto)+

lemma read_sub_id_iff: "read_sub_id v = Inr s \<longleftrightarrow> v = FText s \<and> length s \<le> 64"
  by (cases v) (auto simp: read_sub_id_def MAX_SUB_ID_BYTES_def)

lemma length_list: "length xs = Suc 0 \<longleftrightarrow> (\<exists>a. xs = [a])" "length xs = 2 \<longleftrightarrow> (\<exists>a b. xs = [a, b])" "length xs = 3 \<longleftrightarrow> (\<exists>a b c. xs = [a, b, c])"
  "length xs = 4 \<longleftrightarrow> (\<exists>a b c d. xs = [a, b, c, d])"
  by (simp_all add: numeral_eq_Suc length_Suc_conv) blast+

lemma collect_options_iff: "collect_options f xs = Some ys \<longleftrightarrow> list_all2 (\<lambda>x y. f x = Some y) xs ys"
  by (induction xs arbitrary: ys) (auto simp: list_all2_Cons1 bind_eq_Some_conv split: option.splits)

lemma frame_parts_iff: "frame_parts bs = Inr (arr, tag) \<longleftrightarrow> (\<exists>rest. arr = FText tag # rest \<and> decode_value_complete bs = Inr (FArray arr))"
  by (auto simp: frame_parts_def result_simps as_some_iff split: list.splits)

section \<open>Frames without maps\<close>

text \<open>\<open>flat v\<close>: a scalar or an array of scalars; it is canonical as it stands.\<close>

fun scalar :: "fval \<Rightarrow> bool" where
  "scalar (FText s) = utf8_valid s"
| "scalar (FArray vs) = False"
| "scalar (FMap es) = False"
| "scalar _ = True"

lemma scalar_kval: "scalar v \<Longrightarrow> canonical (kval v) \<and> texts_valid (kval v) \<and> vdepth (kval v) = 0 \<and> into_canonical (kval v) = kval v"
  by (cases v) simp_all

lemma flat_kval:
  assumes "list_all scalar vs"
  shows "canonical (kval (FArray vs))" "texts_valid (kval (FArray vs))" "vdepth (kval (FArray vs)) \<le> 1"
  using assms by (auto simp: list_all_iff scalar_kval vdepth_Array_le)

lemma flat_frame:
  assumes "list_all scalar vs" and "addressable (encode_value_to_vec (FArray vs))"
  shows "decode_value_complete (encode_value_to_vec (FArray vs)) = Inr (FArray vs)"
proof -
  note flat = flat_kval [OF assms(1)]
  have b: "encode_canonical (kval (FArray vs)) = Inr (keybuf (kval (FArray vs)))"
    by (rule canonical_encodes [OF flat(1)])
  then have "encode_value_to_vec (FArray vs) = keybuf (kval (FArray vs))"
    by (rule encode_value_to_vec_kernel)
  then show ?thesis
    using frame_decode_encode(2) [OF b, of "FArray vs"] flat assms(2) into_canonical_id [OF flat(1)]
    by (simp add: decodable_def max_depth_def)
qed

lemma flat_frame_strict:
  assumes "decode_value_complete bs = Inr (FArray vs)" and "vdepth (kval (FArray vs)) \<le> 64"
  shows "encode_value_to_vec (FArray vs) = bs" and "texts_valid (kval (FArray vs))"
proof -
  have "decode_canonical bs = Inr (kval (FArray vs))"
    by (rule frame_decodes_kernel [OF assms])
  note d = decode_canonicalD [OF this]
  show "texts_valid (kval (FArray vs))"
    by (rule d(2))
  have "encode_canonical (kval (FArray vs)) = Inr bs"
    using canonical_encodes [OF d(1)] d(4) by simp
  then show "encode_value_to_vec (FArray vs) = bs"
    by (rule encode_value_to_vec_kernel)
qed

section \<open>Relay frames\<close>

fun wf_relay :: "relay_frame \<Rightarrow> bool" where
  "wf_relay (Rec sub seq rec) \<longleftrightarrow> utf8_valid sub \<and> length sub \<le> 64"
| "wf_relay (Eose sub) \<longleftrightarrow> utf8_valid sub \<and> length sub \<le> 64"
| "wf_relay (FOk i accepted reason) \<longleftrightarrow> length i = 32 \<and> utf8_valid reason"
| "wf_relay (Closed sub reason) \<longleftrightarrow> utf8_valid sub \<and> length sub \<le> 64 \<and> utf8_valid reason"

lemma frame_tags_valid: "utf8_valid (str ''REC'')" "utf8_valid (str ''EOSE'')" "utf8_valid (str ''OK'')" "utf8_valid (str ''CLOSED'')"
  "utf8_valid (str ''REQ'')" "utf8_valid (str ''CLOSE'')" "utf8_valid (str ''PUB'')"
  by code_simp+

lemma relay_value_flat: "wf_relay f \<Longrightarrow> \<exists>vs. relay_value f = FArray vs \<and> list_all scalar vs"
  by (cases f) (simp_all add: frame_tags_valid)

definition sizes_ok :: "relay_frame \<Rightarrow> bool" where
  "sizes_ok f = (case f of Rec sub _ _ \<Rightarrow> length sub \<le> 64 | Eose sub \<Rightarrow> length sub \<le> 64
     | FOk i _ _ \<Rightarrow> length i = 32 | Closed sub _ \<Rightarrow> length sub \<le> 64)"

lemma bool_case_iff: "(case v of FBool b \<Rightarrow> Inr b | _ \<Rightarrow> Inl e) = Inr b \<longleftrightarrow> v = FBool b"
  by (cases v) simp_all

lemma relay_decode_frame: "\<lbrakk>decode_value_complete bs = Inr (relay_value f); sizes_ok f\<rbrakk> \<Longrightarrow> relay_decode bs = Inr f"
  by (cases f) (simp_all add: relay_decode_def frame_parts_def sizes_ok_def read_sub_id_def MAX_SUB_ID_BYTES_def as_bytes32_def)

lemma relay_decodeD:
  assumes "relay_decode bs = Inr f"
  shows "decode_value_complete bs = Inr (relay_value f)" and "sizes_ok f"
proof -
  obtain tag rest where v: "decode_value_complete bs = Inr (FArray (FText tag # rest))"
    and parts: "frame_parts bs = Inr (FText tag # rest, tag)"
    using assms by (auto simp: relay_decode_def result_simps frame_parts_iff)
  note run = assms [unfolded relay_decode_def parts and_then_simps prod.case]
  consider (rec) "tag = str ''REC''" | (eose) "tag = str ''EOSE''" | (ok) "tag = str ''OK''" | (closed) "tag = str ''CLOSED''"
    using run by (auto split: if_split_asm)
  then have "FArray (FText tag # rest) = relay_value f \<and> sizes_ok f"
  proof cases
    case rec
    then show ?thesis
      using run by (auto simp: length_list result_simps read_sub_id_iff as_some_iff sizes_ok_def split: if_split_asm)
  next
    case eose
    then show ?thesis
      using run by (auto simp: length_list result_simps read_sub_id_iff sizes_ok_def split: if_split_asm)
  next
    case ok
    then show ?thesis
      using run by (auto simp: length_list result_simps bool_case_iff as_bytes32_eq as_some_iff sizes_ok_def split: if_split_asm)
  next
    case closed
    then show ?thesis
      using run by (auto simp: length_list result_simps read_sub_id_iff as_some_iff sizes_ok_def split: if_split_asm)
  qed
  then show "decode_value_complete bs = Inr (relay_value f)" and "sizes_ok f"
    using v by simp_all
qed

lemma relay_frame_exact:
  assumes "addressable bs"
  shows "relay_decode bs = Inr f \<longleftrightarrow> wf_relay f \<and> relay_encode f = bs"
proof
  assume f: "wf_relay f \<and> relay_encode f = bs"
  then obtain vs where vs: "relay_value f = FArray vs" "list_all scalar vs"
    using relay_value_flat by blast
  then have "decode_value_complete bs = Inr (relay_value f)"
    using flat_frame [OF vs(2)] f assms by (simp add: relay_encode_def)
  then show "relay_decode bs = Inr f"
    using f by (intro relay_decode_frame) (cases f; simp add: sizes_ok_def)+
next
  assume "relay_decode bs = Inr f"
  note v = relay_decodeD [OF this]
  obtain vs where vs: "relay_value f = FArray vs"
    by (cases f) simp_all
  have "vdepth (kval (relay_value f)) \<le> 1"
    by (cases f) (simp_all add: vdepth.simps)
  then have "encode_value_to_vec (relay_value f) = bs" "texts_valid (kval (relay_value f))"
    using flat_frame_strict [of bs vs] v(1) vs by simp_all
  then show "wf_relay f \<and> relay_encode f = bs"
    using v(2) by (cases f) (simp_all add: sizes_ok_def relay_encode_def)
qed

section \<open>Filters\<close>

definition wf_filter :: "sub_filter \<Rightarrow> bool" where
  "wf_filter f \<longleftrightarrow> (\<forall>hs\<in>set_option (f_authors f) \<union> set_option (f_refs f) \<union> set_option (f_ids f). \<forall>h\<in>set hs. length h = 32)"

definition filter_canonical :: "sub_filter \<Rightarrow> (fval \<times> fval) list" where
  "filter_canonical f =
     (case f_ids f of None \<Rightarrow> [] | Some hs \<Rightarrow> [(FText (str ''ids''), bytes_values hs)])
       @ (case f_refs f of None \<Rightarrow> [] | Some hs \<Rightarrow> [(FText (str ''refs''), bytes_values hs)])
       @ (case f_kinds f of None \<Rightarrow> [] | Some ks \<Rightarrow> [(FText (str ''kinds''), FArray (map FUint ks))])
       @ (case f_limit f of None \<Rightarrow> [] | Some n \<Rightarrow> [(FText (str ''limit''), FUint n)])
       @ (case f_since f of None \<Rightarrow> [] | Some n \<Rightarrow> [(FText (str ''since''), FUint n)])
       @ (case f_authors f of None \<Rightarrow> [] | Some hs \<Rightarrow> [(FText (str ''authors''), bytes_values hs)])"

lemma parse_lists:
  "parse_uint_list (FArray (map FUint ns)) = Some ns"
  "(\<forall>h\<in>set hs. length h = 32) \<Longrightarrow> parse_bytes32_list (bytes_values hs) = Some hs"
  by (auto simp: parse_uint_list_def parse_bytes32_list_def bytes_values_def collect_options_iff list_all2_map1
      list_all2_same as_bytes32_eq)

lemma filter_entry_simps:
  "filter_entry f (FText (str ''ids''), v) = and_then (ok_or (parse_bytes32_list v) BadIds) (\<lambda>x. Inr (f\<lparr>f_ids := Some x\<rparr>))"
  "filter_entry f (FText (str ''refs''), v) = and_then (ok_or (parse_bytes32_list v) BadRefs) (\<lambda>x. Inr (f\<lparr>f_refs := Some x\<rparr>))"
  "filter_entry f (FText (str ''kinds''), v) = and_then (ok_or (parse_uint_list v) BadKinds) (\<lambda>x. Inr (f\<lparr>f_kinds := Some x\<rparr>))"
  "filter_entry f (FText (str ''limit''), v) = and_then (ok_or (as_uint v) BadLimit) (\<lambda>x. Inr (f\<lparr>f_limit := Some x\<rparr>))"
  "filter_entry f (FText (str ''since''), v) = and_then (ok_or (as_uint v) BadSince) (\<lambda>x. Inr (f\<lparr>f_since := Some x\<rparr>))"
  "filter_entry f (FText (str ''authors''), v) = and_then (ok_or (parse_bytes32_list v) BadAuthors) (\<lambda>x. Inr (f\<lparr>f_authors := Some x\<rparr>))"
  by (simp_all add: filter_entry_def)

lemma filter_from_canonical: "wf_filter f \<Longrightarrow> filter_from_value (FMap (filter_canonical f)) = Inr f"
  by (cases f)
    (auto simp: filter_from_value_def filter_canonical_def filter_default_def wf_filter_def filter_entry_simps parse_lists
      split: option.split)

text \<open>The encoded keys of a filter, in order.\<close>

lemma key_bytes:
  "keybuf (Text (str ''ids'')) = [0x63, 0x69, 0x64, 0x73]"
  "keybuf (Text (str ''refs'')) = [0x64, 0x72, 0x65, 0x66, 0x73]"
  "keybuf (Text (str ''kinds'')) = [0x65, 0x6B, 0x69, 0x6E, 0x64, 0x73]"
  "keybuf (Text (str ''limit'')) = [0x65, 0x6C, 0x69, 0x6D, 0x69, 0x74]"
  "keybuf (Text (str ''since'')) = [0x65, 0x73, 0x69, 0x6E, 0x63, 0x65]"
  "keybuf (Text (str ''authors'')) = [0x67, 0x61, 0x75, 0x74, 0x68, 0x6F, 0x72, 0x73]"
  by code_simp+


lemma keys_ascend:
  "([0x63, 0x69, 0x64, 0x73] :: bytes) < 0x64 # a" "([0x63, 0x69, 0x64, 0x73] :: bytes) < 0x65 # a"
  "([0x63, 0x69, 0x64, 0x73] :: bytes) < 0x67 # a"
  "([0x64, 0x72, 0x65, 0x66, 0x73] :: bytes) < 0x65 # a" "([0x64, 0x72, 0x65, 0x66, 0x73] :: bytes) < 0x67 # a"
  "(0x65 # b :: bytes) < 0x67 # a"
  by simp_all

definition kpairs :: "(fval \<times> fval) list \<Rightarrow> (val \<times> val) list" where
  "kpairs es = map (\<lambda>e. (kval (fst e), kval (snd e))) es"

lemma kpairs_simps [simp]: "kpairs [] = []" "kpairs (e # es) = (kval (fst e), kval (snd e)) # kpairs es"
  "kpairs (es @ fs) = kpairs es @ kpairs fs"
  by (simp_all add: kpairs_def)

lemma kval_FMap: "kval (FMap es) = Map (kpairs es)"
  by (simp add: kpairs_def)

lemma list_value_kval:
  "canonical (kval (bytes_values hs))" "texts_valid (kval (bytes_values hs))" "into_canonical (kval (bytes_values hs)) = kval (bytes_values hs)"
  "canonical (kval (FArray (map FUint ns)))" "texts_valid (kval (FArray (map FUint ns)))"
  "into_canonical (kval (FArray (map FUint ns))) = kval (FArray (map FUint ns))"
  by (simp_all add: bytes_values_def list_all_iff)

lemma filter_sorted:
  "sorted_wrt (<) (map (\<lambda>e. keybuf (fst e)) (kpairs (filter_canonical f)))"
  by (simp add: filter_canonical_def key_bytes keybuf_simps(4) del: keybuf_simps split: option.split)

lemma sort_key_ascending:
  assumes "mset xs = mset ys" and "sorted_wrt (<) (map k ys)"
  shows "sort_key k xs = ys"
proof -
  have "distinct (map k ys)" and sorted: "sorted (map k ys)"
    using assms(2) by (simp_all add: strict_sorted_iff)
  then have "inj_on k (set xs)"
    using mset_eq_setD [OF assms(1)] by (simp add: distinct_map)
  then show ?thesis
    using assms(1) sorted by (intro sort_key_inj_key_eq)
qed

lemma filter_value_kval:
  "into_canonical (kval (filter_to_value f)) = kval (FMap (filter_canonical f))"
  "canonical (kval (FMap (filter_canonical f)))"
  "texts_valid (kval (FMap (filter_canonical f)))"
  "vdepth (kval (FMap (filter_canonical f))) \<le> 2"
proof -
  obtain es where es: "filter_to_value f = FMap es"
    by (simp add: filter_to_value_def)
  have "mset es = mset (filter_canonical f)"
    using es by (auto simp: filter_to_value_def filter_canonical_def split: option.split)
  then have "mset (kpairs es) = mset (kpairs (filter_canonical f))"
    by (simp add: kpairs_def mset_map)
  then have sorted: "sort_key (\<lambda>e. keybuf (fst e)) (kpairs es) = kpairs (filter_canonical f)"
    using filter_sorted by (rule sort_key_ascending)
  have "canon_entry e = e" if "e \<in> set (kpairs es)" for e
    using that es list_value_kval
    by (auto simp: filter_to_value_def kpairs_def canon_entry_def split: option.split_asm)
  then have "map canon_entry (kpairs es) = kpairs es"
    by (rule map_idI)
  with sorted show "into_canonical (kval (filter_to_value f)) = kval (FMap (filter_canonical f))"
    by (simp only: es kval_FMap into_canonical_Map)
  have entry: "canonical (kval (fst e)) \<and> canonical (kval (snd e)) \<and> texts_valid (kval (fst e)) \<and> texts_valid (kval (snd e))
      \<and> vdepth (kval (fst e)) \<le> 1 \<and> vdepth (kval (snd e)) \<le> 1" if "e \<in> set (filter_canonical f)" for e
  proof -
    have "utf8_valid (str ''ids'')" "utf8_valid (str ''refs'')" "utf8_valid (str ''kinds'')" "utf8_valid (str ''limit'')"
      "utf8_valid (str ''since'')" "utf8_valid (str ''authors'')"
      by code_simp+
    then show ?thesis
      using that list_value_kval
      by (auto simp: filter_canonical_def bytes_values_def vdepth_Array_le split: option.split_asm)
  qed
  show "canonical (kval (FMap (filter_canonical f)))"
    using entry filter_sorted [of f] by (simp add: list_all_iff kpairs_def comp_def)
  show "texts_valid (kval (FMap (filter_canonical f)))"
    using entry by (simp add: list_all_iff)
  show "vdepth (kval (FMap (filter_canonical f))) \<le> 2"
    using entry by (fastforce simp: vdepth_Map_le)
qed

section \<open>Client frames\<close>

fun wf_client :: "client_frame \<Rightarrow> bool" where
  "wf_client (Req sub flt) \<longleftrightarrow> utf8_valid sub \<and> length sub \<le> 64 \<and> wf_filter flt"
| "wf_client (Close sub) \<longleftrightarrow> utf8_valid sub \<and> length sub \<le> 64"
| "wf_client (Pub rec nonce) \<longleftrightarrow> True"

lemma req_frame:
  assumes "utf8_valid sub" and "addressable (client_encode (Req sub flt))"
  shows "decode_value_complete (client_encode (Req sub flt))
    = Inr (FArray [FText (str ''REQ''), FText sub, FMap (filter_canonical flt)])"
proof -
  define v where "v = client_value (Req sub flt)"
  define w where "w = FArray [FText (str ''REQ''), FText sub, FMap (filter_canonical flt)]"
  have w: "kval w = into_canonical (kval v)"
    using filter_value_kval(1) by (simp add: v_def w_def)
  have canon: "canonical (kval w)"
    using filter_value_kval(2) by (simp add: w_def)
  have b: "encode_canonical (kval v) = Inr (keybuf (kval w))"
    using canonical_encodes [OF canon] encode_into_canonical [of "kval v"] by (simp only: w)
  have "vdepth (kval w) \<le> 3"
    using filter_value_kval(4) [of flt] by (auto simp: w_def vdepth_Array_le)
  then have "vdepth (kval v) \<le> 3"
    by (simp only: w vdepth_into_canonical)
  moreover have "texts_valid (kval w)"
    using assms(1) frame_tags_valid filter_value_kval(3) by (simp add: w_def)
  then have "texts_valid (kval v)"
    by (simp only: w texts_valid_into_canonical)
  ultimately have "decodable (kval v)"
    by (simp add: decodable_def max_depth_def)
  moreover have "client_encode (Req sub flt) = keybuf (kval w)"
    using encode_value_to_vec_kernel [OF b] by (simp add: client_encode_def v_def)
  ultimately show ?thesis
    using frame_decode_encode(2) [OF b _ _ w] assms(2) by (simp add: w_def)
qed

lemma client_frame_read_back:
  assumes "wf_client f" and "addressable (client_encode f)"
  shows "client_decode (client_encode f) = Inr f"
proof (cases f)
  case (Req sub flt)
  then show ?thesis
    using assms req_frame [of sub flt]
    by (simp add: client_decode_def frame_parts_def read_sub_id_def MAX_SUB_ID_BYTES_def filter_from_canonical)
next
  case (Close sub)
  then have "list_all scalar [FText (str ''CLOSE''), FText sub]"
    using assms(1) frame_tags_valid by simp
  from flat_frame [OF this] show ?thesis
    using Close assms
    by (simp add: client_encode_def client_decode_def frame_parts_def read_sub_id_def MAX_SUB_ID_BYTES_def)
next
  case (Pub rec nonce)
  then have "list_all scalar [FText (str ''PUB''), FBytes rec, (case nonce of Some n \<Rightarrow> FUint n | None \<Rightarrow> FNull)]"
    using frame_tags_valid by (simp split: option.split)
  from flat_frame [OF this] show ?thesis
    using Pub assms by (simp add: client_encode_def client_decode_def frame_parts_def split: option.split)
qed

text \<open>C36. Frames are read back as they were written: a well-formed client frame, whatever order its
  filter's entries were built in, and a relay frame, where moreover nothing else is accepted: the bytes
  that decode to a relay frame are exactly its encoding, and the frame is well-formed (subscription ids
  of at most 64 bytes, 32-byte ids, UTF-8 text).\<close>

theorem frames_round_trip:
  "(wf_client f \<and> addressable (client_encode f) \<longrightarrow> client_decode (client_encode f) = Inr f)
   \<and> (addressable bs \<longrightarrow> (relay_decode bs = Inr g \<longleftrightarrow> wf_relay g \<and> relay_encode g = bs))"
  using client_frame_read_back relay_frame_exact by blast

lemma frames_round_trip_witness:
  "client_decode (client_encode (Req (str ''s'') (filter_default\<lparr>f_since := Some 7, f_ids := Some []\<rparr>)))
     = Inr (Req (str ''s'') (filter_default\<lparr>f_since := Some 7, f_ids := Some []\<rparr>))
   \<and> relay_decode [0x82, 0x64, 0x45, 0x4F, 0x53, 0x45, 0x61, 0x73] = Inr (Eose (str ''s''))"
proof -
  let ?f = "Req (str ''s'') (filter_default\<lparr>f_since := Some 7, f_ids := Some []\<rparr>)"
  have "wf_client ?f" and "addressable (client_encode ?f)"
    by code_simp+
  moreover have "wf_relay (Eose (str ''s''))" and "addressable [0x82, 0x64, 0x45, 0x4F, 0x53, 0x45, 0x61, 0x73]"
    and "relay_encode (Eose (str ''s'')) = [0x82, 0x64, 0x45, 0x4F, 0x53, 0x45, 0x61, 0x73]"
    by code_simp+
  ultimately show ?thesis
    using frames_round_trip [of ?f "[0x82, 0x64, 0x45, 0x4F, 0x53, 0x45, 0x61, 0x73]" "Eose (str ''s'')"] by blast
qed

end
