(* ===== verification/RelayExamples.thy ===== *)
theory RelayExamples
  imports RelaySpec RelayFramesSpec
begin

text \<open>
  A run of the relay on concrete records, for the witnesses, and a run in which a client that resumes
  after the last sequence number it saw never gets a record.
\<close>

definition demo_record :: "i64 \<Rightarrow> bytes \<Rightarrow> erecord" where
  "demo_record at sg =
     \<lparr> r_kind = 32, r_author = \<lparr> author_id = IdentityId (replicate 32 1), author_key = replicate 32 7 \<rparr>,
       r_created_at = at, r_refs = [], r_body = Map [], r_sig_alg = SIG_ALG_ED25519, r_sig = sg \<rparr>"

definition demo_id :: "i64 \<Rightarrow> bytes" where
  "demo_id at = toy_hash (keybuf (record_to_value (demo_record at []) False))"

definition demo :: "i64 \<Rightarrow> erecord" where
  "demo at = demo_record at (replicate 32 7 @ toy_hash (RECORD_SIG_PREFIX @ demo_id at))"

definition demo_wire :: "i64 \<Rightarrow> bytes" where
  "demo_wire at = keybuf (record_to_value (demo at) True)"

lemma demo_facts:
  "record_from_cbor (demo_wire 1) = Inr (demo 1)" "record_from_cbor (demo_wire 2) = Inr (demo 2)"
  "record_id_of toy_crypto (demo 1) = Inr (RecordId (demo_id 1))" "record_id_of toy_crypto (demo 2) = Inr (RecordId (demo_id 2))"
  "verify toy_crypto (demo 1) = Inr ()" "verify toy_crypto (demo 2) = Inr ()"
  "demo_id 1 \<noteq> demo_id 2"
  "addressable (client_encode (Pub (demo_wire 1) None))" "addressable (client_encode (Pub (demo_wire 2) None))"
  by code_simp+

definition demo_env :: relay_env where
  "demo_env =
     \<lparr> env_config = relay_config_default\<lparr> cfg_rate := \<lparr> records_per_minute_per_key = 0 \<rparr> \<rparr>, env_max_vars = 32766 \<rparr>"

definition demo_candidate :: "i64 \<Rightarrow> candidate" where
  "demo_candidate at = candidate_of (demo_id at) (demo at) (demo_wire at)"

definition demo_accepted :: "i64 \<Rightarrow> u64 \<Rightarrow> accepted" where
  "demo_accepted at seq = accepted_from (demo_candidate at) seq"

definition pub_bytes :: "i64 \<Rightarrow> bytes" where
  "pub_bytes at = client_encode (Pub (demo_wire at) None)"

definition req_bytes :: "sub_filter \<Rightarrow> bytes" where
  "req_bytes f = client_encode (Req (str ''s'') f)"

definition since2 :: sub_filter where
  "since2 = filter_default\<lparr> f_since := Some 2 \<rparr>"

lemma demo_frames:
  "client_decode (pub_bytes 1) = Inr (Pub (demo_wire 1) None)"
  "client_decode (pub_bytes 2) = Inr (Pub (demo_wire 2) None)"
  "client_decode (req_bytes filter_default) = Inr (Req (str ''s'') filter_default)"
  "client_decode (req_bytes since2) = Inr (Req (str ''s'') since2)"
proof -
  have "utf8_valid (str ''s'')" and "addressable (client_encode (Req (str ''s'') filter_default))"
    and "addressable (client_encode (Req (str ''s'') since2))"
    by code_simp+
  moreover have "wf_filter filter_default" "wf_filter since2"
    by (simp_all add: wf_filter_def filter_default_def since2_def)
  ultimately show "client_decode (pub_bytes 1) = Inr (Pub (demo_wire 1) None)"
    "client_decode (pub_bytes 2) = Inr (Pub (demo_wire 2) None)"
    "client_decode (req_bytes filter_default) = Inr (Req (str ''s'') filter_default)"
    "client_decode (req_bytes since2) = Inr (Req (str ''s'') since2)"
    using demo_facts(8,9) by (simp_all add: pub_bytes_def req_bytes_def client_frame_read_back)
qed

lemma demo_pub:
  "handle_pub toy_crypto demo_env (demo_wire 1) None rate_ok = Inr (Inr (demo_candidate 1))"
  "handle_pub toy_crypto demo_env (demo_wire 2) None rate_ok = Inr (Inr (demo_candidate 2))"
  using demo_facts by (simp_all add: handle_pub_def demo_env_def relay_config_default_def demo_candidate_def pow_check_def)

lemma demo_ids: "cd_id (demo_candidate 1) \<noteq> cd_id (demo_candidate 2)"
  using demo_facts(7) by (simp add: demo_candidate_def candidate_of_def)

lemmas run_simps = demo_frames demo_pub handle_client_frame_def new_task_def relay_start_def
  finish_insert_def reply_def send_frame_def sub_insert_def sub_remove_def broadcast_def

text \<open>Client 1 subscribes; client 0 publishes; the record is stored and not yet broadcast.\<close>

definition demo_events :: "event list" where
  "demo_events =
     [Connect 0 False, Connect 1 False, Frame 1 (req_bytes filter_default) True, QueryDone 1 False,
      Frame 0 (pub_bytes 1) True, InsertDone 0 100 False]"

definition subscriber :: "bytes \<times> sub_filter \<Rightarrow> relay_frame list \<Rightarrow> accepted list \<Rightarrow> task" where
  "subscriber e out q =
     \<lparr> t_peer = False, t_subs = [e], t_queue = q, t_phase = Waiting, t_out = out, t_fwd = [], t_log = [] \<rparr>"

definition publisher :: "bytes \<Rightarrow> phase \<Rightarrow> task" where
  "publisher i ph =
     \<lparr> t_peer = False, t_subs = [], t_queue = [], t_phase = ph, t_out = [FOk i True []], t_fwd = [], t_log = [] \<rparr>"

definition demo_store :: store where
  "demo_store = snd (insert_record (demo_id 1) 32 (replicate 32 1) 100 [] (demo_wire 1) empty_store)"

definition demo_state :: relay where
  "demo_state =
     \<lparr> rl_store = demo_store,
       rl_tasks = [0 \<mapsto> publisher (demo_id 1) (Announcing (demo_accepted 1 1)),
                   1 \<mapsto> subscriber (str ''s'', filter_default) [Eose (str ''s'')] []] \<rparr>"

lemma query_empty: "query 32766 f d \<lparr> st_rows = [], st_refs = [], st_sequence = n \<rparr> = Inr [] \<or> 32766 < bound_count f"
  by (auto simp: query_def query_rows_def)

lemma demo_counts: "bound_count filter_default = 1" "bound_count since2 = 2"
  by (simp_all add: bound_count_def filter_default_def since2_def)

definition gap_store :: store where
  "gap_store = snd (insert_record (demo_id 2) 32 (replicate 32 1) 100 [] (demo_wire 2) demo_store)"

lemma demo_cand:
  "cd_id (demo_candidate 1) = demo_id 1" "cd_kind (demo_candidate 1) = 32"
  "cd_author (demo_candidate 1) = replicate 32 1" "cd_refs (demo_candidate 1) = []" "cd_bytes (demo_candidate 1) = demo_wire 1"
  "cd_id (demo_candidate 2) = demo_id 2" "cd_kind (demo_candidate 2) = 32"
  "cd_author (demo_candidate 2) = replicate 32 1" "cd_refs (demo_candidate 2) = []" "cd_bytes (demo_candidate 2) = demo_wire 2"
  by (simp_all add: demo_candidate_def candidate_of_def demo_def demo_record_def author_identity_id_def ref_hashes_def)

lemma demo_insertions:
  "insert_record (demo_id 1) 32 (replicate 32 1) 100 [] (demo_wire 1) empty_store = (Inr (Inserted 1), demo_store)"
  "insert_record (demo_id 2) 32 (replicate 32 1) 100 [] (demo_wire 2) demo_store = (Inr (Inserted 2), gap_store)"
  using demo_facts(7) by (simp_all add: gap_store_def demo_store_def insert_record_def empty_store_def i64_max_def)

lemma demo_backfills:
  "finish_req demo_env sid filter_default False empty_store t = send_frame (Eose sid) (t\<lparr> t_phase := Waiting \<rparr>)"
  "finish_req demo_env sid since2 False gap_store t = send_frame (Eose sid) (t\<lparr> t_phase := Waiting \<rparr>)"
proof -
  have "query (env_max_vars demo_env) filter_default DEFAULT_BACKFILL_LIMIT empty_store = Inr []"
    using query_empty [of filter_default DEFAULT_BACKFILL_LIMIT 0] demo_counts by (simp add: demo_env_def empty_store_def)
  then show "finish_req demo_env sid filter_default False empty_store t = send_frame (Eose sid) (t\<lparr> t_phase := Waiting \<rparr>)"
    by (simp add: finish_req_def)
  have "filter (where_clause since2 gap_store) (st_rows gap_store) = []"
    using demo_facts(7)
    by (simp add: gap_store_def demo_store_def insert_record_def empty_store_def i64_max_def where_clause_def since2_def
        u64_to_sql_def)
  then have "query (env_max_vars demo_env) since2 DEFAULT_BACKFILL_LIMIT gap_store = Inr []"
    using demo_counts by (simp add: query_def query_rows_def empty_condition_def since2_def filter_default_def demo_env_def)
  then show "finish_req demo_env sid since2 False gap_store t = send_frame (Eose sid) (t\<lparr> t_phase := Waiting \<rparr>)"
    by (simp add: finish_req_def)
qed

lemma demo_run: "run toy_crypto demo_env demo_events (relay_start empty_store) = Some demo_state"
  by (simp add: demo_events_def run_simps demo_cand demo_insertions demo_backfills demo_state_def publisher_def
      subscriber_def demo_accepted_def fun_eq_iff)

lemma reachable_run: "\<lbrakk>reachable c env s; run c env es s = Some s'\<rbrakk> \<Longrightarrow> reachable c env s'"
  by (induction es arbitrary: s) (auto simp: bind_eq_Some_conv simp del: step.simps intro: reachable.step)

lemma demo_reachable: "reachable toy_crypto demo_env demo_state"
  using reachable.start demo_run by (rule reachable_run)

lemma relay_genuine_witness:
  "\<exists>log. represents demo_store log \<and> (\<forall>a\<in>set log. genuine toy_crypto a)"
  using relay_genuine [OF demo_reachable] by (auto simp: demo_state_def)


text \<open>
  Live delivery does not follow the sequence numbers: a record is broadcast by the task that stored it,
  after its \<open>OK\<close> was sent.  Here client 2 is sent number 2 before number 1, leaves, and comes back
  asking for what follows number 2; number 1 is stored and matches its filter but for \<open>since\<close>, and
  is never sent to it.
\<close>

definition gap_events :: "event list" where
  "gap_events =
     [Connect 0 False, Connect 1 False, Connect 2 False, Frame 2 (req_bytes filter_default) True, QueryDone 2 False,
      Frame 0 (pub_bytes 1) True, Frame 1 (pub_bytes 2) True, InsertDone 0 100 False, InsertDone 1 100 False,
      Announce 1, Receive 2 [(str ''s'', filter_default)]]"

definition resume_events :: "event list" where
  "resume_events =
     [Disconnect 2, Connect 3 False, Frame 3 (req_bytes since2) True, QueryDone 3 False, Announce 0,
      Receive 3 [(str ''s'', since2)]]"

definition gap_state :: relay where
  "gap_state =
     \<lparr> rl_store = gap_store,
       rl_tasks = [0 \<mapsto> publisher (demo_id 1) (Announcing (demo_accepted 1 1))\<lparr> t_queue := [demo_accepted 2 2] \<rparr>,
                   1 \<mapsto> publisher (demo_id 2) Waiting\<lparr> t_queue := [demo_accepted 2 2] \<rparr>,
                   2 \<mapsto> subscriber (str ''s'', filter_default) [Eose (str ''s''), Rec (str ''s'') 2 (demo_wire 2)] []] \<rparr>"

lemma demo_live:
  "accepted_matches filter_default a" "a_seq (demo_accepted at n) = n"
  "a_bytes (demo_accepted at n) = cd_bytes (demo_candidate at)"
  "accepted_matches since2 (demo_accepted at 1) = False"
  by (simp_all add: accepted_matches_def matches_def filter_default_def since2_def demo_accepted_def accepted_from_def
      accepted_of_def)

lemma gap_run: "run toy_crypto demo_env gap_events (relay_start empty_store) = Some gap_state"
  by (simp add: gap_events_def run_simps demo_cand demo_insertions demo_backfills gap_state_def publisher_def
      subscriber_def demo_accepted_def [symmetric] fun_eq_iff receive_def ACCEPTED_CHANNEL_CAPACITY_def deliver_live_def demo_live)

lemma gap_rows: "\<exists>r\<in>set (st_rows gap_store). row_seq r = 1 \<and> row_bytes r = demo_wire 1"
  using demo_facts(7) by (simp add: gap_store_def demo_store_def insert_record_def empty_store_def i64_max_def)

lemma resume_gap:
  "\<exists>s t. run toy_crypto demo_env resume_events gap_state = Some s \<and> rl_tasks s 3 = Some t
     \<and> t_out t = [Eose (str ''s'')] \<and> t_queue t = [] \<and> (\<forall>a. \<not> in_flight s a)
     \<and> (\<exists>r\<in>set (st_rows (rl_store s)). row_seq r = 1 \<and> row_bytes r = demo_wire 1)"
  using gap_rows
  by (simp add: resume_events_def run_simps demo_backfills gap_state_def publisher_def
      subscriber_def receive_def ACCEPTED_CHANNEL_CAPACITY_def deliver_live_def demo_live in_flight_def)

end
