(* ===== verification/RelayBlobs.thy ===== *)
theory RelayBlobs
  imports RelayConfig RelayFrames Blob Json
begin

text \<open>
  The relay's blob sidecar (\<open>crates/evermesh-relay/src/blobs.rs\<close>): upload, single-range download and
  chunk proofs over a content-addressed directory.

  The file system maps a path (its components) to a file's bytes.  Whether an operation on it fails
  before the final rename is an argument of the upload; a request's body is the list of what its
  stream yields, \<open>None\<close> for a failed read; a header is what \<open>get\<close> and \<open>to_str\<close> give.  A response has the
  status, the headers this code sets, and the body.
\<close>

type_synonym files = "bytes list \<Rightarrow> bytes option"

record response =
  rs_status :: nat
  rs_headers :: "(string \<times> bytes) list"
  rs_body :: bytes

definition text_response :: "nat \<Rightarrow> string \<Rightarrow> response" where
  "text_response status msg = \<lparr> rs_status = status, rs_headers = [], rs_body = str msg \<rparr>"

section \<open>Names\<close>

definition blob_path :: "bytes \<Rightarrow> blob_id \<Rightarrow> bytes list" where
  "blob_path dir i = (let hex = id_to_hex (blob_id_bytes i) in [dir, slice hex 0 2, slice hex 2 4, hex])"

definition parse_blob_id :: "bytes \<Rightarrow> blob_id option" where
  "parse_blob_id s = (case blob_from_uri s of Some i \<Rightarrow> Some i | None \<Rightarrow> map_option BlobId (id_from_hex s))"

section \<open>Upload\<close>

datatype put_outcome = Stored blob_id | TooLarge | HashMismatch

text \<open>The loop over the body: \<open>None\<close> when the limit is passed, else all of the body.\<close>

fun receive_body :: "u64 \<Rightarrow> bytes option list \<Rightarrow> u64 \<Rightarrow> bytes \<Rightarrow> unit + bytes option" where
  "receive_body max_bytes [] received hasher = Inr (Some hasher)"
| "receive_body max_bytes (None # stream) received hasher = Inl ()"
| "receive_body max_bytes (Some chunk # stream) received hasher =
     (let received' = received + word_of_nat (length chunk) in
      if max_bytes < received' then Inr None else receive_body max_bytes stream received' (hasher @ chunk))"

definition receive_and_store_blob ::
  "crypto \<Rightarrow> blob_config \<Rightarrow> bytes option list \<Rightarrow> blob_id option \<Rightarrow> bool \<Rightarrow> files \<Rightarrow> (unit + put_outcome) \<times> files" where
  "receive_and_store_blob c cfg body expected disk_ok fs =
     (if \<not> disk_ok then (Inl (), fs)
      else case receive_body (blob_max_bytes cfg) body 0 [] of
        Inl _ \<Rightarrow> (Inl (), fs)
      | Inr None \<Rightarrow> (Inr TooLarge, fs)
      | Inr (Some data) \<Rightarrow>
          let i = BlobId (blake3 c data) in
          if (case expected of Some e \<Rightarrow> e \<noteq> i | None \<Rightarrow> False) then (Inr HashMismatch, fs)
          else
            let dest = blob_path (blob_dir cfg) i in
            if fs dest \<noteq> None then (Inr (Stored i), fs)
            else (Inr (Stored i), fs(dest \<mapsto> data)))"

definition put_blob ::
  "crypto \<Rightarrow> blob_config \<Rightarrow> bytes option \<Rightarrow> bytes option list \<Rightarrow> bool \<Rightarrow> files \<Rightarrow> response \<times> files" where
  "put_blob c cfg expected_header body disk_ok fs =
     (if \<not> blob_enabled cfg then (text_response 404 ''blob sidecar disabled'', fs)
      else
        let expected = Option.bind expected_header parse_blob_id;
            (outcome, fs') = receive_and_store_blob c cfg body expected disk_ok fs
        in (case outcome of
              Inr (Stored i) \<Rightarrow>
                \<lparr> rs_status = 201, rs_headers = [],
                  rs_body = str (''{'' @ [CHR 0x22] @ ''id'' @ [CHR 0x22] @ '':'' @ [CHR 0x22]) @ blob_to_uri i @ str ([CHR 0x22] @ ''}'') \<rparr>
            | Inr TooLarge \<Rightarrow> text_response 413 ''blob exceeds max_bytes''
            | Inr HashMismatch \<Rightarrow> text_response 422 ''declared blob id does not match content''
            | Inl _ \<Rightarrow> text_response 500 ''internal error'', fs'))"

section \<open>Ranges\<close>

text \<open>\<open>str::parse::<u64>\<close>: an optional plus sign, then digits, within range.\<close>

definition rust_parse_u64 :: "bytes \<Rightarrow> u64 option" where
  "rust_parse_u64 s =
     (let digits = (case s of b # rest \<Rightarrow> if b = 0x2B then rest else s | [] \<Rightarrow> []) in
      if digits \<noteq> [] \<and> list_all is_ascii_digit digits \<and> decimal_nat digits < 2 ^ 64
      then Some (word_of_nat (decimal_nat digits)) else None)"

definition split_once :: "u8 \<Rightarrow> bytes \<Rightarrow> (bytes \<times> bytes) option" where
  "split_once sep s =
     (if sep \<in> set s then Some (takeWhile (\<lambda>b. b \<noteq> sep) s, tl (dropWhile (\<lambda>b. b \<noteq> sep) s)) else None)"

definition saturating_pred :: "u64 \<Rightarrow> u64" where
  "saturating_pred n = (if n = 0 then 0 else n - 1)"

definition parse_range :: "bytes \<Rightarrow> u64 \<Rightarrow> (u64 \<times> u64) option" where
  "parse_range header total_len =
     Option.bind (strip_prefix (str ''bytes='') header) (\<lambda>spec.
     if 0x2C \<in> set spec then None
     else Option.bind (split_once 0x2D spec) (\<lambda>(start_s, end_s).
       if start_s = [] then
         Option.bind (rust_parse_u64 end_s) (\<lambda>suffix.
           if suffix = 0 \<or> total_len = 0 then None
           else let suffix' = min suffix total_len in Some (total_len - suffix', total_len - 1))
       else
         Option.bind (rust_parse_u64 start_s) (\<lambda>start.
           if total_len \<le> start then None
           else
             Option.bind (if end_s = [] then Some (saturating_pred total_len) else rust_parse_u64 end_s) (\<lambda>stop.
               if stop < start then None else Some (start, min stop (saturating_pred total_len))))))"

section \<open>Download\<close>

definition read_range :: "bytes \<Rightarrow> u64 \<Rightarrow> u64 \<Rightarrow> unit + bytes" where
  "read_range file start len =
     (if length file < unat start + unat len then Inl () else Inr (slice file (unat start) (unat start + unat len)))"

definition serve_blob :: "blob_config \<Rightarrow> bytes \<Rightarrow> bytes option \<Rightarrow> bool \<Rightarrow> files \<Rightarrow> response" where
  "serve_blob cfg id_str range_header include_body fs =
     (if \<not> blob_enabled cfg then text_response 404 ''blob sidecar disabled''
      else case parse_blob_id id_str of
        None \<Rightarrow> text_response 404 ''malformed blob id''
      | Some i \<Rightarrow>
          (case fs (blob_path (blob_dir cfg) i) of
             None \<Rightarrow> text_response 404 ''blob not found''
           | Some file \<Rightarrow>
               let total_len = word_of_nat (length file);
                   range = Option.bind range_header (\<lambda>s. parse_range s total_len)
               in
               if range_header \<noteq> None \<and> range = None then
                 \<lparr> rs_status = 416, rs_headers = [(''content-range'', str ''bytes */'' @ nat_decimal (unat total_len))], rs_body = [] \<rparr>
               else
                 let (status, start, len) =
                       (case range of Some (s, e) \<Rightarrow> (206, s, e - s + 1) | None \<Rightarrow> (200, 0, total_len));
                     headers =
                       [(''content-type'', str ''application/octet-stream''), (''accept-ranges'', str ''bytes''),
                        (''content-length'', nat_decimal (unat len))]
                       @ (if status = 206 then
                            [(''content-range'', str ''bytes '' @ nat_decimal (unat start) @ str ''-''
                                @ nat_decimal (unat (start + len - 1)) @ str ''/'' @ nat_decimal (unat total_len))]
                          else [])
                 in if \<not> include_body then \<lparr> rs_status = status, rs_headers = headers, rs_body = [] \<rparr>
                    else case read_range file start len of
                      Inl _ \<Rightarrow> text_response 500 ''read error''
                    | Inr bytes \<Rightarrow> \<lparr> rs_status = status, rs_headers = headers, rs_body = bytes \<rparr>))"

definition get_blob :: "blob_config \<Rightarrow> bytes \<Rightarrow> bytes option \<Rightarrow> files \<Rightarrow> response" where
  "get_blob cfg id_str range_header fs = serve_blob cfg id_str range_header True fs"

definition head_blob :: "blob_config \<Rightarrow> bytes \<Rightarrow> bytes option \<Rightarrow> files \<Rightarrow> response" where
  "head_blob cfg id_str range_header fs = serve_blob cfg id_str range_header False fs"

section \<open>Chunk proofs\<close>

definition compute_chunk_proof :: "crypto \<Rightarrow> bytes \<Rightarrow> u64 \<Rightarrow> unit + u64 \<times> bytes list" where
  "compute_chunk_proof c blob_bytes chunk_index =
     (let total_chunks = (if blob_bytes = [] then 0 else (length blob_bytes + CHUNK_SIZE - 1) div CHUNK_SIZE) in
      if total_chunks \<le> unat chunk_index then Inl ()
      else case prove c (chunk_tree_from_bytes c blob_bytes) (unat chunk_index) of
        Inl _ \<Rightarrow> Inl ()
      | Inr siblings \<Rightarrow> Inr (chunk_index, siblings))"

definition get_blob_proof :: "crypto \<Rightarrow> blob_config \<Rightarrow> bytes \<Rightarrow> u64 \<Rightarrow> files \<Rightarrow> response" where
  "get_blob_proof c cfg id_str chunk fs =
     (if \<not> blob_enabled cfg then text_response 404 ''blob sidecar disabled''
      else case parse_blob_id id_str of
        None \<Rightarrow> text_response 404 ''malformed blob id''
      | Some i \<Rightarrow>
          (case fs (blob_path (blob_dir cfg) i) of
             None \<Rightarrow> text_response 404 ''blob not found''
           | Some bytes \<Rightarrow>
               (case compute_chunk_proof c bytes chunk of
                  Inr (index, siblings) \<Rightarrow>
                    \<lparr> rs_status = 200, rs_headers = [(''content-type'', str ''application/cbor'')],
                      rs_body = encode_chunk_proof index siblings \<rparr>
                | Inl _ \<Rightarrow> text_response 400 ''invalid chunk index'')))"

end
