(* ===== verification/RelayBlobsSpec.thy ===== *)
theory RelayBlobsSpec
  imports RelayBlobs
begin

text \<open>The sidecar serves under an id only bytes with that hash, and a range is always inside the blob.\<close>

section \<open>Names\<close>

lemma blob_path_inj: "blob_path dir i = blob_path dir j \<Longrightarrow> i = j"
proof -
  assume "blob_path dir i = blob_path dir j"
  then have "id_to_hex (blob_id_bytes i) = id_to_hex (blob_id_bytes j)"
    by (simp add: blob_path_def Let_def)
  then have "Some (blob_id_bytes i) = Some (blob_id_bytes j)"
    by (metis from_hex_pairs_id_to_hex)
  then show ?thesis
    by (simp add: blob_id.expand)
qed

lemma parse_blob_id_uri: "id32 (blob_id_bytes i) \<Longrightarrow> parse_blob_id (blob_to_uri i) = Some i"
  by (simp add: parse_blob_id_def blob_from_uri_def blob_to_uri_def id_from_hex_def id32_def)

section \<open>Ranges\<close>

lemma pred_less: "0 < (n :: u64) \<Longrightarrow> n - 1 < n"
  using unat_minus_one [of n] by (auto simp: word_less_nat_alt unat_gt_0)

lemma parse_range_inside:
  assumes "parse_range h n = Some (s, e)"
  shows "s \<le> e" and "e < n"
proof -
  obtain spec a b where parts: "strip_prefix (str ''bytes='') h = Some spec" "split_once 0x2D spec = Some (a, b)"
    using assms by (auto simp: parse_range_def bind_eq_Some_conv split: if_split_asm)
  have "s \<le> e \<and> e < n"
  proof (cases "a = []")
    case True
    then obtain k where k: "k \<noteq> 0" "n \<noteq> 0" "s = n - min k n" "e = n - 1"
      using assms parts by (auto simp: parse_range_def bind_eq_Some_conv Let_def split: if_split_asm)
    have "1 \<le> min k n" "min k n \<le> n"
      using k(1,2) by (simp_all add: min_def word_neq_0_conv inc_le [of 0, simplified])
    then have "n - min k n \<le> n - 1"
      by (simp add: word_le_nat_alt unat_sub)
    with k show ?thesis
      using pred_less [of n] by (simp add: word_neq_0_conv)
  next
    case False
    then obtain stop where "s < n" "s \<le> stop" "e = min stop (saturating_pred n)"
      using assms parts by (auto simp: parse_range_def bind_eq_Some_conv not_le not_less split: if_split_asm)
    moreover have "0 < n"
      using \<open>s < n\<close> by (metis word_gt_0 word_not_simps(1))
    then have "saturating_pred n < n" and "s \<le> saturating_pred n"
      using pred_less [of n] \<open>s < n\<close> by (auto simp: saturating_pred_def word_le_nat_alt word_less_nat_alt unat_sub)
    ultimately show ?thesis
      by (auto simp: min_def)
  qed
  then show "s \<le> e" and "e < n"
    by simp_all
qed

section \<open>The directory\<close>

text \<open>Every file stands under the hash of its content, and fits the address space.\<close>

definition files_ok :: "crypto \<Rightarrow> blob_config \<Rightarrow> files \<Rightarrow> bool" where
  "files_ok c cfg fs \<longleftrightarrow>
     (\<forall>i file. fs (blob_path (blob_dir cfg) i) = Some file \<longrightarrow> hash_blob c file = i \<and> addressable file)"

definition sent :: "bytes option list \<Rightarrow> bytes" where
  "sent body = concat (map (\<lambda>x. case x of None \<Rightarrow> [] | Some chunk \<Rightarrow> chunk) body)"

lemma receive_body_all:
  assumes "receive_body max_bytes body received hasher = Inr (Some data)"
    and "unat received = length hasher" and "addressable (hasher @ sent body)" and "received \<le> max_bytes"
  shows "data = hasher @ sent body \<and> length data \<le> unat max_bytes"
  using assms
proof (induction max_bytes body received hasher rule: receive_body.induct)
  case (3 max_bytes chunk stream received hasher)
  have len: "length (hasher @ chunk) < 2 ^ 64"
    using "3.prems"(3) by (simp add: addressable_def usize_max_def sent_def)
  have "unat (received + word_of_nat (length chunk)) = length (hasher @ chunk)"
    using len "3.prems"(2) by (simp add: unat_word_ariths unsigned_of_nat take_bit_nat_eq_self)
  with 3 show ?case
    by (auto simp: Let_def sent_def not_less split: if_split_asm)
qed (auto simp: sent_def word_le_nat_alt)

lemma put_blob_cases:
  assumes "put_blob c cfg h body disk_ok fs = (resp, fs')"
  obtains (no) "fs' = fs" "rs_status resp \<noteq> 201"
    | (yes) data where "receive_body (blob_max_bytes cfg) body 0 [] = Inr (Some data)" "rs_status resp = 201"
        "\<forall>e. Option.bind h parse_blob_id = Some e \<longrightarrow> e = hash_blob c data"
        "rs_body resp = str (''{'' @ [CHR 0x22] @ ''id'' @ [CHR 0x22] @ '':'' @ [CHR 0x22]) @ blob_to_uri (hash_blob c data) @ str ([CHR 0x22] @ ''}'')"
        "fs' = (if fs (blob_path (blob_dir cfg) (hash_blob c data)) \<noteq> None then fs
                else fs(blob_path (blob_dir cfg) (hash_blob c data) \<mapsto> data))"
  using assms
  by (auto simp: put_blob_def receive_and_store_blob_def text_response_def hash_blob_def Let_def
      split: if_split_asm sum.split_asm option.split_asm)

section \<open>Serving\<close>

lemma unat_length_u64: "addressable bs \<Longrightarrow> unat (word_of_nat (length bs) :: u64) = length bs"
  by (rule unat_length) simp_all

lemma read_range_inside:
  assumes "addressable file" and "s \<le> e" and "e < word_of_nat (length file)"
  shows "read_range file s (e - s + 1) = Inr (slice file (unat s) (Suc (unat e)))"
proof -
  have e: "unat e < length file"
    using assms(3) unat_length_u64 [OF assms(1)] by (simp add: word_less_nat_alt)
  have "unat (e - s) = unat e - unat s"
    using assms(2) by (simp add: unat_sub)
  moreover have "unat e < 2 ^ 64 - 1"
    using e assms(1) by (simp add: addressable_def usize_max_def)
  ultimately have "unat (e - s + 1) = unat e - unat s + 1"
    by (simp add: unat_word_ariths)
  moreover have "unat s \<le> unat e"
    using assms(2) by (simp add: word_le_nat_alt)
  ultimately show ?thesis
    using e by (simp add: read_range_def)
qed

lemma get_blob_serves:
  assumes "blob_enabled cfg" and "parse_blob_id id_str = Some i" and "fs (blob_path (blob_dir cfg) i) = Some file"
    and "addressable file"
  shows "rs_status (get_blob cfg id_str None fs) = 200 \<and> rs_body (get_blob cfg id_str None fs) = file"
    and "case parse_range h (word_of_nat (length file)) of
        None \<Rightarrow> rs_status (get_blob cfg id_str (Some h) fs) = 416
      | Some (s, e) \<Rightarrow> s \<le> e \<and> unat e < length file \<and> rs_status (get_blob cfg id_str (Some h) fs) = 206
          \<and> rs_body (get_blob cfg id_str (Some h) fs) = slice file (unat s) (Suc (unat e))"
proof -
  have "read_range file 0 (word_of_nat (length file)) = Inr file"
    using unat_length_u64 [OF assms(4)] by (simp add: read_range_def)
  then show "rs_status (get_blob cfg id_str None fs) = 200 \<and> rs_body (get_blob cfg id_str None fs) = file"
    using assms by (simp add: get_blob_def serve_blob_def Let_def)
  show "case parse_range h (word_of_nat (length file)) of
        None \<Rightarrow> rs_status (get_blob cfg id_str (Some h) fs) = 416
      | Some (s, e) \<Rightarrow> s \<le> e \<and> unat e < length file \<and> rs_status (get_blob cfg id_str (Some h) fs) = 206
          \<and> rs_body (get_blob cfg id_str (Some h) fs) = slice file (unat s) (Suc (unat e))"
  proof (cases "parse_range h (word_of_nat (length file))")
    case None
    then show ?thesis
      using assms by (simp add: get_blob_def serve_blob_def Let_def)
  next
    case (Some se)
    obtain s e where se: "se = (s, e)"
      by (cases se)
    note inside = parse_range_inside [OF Some [unfolded se]]
    show ?thesis
      using assms Some se inside read_range_inside [OF assms(4) inside] unat_length_u64 [OF assms(4)]
      by (simp add: get_blob_def serve_blob_def Let_def word_less_nat_alt)
  qed
qed



end
