(* ===== verification/RelayInfo.thy ===== *)
theory RelayInfo
  imports RelayConfig Kinds Json
begin

text \<open>
  The policy document of \<open>GET /info\<close> (\<open>crates/evermesh-relay/src/info.rs\<close>).  A JSON object is the map
  from its keys to its values, as \<open>serde_json::Map\<close> is one; the package version is an argument.
\<close>

datatype json_doc =
    JText bytes
  | JNumber nat
  | JBool bool
  | JArray "json_doc list"
  | JObject "bytes \<Rightarrow> json_doc option"

definition SOFTWARE :: "bytes \<Rightarrow> bytes" where
  "SOFTWARE version = str ''evermesh-relay/'' @ version"

definition info_kind_name :: "u64 \<Rightarrow> string option" where
  "info_kind_name kind =
     (if kind = 1 then Some ''rotation'' else if kind = 2 then Some ''profile'' else if kind = 3 then Some ''delegate''
      else if kind = 16 then Some ''manifest'' else if kind = 17 then Some ''supersede'' else if kind = 18 then Some ''retract''
      else if kind = 19 then Some ''mirror'' else if kind = 20 then Some ''similarity''
      else if kind = 32 then Some ''comment'' else if kind = 33 then Some ''reaction'' else if kind = 34 then Some ''follow''
      else if kind = 35 then Some ''playlist'' else if kind = 36 then Some ''channel''
      else if kind = 48 then Some ''claim.author'' else if kind = 49 then Some ''claim.license''
      else if kind = 50 then Some ''claim.transfer'' else if kind = 51 then Some ''claim.dispute''
      else if kind = 64 then Some ''notice.takedown'' else if kind = 65 then Some ''notice.counter''
      else if kind = 66 then Some ''feed.takedown''
      else if kind = 80 then Some ''endorse.gateway'' else if kind = 81 then Some ''receipt'' else if kind = 82 then Some ''attest''
      else if kind = 96 then Some ''anchor'' else if kind = 97 then Some ''keygrant''
      else if kind = 112 then Some ''live.manifest'' else if kind = 113 then Some ''live.chat''
      else None)"

definition retention_key :: "u64 \<Rightarrow> bytes" where
  "retention_key kind =
     (case info_kind_name kind of
        Some name \<Rightarrow> str name @ str ''_days''
      | None \<Rightarrow> str ''kind'' @ nat_decimal (unat kind) @ str ''_days'')"

definition retention_object :: "retention \<Rightarrow> bytes \<Rightarrow> json_doc option" where
  "retention_object ret =
     fold (\<lambda>(kind, days) m. m(retention_key kind \<mapsto> JNumber (unat days))) (by_kind_days ret)
       [str ''default_days'' \<mapsto> JNumber (unat (default_days ret))]"

definition policy_document :: "bytes \<Rightarrow> relay_config \<Rightarrow> json_doc" where
  "policy_document version config =
     JObject
       [str ''name'' \<mapsto> JText (cfg_name config),
        str ''software'' \<mapsto> JText (SOFTWARE version),
        str ''pow_min_bits'' \<mapsto> JNumber (unat (cfg_pow_min_bits config)),
        str ''rate'' \<mapsto> JObject [str ''records_per_minute_per_key'' \<mapsto> JNumber (unat (records_per_minute_per_key (cfg_rate config)))],
        str ''retention'' \<mapsto> JObject (retention_object (cfg_retention config)),
        str ''blob'' \<mapsto> JObject [str ''enabled'' \<mapsto> JBool (blob_enabled (cfg_blob config)),
                              str ''max_bytes'' \<mapsto> JNumber (unat (blob_max_bytes (cfg_blob config)))],
        str ''peers'' \<mapsto> JArray (map JText (cfg_peers config))]"

text \<open>The relay's table of names is the kernel's registry.\<close>

lemma info_kind_name_registry: "info_kind_name k = kind_name k"
  unfolding info_kind_name_def kind_name_def KIND_ANCHOR_def KIND_ATTEST_def KIND_CHANNEL_def 
    KIND_CLAIM_AUTHOR_def KIND_CLAIM_DISPUTE_def 
    KIND_CLAIM_LICENSE_def KIND_CLAIM_TRANSFER_def 
    KIND_COMMENT_def KIND_DELEGATE_def KIND_ENDORSE_GATEWAY_def
    KIND_FEED_TAKEDOWN_def KIND_FOLLOW_def
    KIND_KEYGRANT_def KIND_LIVE_CHAT_def 
    KIND_LIVE_MANIFEST_def KIND_MANIFEST_def KIND_MIRROR_def
    KIND_NOTICE_COUNTER_def KIND_NOTICE_TAKEDOWN_def
    KIND_PLAYLIST_def KIND_PROFILE_def 
    KIND_REACTION_def KIND_RECEIPT_def KIND_RETRACT_def
    KIND_ROTATION_def KIND_SIMILARITY_def 
    KIND_SUPERSEDE_def 
  by (rule refl)

end
