(* ===== verification/RelayRate.thy ===== *)
theory RelayRate
  imports RelayConfig Complex_Main
begin

text \<open>
  Timing in the relay: the token buckets of \<open>crates/evermesh-relay/src/rate.rs\<close>, whose answer is the bit
  that a publication carries in \<open>Relay\<close>, and the reconnection delays of \<open>gossip.rs\<close>.

  Tokens are \<open>f64\<close> in the code.  The floating-point operations are a record of functions on a type of
  numbers; \<open>f64_laws\<close> states the few facts of IEEE arithmetic that the limiter rests on, which hold
  because small integers are exact.  An instant is a number of nanoseconds.
\<close>

section \<open>Floating point\<close>

record 'f f64 =
  f_of_nat :: "nat \<Rightarrow> 'f"
  f_add :: "'f \<Rightarrow> 'f \<Rightarrow> 'f"
  f_sub :: "'f \<Rightarrow> 'f \<Rightarrow> 'f"
  f_mul :: "'f \<Rightarrow> 'f \<Rightarrow> 'f"
  f_div :: "'f \<Rightarrow> 'f \<Rightarrow> 'f"
  f_min :: "'f \<Rightarrow> 'f \<Rightarrow> 'f"
  f_le :: "'f \<Rightarrow> 'f \<Rightarrow> bool"
  f_secs :: "nat \<Rightarrow> 'f"

text \<open>Below \<open>2 ^ 32\<close> integers are exact and ordered; nothing is added in no time.\<close>

definition f64_laws :: "'f f64 \<Rightarrow> bool" where
  "f64_laws f \<longleftrightarrow>
     (\<forall>k < 2 ^ 32. f_sub f (f_of_nat f (Suc k)) (f_of_nat f 1) = f_of_nat f k)
     \<and> (\<forall>k < 2 ^ 32. f_le f (f_of_nat f 1) (f_of_nat f k) \<longleftrightarrow> 1 \<le> k)
     \<and> (\<forall>j k. j < 2 ^ 32 \<longrightarrow> k < 2 ^ 32 \<longrightarrow> f_min f (f_of_nat f j) (f_of_nat f k) = f_of_nat f (min j k))
     \<and> (\<forall>j k. j < 2 ^ 32 \<longrightarrow> k < 2 ^ 32 \<longrightarrow>
          f_add f (f_of_nat f k) (f_mul f (f_secs f 0) (f_div f (f_of_nat f j) (f_of_nat f 60))) = f_of_nat f k)"

definition real_f64 :: "real f64" where
  "real_f64 = \<lparr> f_of_nat = real, f_add = (+), f_sub = (-), f_mul = (*), f_div = (/), f_min = min,
     f_le = (\<le>), f_secs = (\<lambda>ns. real ns / 10 ^ 9) \<rparr>"

lemma f64_laws_real: "f64_laws real_f64"
  by (auto simp: f64_laws_def real_f64_def min_def)

section \<open>The limiter\<close>

record 'f bucket =
  bk_tokens :: 'f
  bk_last_refill :: nat

record 'f rate_limiter =
  rl_limit_per_minute :: "32 word"
  rl_capacity :: 'f
  rl_refill_per_sec :: 'f
  rl_buckets :: "bytes \<Rightarrow> 'f bucket option"

definition limiter_new :: "'f f64 \<Rightarrow> 32 word \<Rightarrow> 'f rate_limiter" where
  "limiter_new f limit =
     (let capacity = f_of_nat f (unat limit) in
      \<lparr> rl_limit_per_minute = limit, rl_capacity = capacity,
        rl_refill_per_sec = f_div f capacity (f_of_nat f 60), rl_buckets = (\<lambda>_. None) \<rparr>)"

definition refill_tokens :: "'f f64 \<Rightarrow> 'f \<Rightarrow> 'f \<Rightarrow> 'f \<Rightarrow> 'f \<Rightarrow> 'f" where
  "refill_tokens f tokens elapsed_secs refill_per_sec capacity =
     f_min f (f_add f tokens (f_mul f elapsed_secs refill_per_sec)) capacity"

definition rate_check :: "'f f64 \<Rightarrow> nat \<Rightarrow> bytes \<Rightarrow> 'f rate_limiter \<Rightarrow> bool \<times> 'f rate_limiter" where
  "rate_check f now ident rl =
     (if rl_limit_per_minute rl = 0 then (True, rl)
      else
        let b = (case rl_buckets rl ident of
                   Some b \<Rightarrow> b
                 | None \<Rightarrow> \<lparr> bk_tokens = rl_capacity rl, bk_last_refill = now \<rparr>);
            elapsed = f_secs f (now - bk_last_refill b);
            tokens = refill_tokens f (bk_tokens b) elapsed (rl_refill_per_sec rl) (rl_capacity rl);
            put = (\<lambda>t. rl\<lparr> rl_buckets := (rl_buckets rl)(ident \<mapsto> \<lparr> bk_tokens = t, bk_last_refill = now \<rparr>) \<rparr>)
        in if f_le f (f_of_nat f 1) tokens then (True, put (f_sub f tokens (f_of_nat f 1)))
           else (False, put tokens))"

text \<open>Checks one after another, each with its time and identity.\<close>

fun rate_checks :: "'f f64 \<Rightarrow> (nat \<times> bytes) list \<Rightarrow> 'f rate_limiter \<Rightarrow> bool list" where
  "rate_checks f [] rl = []"
| "rate_checks f ((now, ident) # es) rl = (let (ok, rl') = rate_check f now ident rl in ok # rate_checks f es rl')"

section \<open>What it lets through\<close>

lemma rate_check_disabled: "rl_limit_per_minute rl = 0 \<Longrightarrow> rate_check f now ident rl = (True, rl)"
  by (simp add: rate_check_def)

text \<open>An identity's bucket is touched by its own checks only.\<close>

lemma rate_check_other:
  "ident' \<noteq> ident \<Longrightarrow> rl_buckets (snd (rate_check f now ident rl)) ident' = rl_buckets rl ident'"
  by (simp add: rate_check_def Let_def)

lemma rate_check_fixed [simp]:
  "rl_limit_per_minute (snd (rate_check f now ident rl)) = rl_limit_per_minute rl"
  "rl_capacity (snd (rate_check f now ident rl)) = rl_capacity rl"
  "rl_refill_per_sec (snd (rate_check f now ident rl)) = rl_refill_per_sec rl"
  by (simp_all add: rate_check_def Let_def)

text \<open>
  A burst at one instant: of any number of checks of one identity, whatever other identities do in
  between, exactly the first \<open>limit\<close> pass.  \<open>burst_ok\<close> is the state after \<open>k\<close> of them.
\<close>

definition burst_ok :: "'f f64 \<Rightarrow> nat \<Rightarrow> bytes \<Rightarrow> nat \<Rightarrow> 'f rate_limiter \<Rightarrow> bool" where
  "burst_ok f now ident left rl \<longleftrightarrow>
     rl_limit_per_minute rl \<noteq> 0 \<and> rl_capacity rl = f_of_nat f (unat (rl_limit_per_minute rl))
     \<and> rl_refill_per_sec rl = f_div f (f_of_nat f (unat (rl_limit_per_minute rl))) (f_of_nat f 60)
     \<and> left \<le> unat (rl_limit_per_minute rl)
     \<and> (case rl_buckets rl ident of
          None \<Rightarrow> left = unat (rl_limit_per_minute rl)
        | Some b \<Rightarrow> bk_tokens b = f_of_nat f left \<and> bk_last_refill b = now)"

lemma burst_step:
  assumes "f64_laws f" and "burst_ok f now ident left rl"
  shows "fst (rate_check f now ident rl) \<longleftrightarrow> 0 < left"
    and "burst_ok f now ident (left - 1) (snd (rate_check f now ident rl))"
proof -
  let ?n = "unat (rl_limit_per_minute rl)"
  have n: "?n < 2 ^ 32"
    using unsigned_less [of "rl_limit_per_minute rl", where ?'a = nat] by simp
  from assms(2) have lim: "rl_limit_per_minute rl \<noteq> 0" and left: "left \<le> ?n" "left < 2 ^ 32"
      and cap: "rl_capacity rl = f_of_nat f ?n"
      and refill: "rl_refill_per_sec rl = f_div f (f_of_nat f ?n) (f_of_nat f 60)"
    using n by (simp_all add: burst_ok_def)
  define b where "b = (case rl_buckets rl ident of
      Some b \<Rightarrow> b | None \<Rightarrow> \<lparr> bk_tokens = rl_capacity rl, bk_last_refill = now \<rparr>)"
  have b: "bk_tokens b = f_of_nat f left" "bk_last_refill b = now"
    using assms(2) by (auto simp: burst_ok_def b_def cap split: option.splits)
  have tokens: "refill_tokens f (bk_tokens b) (f_secs f (now - bk_last_refill b)) (rl_refill_per_sec rl) (rl_capacity rl) = f_of_nat f left"
  proof -
    have "f_min f (f_of_nat f left) (f_of_nat f ?n) = f_of_nat f left"
      using assms(1) left n unfolding f64_laws_def by (simp add: min_absorb1)
    then show ?thesis
      using assms(1) left n by (simp add: refill_tokens_def b cap refill f64_laws_def)
  qed
  have le: "f_le f (f_of_nat f 1) (f_of_nat f left) \<longleftrightarrow> 0 < left"
    using assms(1) left(2) unfolding f64_laws_def by (simp add: Suc_le_eq)
  have dec: "f_sub f (f_of_nat f left) (f_of_nat f 1) = f_of_nat f (left - 1)" if "0 < left"
    using assms(1) left(2) that unfolding f64_laws_def by (cases left) simp_all
  have check: "rate_check f now ident rl =
      (if 0 < left
       then (True, rl\<lparr> rl_buckets := (rl_buckets rl)(ident \<mapsto> \<lparr> bk_tokens = f_of_nat f (left - 1), bk_last_refill = now \<rparr>) \<rparr>)
       else (False, rl\<lparr> rl_buckets := (rl_buckets rl)(ident \<mapsto> \<lparr> bk_tokens = f_of_nat f left, bk_last_refill = now \<rparr>) \<rparr>))"
    unfolding rate_check_def b_def [symmetric] Let_def tokens le using lim dec by simp
  then show "fst (rate_check f now ident rl) \<longleftrightarrow> 0 < left"
    by simp
  show "burst_ok f now ident (left - 1) (snd (rate_check f now ident rl))"
  proof (cases "0 < left")
    case True
    with left have "left - 1 \<le> ?n" by linarith
    with True show ?thesis
      unfolding check burst_ok_def using lim cap refill by simp
  next
    case False
    then show ?thesis
      unfolding check burst_ok_def using lim cap refill by simp
  qed
qed

lemma burst_other:
  "\<lbrakk>burst_ok f now ident left rl; ident' \<noteq> ident\<rbrakk> \<Longrightarrow> burst_ok f now ident left (snd (rate_check f t ident' rl))"
  using rate_check_other [of ident ident' f t rl] by (cases "rl_buckets rl ident") (simp_all add: burst_ok_def)

lemma burst_exact:
  assumes "f64_laws f" and "burst_ok f now ident left rl" and "\<forall>(t, i)\<in>set es. i = ident \<longrightarrow> t = now"
  shows "length (filter (\<lambda>(ok, (t, i)). ok \<and> i = ident) (zip (rate_checks f es rl) es))
    = min left (length (filter (\<lambda>(t, i). i = ident) es))"
  using assms(2,3)
proof (induction es arbitrary: left rl)
  case (Cons e es)
  obtain t i where e: "e = (t, i)"
    by (cases e)
  obtain ok rl' where check: "rate_check f t i rl = (ok, rl')"
    by (cases "rate_check f t i rl")
  show ?case
  proof (cases "i = ident")
    case True
    with Cons.prems e have "t = now"
      by auto
    with check True have check': "rate_check f now ident rl = (ok, rl')"
      by simp
    with burst_step [OF assms(1) Cons.prems(1)] have "ok \<longleftrightarrow> 0 < left" "burst_ok f now ident (left - 1) rl'"
      by simp_all
    with Cons.IH [of "left - 1" rl'] Cons.prems(2) \<open>t = now\<close> show ?thesis
      by (cases left) (simp_all add: e check' True)
  next
    case False
    with burst_other [OF Cons.prems(1) False, of t] check have "burst_ok f now ident left rl'"
      by simp
    with Cons.IH [of left rl'] Cons.prems(2) False show ?thesis
      by (simp add: e check)
  qed
qed simp

lemma fresh_burst:
  assumes "f64_laws f" and "limit \<noteq> 0" and "\<forall>(t, i)\<in>set es. i = ident \<longrightarrow> t = now"
  shows "length (filter (\<lambda>(ok, (t, i)). ok \<and> i = ident) (zip (rate_checks f es (limiter_new f limit)) es))
    = min (unat limit) (length (filter (\<lambda>(t, i). i = ident) es))"
  using assms by (intro burst_exact) (simp_all add: burst_ok_def limiter_new_def Let_def)

section \<open>Reconnection\<close>

text \<open>Delays in seconds, and what a connection that ended in order or with an error makes of them.\<close>

definition RECONNECT_MIN :: nat where
  "RECONNECT_MIN = 1"

definition RECONNECT_MAX :: nat where
  "RECONNECT_MAX = 60"

definition next_backoff :: "bool \<Rightarrow> nat \<Rightarrow> nat" where
  "next_backoff ended_ok backoff = min ((if ended_ok then RECONNECT_MIN else backoff) * 2) RECONNECT_MAX"

text \<open>The delays slept through, in order, given how each connection ended.\<close>

fun backoffs :: "bool list \<Rightarrow> nat \<Rightarrow> nat list" where
  "backoffs [] backoff = []"
| "backoffs (ended_ok # rest) backoff =
     (if ended_ok then RECONNECT_MIN else backoff) # backoffs rest (next_backoff ended_ok backoff)"

lemma backoffs_bounded:
  "\<lbrakk>RECONNECT_MIN \<le> b; b \<le> RECONNECT_MAX; d \<in> set (backoffs ends b)\<rbrakk> \<Longrightarrow> RECONNECT_MIN \<le> d \<and> d \<le> RECONNECT_MAX"
  by (induction ends b rule: backoffs.induct)
    (auto simp: next_backoff_def RECONNECT_MIN_def RECONNECT_MAX_def split: if_splits)

text \<open>Failures in a row double the delay up to the maximum.\<close>

lemma min_mult: "0 < c \<Longrightarrow> min (min x m * c) m = min (x * c) (m :: nat)"
proof (cases "x \<le> m")
  case False
  assume "0 < c"
  then have *: "m \<le> m * c" by (cases c) simp_all
  have **: "m \<le> x * c"
    using * mult_le_mono1 [of m x c] False by linarith
  have "min x m = m" using False by (simp add: min_def)
  then show ?thesis
    by (simp only: min_absorb2 [OF *] min_absorb2 [OF **])
qed (simp only: min_absorb1)

lemma backoffs_failures:
  "\<lbrakk>i < k; b \<le> RECONNECT_MAX\<rbrakk> \<Longrightarrow> backoffs (replicate k False) b ! i = min (b * 2 ^ i) RECONNECT_MAX"
proof (induction k arbitrary: b i)
  case (Suc k)
  show ?case
  proof (cases i)
    case (Suc j)
    have "backoffs (replicate k False) (next_backoff False b) ! j = min (next_backoff False b * 2 ^ j) RECONNECT_MAX"
      using Suc.prems Suc by (intro Suc.IH) (simp_all add: next_backoff_def)
    moreover have "min (min (b * 2) RECONNECT_MAX * 2 ^ j) RECONNECT_MAX = min (b * 2 * 2 ^ j) RECONNECT_MAX"
      by (rule min_mult) simp
    ultimately show ?thesis
      by (simp add: Suc next_backoff_def mult.assoc)
  qed (use Suc.prems in simp)
qed simp

end
