(* ===== verification/WasmHasher.thy ===== *)
theory WasmHasher
  imports BlobSpec KernelText
begin

text \<open>
  The incremental blob hasher of the WebAssembly bindings, \<open>BlobHasher\<close> in
  \<open>crates/evermesh-wasm/src/lib.rs\<close>: the bytes of a stream are fed in pieces of any size, the flat hash
  and the leaves of the chunk tree are computed in one pass.

  The specification is the kernel's own hashing of the whole blob in memory.  \<open>blob_hasher_ok\<close> is the
  invariant that connects the two: what was fed so far is the hashed bytes, of which the leaves cover
  the full chunks and \<open>pending\<close> is the rest, always less than a chunk.

  Errors of the bindings are \<open>JsError\<close>s with a message; a panic of the kernel traps.
\<close>

section \<open>Errors of the bindings\<close>

datatype js_fault = Trap string | JsError bytes

definition js_err :: "error \<Rightarrow> js_fault" where
  "js_err e = JsError (display_error e)"

definition js_msg :: "string \<Rightarrow> js_fault" where
  "js_msg m = JsError (str m)"

text \<open>\<open>map_err(js_err)\<close> on a result of the kernel, and on one that may have panicked.\<close>

definition js :: "error + 'a \<Rightarrow> js_fault + 'a" where
  "js r = (case r of Inl e \<Rightarrow> Inl (js_err e) | Inr x \<Rightarrow> Inr x)"

definition js_of_fault :: "fault + 'a \<Rightarrow> js_fault + 'a" where
  "js_of_fault r = (case r of Inl (Panic m) \<Rightarrow> Inl (Trap m) | Inl (Err e) \<Rightarrow> Inl (js_err e) | Inr x \<Rightarrow> Inr x)"

lemma js_simps [simp]: "js (Inl e) = Inl (js_err e)" "js (Inr x) = Inr x"
  "js_of_fault (Inl (Err e)) = Inl (js_err e)" "js_of_fault (Inl (Panic m)) = Inl (Trap m)"
  "js_of_fault (Inr x) = Inr x"
  by (simp_all add: js_def js_of_fault_def)

lemma js_eq_Inr [result_simps]: "js r = Inr x \<longleftrightarrow> r = Inr x" "js_of_fault q = Inr x \<longleftrightarrow> q = Inr x"
  by (cases r; simp) (cases q; auto simp: js_of_fault_def split: fault.splits)

lemma js_no_trap [simp]: "js r \<noteq> Inl (Trap m)"
  by (cases r) (simp_all add: js_err_def)

definition hex_of :: "bytes \<Rightarrow> bytes" where
  "hex_of bytes = foldl (\<lambda>s b. s @ hex_lower [b]) [] bytes"

lemma hex_of_hex_lower: "hex_of bytes = hex_lower bytes"
proof -
  have "foldl (\<lambda>s b. s @ hex_lower [b]) acc bytes = acc @ hex_lower bytes" for acc
    by (induction bytes arbitrary: acc) simp_all
  then show ?thesis
    by (simp add: hex_of_def)
qed

section \<open>The hasher\<close>

record blob_hasher =
  bh_hasher :: bytes
  bh_leaves :: "bytes list"
  bh_pending :: bytes
  bh_size :: u64
  bh_finished :: bool
  bh_root :: "bytes option"

definition blob_hasher_new :: blob_hasher where
  "blob_hasher_new =
     \<lparr> bh_hasher = [], bh_leaves = [], bh_pending = [], bh_size = 0, bh_finished = False, bh_root = None \<rparr>"

text \<open>
  The loop of \<open>update\<close> over what is left of the piece.  It has no bound in the code: \<open>None\<close> means that
  it does not return, which it would not with a full chunk pending.
\<close>

partial_function (option) feed ::
  "crypto \<Rightarrow> bytes list \<Rightarrow> bytes \<Rightarrow> bytes \<Rightarrow> (bytes list \<times> bytes) option" where
  "feed c leaves pending rest =
     (if rest = [] then Some (leaves, pending)
      else
        let space = CHUNK_SIZE - length pending;
            taken = min space (length rest);
            pending' = pending @ take taken rest;
            rest' = drop taken rest
        in if length pending' = CHUNK_SIZE then feed c (leaves @ [leaf_hash c pending']) [] rest'
           else feed c leaves pending' rest')"

declare feed.simps [code]

definition update_hasher :: "crypto \<Rightarrow> bytes \<Rightarrow> blob_hasher \<Rightarrow> (js_fault + blob_hasher) option" where
  "update_hasher c bytes h =
     (if bh_finished h then Some (Inl (js_msg ''hasher already finalized''))
      else map_option (\<lambda>(leaves, pending).
             Inr (h\<lparr> bh_hasher := bh_hasher h @ bytes, bh_size := bh_size h + word_of_nat (length bytes),
                     bh_leaves := leaves, bh_pending := pending \<rparr>))
             (feed c (bh_leaves h) (bh_pending h) bytes))"

text \<open>One level of the fold, pair by pair.\<close>

definition fold_pair :: "crypto \<Rightarrow> bytes list \<Rightarrow> bytes list" where
  "fold_pair c pair = (case pair of [l, r] \<Rightarrow> [node_hash c l r] | [x] \<Rightarrow> [x] | _ \<Rightarrow> [])"

definition fold_level :: "crypto \<Rightarrow> bytes list \<Rightarrow> bytes list" where
  "fold_level c level = concat (map (fold_pair c) (chunks 2 level))"

lemma fold_level_reduce: "fold_level c level = reduce_level c level"
proof (induction level rule: reduce_level.induct)
  case (1 c a b rest)
  have "chunks 2 (a # b # rest) = [a, b] # chunks 2 rest"
    using chunks_nonempty [of 2 "a # b # rest"] by (simp add: numeral_2_eq_2)
  then show ?case
    using 1 by (simp add: fold_level_def fold_pair_def)
next
  case (2 c a)
  show ?case
    by (simp add: fold_level_def fold_pair_def chunks_short)
qed (simp add: fold_level_def)

function fold_root :: "crypto \<Rightarrow> bytes list \<Rightarrow> bytes option" where
  "fold_root c level =
     (if 1 < length level then fold_root c (fold_level c level)
      else case level of [] \<Rightarrow> None | r # _ \<Rightarrow> Some r)"
  by pat_completeness auto
termination
  by (relation "measure (\<lambda>(c, level). length level)") (auto simp: fold_level_reduce length_reduce_level)

declare fold_root.simps [simp del]

lemma fold_root_root_level: "level \<noteq> [] \<Longrightarrow> fold_root c level = Some (root_level c level)"
proof (induction c level rule: fold_root.induct)
  case (1 c level)
  show ?case
  proof (cases "1 < length level")
    case True
    then have "reduce_level c level \<noteq> []"
      using length_reduce_level [of c level] by auto
    with 1 True show ?thesis
      by (simp add: fold_root.simps [of c level] root_level.simps [of c level] fold_level_reduce)
  next
    case False
    with 1 show ?thesis
      by (cases level) (simp_all add: fold_root.simps root_level.simps)
  qed
qed

definition finalize_hasher :: "crypto \<Rightarrow> blob_hasher \<Rightarrow> js_fault + blob_hasher" where
  "finalize_hasher c h =
     (if bh_finished h then Inl (js_msg ''hasher already finalized'')
      else
        let h1 = (if bh_pending h \<noteq> []
                  then h\<lparr> bh_leaves := bh_leaves h @ [leaf_hash c (bh_pending h)], bh_pending := [] \<rparr>
                  else h);
            level = bh_leaves h1
        in Inr (h1\<lparr> bh_root := (if level = [] then None else fold_root c level), bh_finished := True \<rparr>))"

definition id_hex :: "crypto \<Rightarrow> blob_hasher \<Rightarrow> js_fault + bytes" where
  "id_hex c h =
     (if \<not> bh_finished h then Inl (js_msg ''call finalize first'')
      else Inr (hex_of (blake3 c (bh_hasher h))))"

definition hasher_n_chunks :: "blob_hasher \<Rightarrow> 32 word" where
  "hasher_n_chunks h = word_of_nat (length (bh_leaves h))"

definition chunk_root_hex :: "blob_hasher \<Rightarrow> js_fault + bytes option" where
  "chunk_root_hex h =
     (if \<not> bh_finished h then Inl (js_msg ''call finalize first'')
      else Inr (map_option hex_of (bh_root h)))"

section \<open>The invariant\<close>

text \<open>After feeding \<open>data\<close>: the leaves are those of the full chunks of \<open>data\<close>, \<open>pending\<close> is the rest.\<close>

definition feed_ok :: "crypto \<Rightarrow> bytes \<Rightarrow> bytes list \<Rightarrow> bytes \<Rightarrow> bool" where
  "feed_ok c data leaves pending \<longleftrightarrow>
     length pending < CHUNK_SIZE
     \<and> (\<exists>full. data = full @ pending \<and> leaves = map (leaf_hash c) (chunks CHUNK_SIZE full)
          \<and> length full mod CHUNK_SIZE = 0)"

lemma CHUNK_SIZE_pos [simp]: "0 < CHUNK_SIZE" "CHUNK_SIZE \<noteq> 0"
  by (simp_all add: CHUNK_SIZE_def)

lemma chunks_append:
  "\<lbrakk>0 < n; length xs mod n = 0\<rbrakk> \<Longrightarrow> chunks n (xs @ ys) = chunks n xs @ chunks n ys"
proof (induction n xs rule: chunks.induct)
  case (1 n xs)
  show ?case
  proof (cases "xs = []")
    case False
    with 1 have le: "n \<le> length xs"
      by (metis length_0_conv mod_less not_le)
    moreover from 1 le have "length (drop n xs) mod n = 0"
      by (simp add: mod_if)
    ultimately show ?thesis
      using 1 False by (simp add: chunks_nonempty)
  qed simp
qed

lemma feed_returns:
  assumes "feed_ok c data leaves pending"
  shows "\<exists>leaves' pending'. feed c leaves pending rest = Some (leaves', pending')
    \<and> feed_ok c (data @ rest) leaves' pending'"
  using assms
proof (induction "length rest" arbitrary: data leaves pending rest rule: less_induct)
  case less
  show ?case
  proof (cases "rest = []")
    case True
    with less.prems show ?thesis
      by (simp add: feed.simps)
  next
    case False
    let ?n = "min (CHUNK_SIZE - length pending) (length rest)"
    let ?p = "pending @ take ?n rest"
    from less.prems have pend: "length pending < CHUNK_SIZE"
      by (simp add: feed_ok_def)
    with False have n: "0 < ?n" "length (drop ?n rest) < length rest"
      by simp_all
    from less.prems obtain full where full: "data = full @ pending"
        "leaves = map (leaf_hash c) (chunks CHUNK_SIZE full)" "length full mod CHUNK_SIZE = 0"
      by (auto simp: feed_ok_def)
    have lenp: "length ?p = length pending + ?n"
      by simp
    show ?thesis
    proof (cases "length ?p = CHUNK_SIZE")
      case True
      have "feed_ok c (data @ take ?n rest) (leaves @ [leaf_hash c ?p]) []"
      proof -
        have "chunks CHUNK_SIZE ?p = [?p]"
          using chunks_nonempty [of CHUNK_SIZE ?p] True by simp
        then have "leaves @ [leaf_hash c ?p] = map (leaf_hash c) (chunks CHUNK_SIZE (full @ ?p))"
          using full by (simp add: chunks_append)
        moreover have "length (full @ ?p) mod CHUNK_SIZE = 0"
          using full(3) True by (simp only: length_append [of full]) simp
        ultimately show ?thesis
          using full(1) unfolding feed_ok_def by (intro conjI exI [of _ "full @ ?p"]) simp_all
      qed
      from less.hyps [OF n(2) this] show ?thesis
        using False True by (subst feed.simps) (simp add: Let_def)
    next
      case neq: False
      have "feed_ok c (data @ take ?n rest) leaves ?p"
        using full neq lenp pend unfolding feed_ok_def
        by (intro conjI exI [of _ full]) simp_all
      from less.hyps [OF n(2) this] show ?thesis
        using False neq by (subst feed.simps) (simp add: Let_def)
    qed
  qed
qed

definition blob_hasher_ok :: "crypto \<Rightarrow> bytes \<Rightarrow> blob_hasher \<Rightarrow> bool" where
  "blob_hasher_ok c data h \<longleftrightarrow>
     \<not> bh_finished h \<and> bh_hasher h = data \<and> bh_size h = word_of_nat (length data)
     \<and> feed_ok c data (bh_leaves h) (bh_pending h)"

lemma blob_hasher_ok_new: "blob_hasher_ok c [] blob_hasher_new"
  by (simp add: blob_hasher_ok_def blob_hasher_new_def feed_ok_def)

lemma update_hasher_ok:
  assumes "blob_hasher_ok c data h"
  shows "\<exists>h'. update_hasher c bytes h = Some (Inr h') \<and> blob_hasher_ok c (data @ bytes) h'"
proof -
  from assms obtain leaves pending where "feed c (bh_leaves h) (bh_pending h) bytes = Some (leaves, pending)"
      "feed_ok c (data @ bytes) leaves pending"
    using feed_returns unfolding blob_hasher_ok_def by blast
  with assms show ?thesis
    by (simp add: update_hasher_def blob_hasher_ok_def)
qed

text \<open>What \<open>finalize\<close> leaves behind is the kernel's result for the whole blob.\<close>

lemma feed_ok_leaves:
  assumes "feed_ok c data leaves pending"
  shows "(if pending \<noteq> [] then leaves @ [leaf_hash c pending] else leaves)
    = map (leaf_hash c) (chunks CHUNK_SIZE data)"
  using assms by (auto simp: feed_ok_def chunks_append chunks_short)

lemma finalize_hasher_ok:
  assumes "blob_hasher_ok c data h"
  shows "\<exists>h'. finalize_hasher c h = Inr h' \<and> bh_finished h' \<and> bh_hasher h' = data \<and> bh_pending h' = []
    \<and> bh_size h' = word_of_nat (length data)
    \<and> bh_leaves h' = ct_leaves (chunk_tree_from_bytes c data)
    \<and> bh_root h' = chunk_tree_root c (chunk_tree_from_bytes c data)"
proof -
  from assms have ok: "\<not> bh_finished h" "bh_hasher h = data" "bh_size h = word_of_nat (length data)"
      "feed_ok c data (bh_leaves h) (bh_pending h)"
    by (simp_all add: blob_hasher_ok_def)
  note leaves = feed_ok_leaves [OF ok(4)]
  show ?thesis
    using ok(1-3) leaves
    by (cases "bh_pending h = []")
      (auto simp: finalize_hasher_def Let_def chunk_tree_from_bytes_def chunk_tree_root_def fold_root_root_level)
qed

section \<open>Feeding a stream\<close>

text \<open>A caller's loop: the pieces in order, stopping at the first error.\<close>

fun update_all :: "crypto \<Rightarrow> bytes list \<Rightarrow> blob_hasher \<Rightarrow> (js_fault + blob_hasher) option" where
  "update_all c [] h = Some (Inr h)"
| "update_all c (piece # pieces) h =
     (case update_hasher c piece h of
        Some (Inr h') \<Rightarrow> update_all c pieces h'
      | r \<Rightarrow> r)"

lemma update_all_ok:
  "blob_hasher_ok c data h \<Longrightarrow>
   \<exists>h'. update_all c pieces h = Some (Inr h') \<and> blob_hasher_ok c (data @ concat pieces) h'"
proof (induction pieces arbitrary: data h)
  case (Cons piece pieces)
  from update_hasher_ok [OF Cons.prems, of piece] obtain h1 where
      h1: "update_hasher c piece h = Some (Inr h1)" "blob_hasher_ok c (data @ piece) h1"
    by blast
  from Cons.IH [OF h1(2)] show ?case
    by (simp add: h1)
qed simp

text \<open>C6. The incremental hasher is the kernel's hash. However a stream is cut into pieces, feeding them
  and finalizing returns, and gives the id, the chunk count, the size and the chunk root that the
  kernel computes of the whole blob in memory; reading a result before \<open>finalize\<close>, and feeding or
  finalizing after it, is refused.\<close>

theorem incremental_hasher_is_kernel_hash:
  "\<exists>h h'. update_all c pieces blob_hasher_new = Some (Inr h) \<and> finalize_hasher c h = Inr h'
     \<and> id_hex c h' = Inr (hex_of (blob_id_bytes (hash_blob c (concat pieces))))
     \<and> chunk_root_hex h' = Inr (map_option hex_of (chunk_tree_root c (chunk_tree_from_bytes c (concat pieces))))
     \<and> hasher_n_chunks h' = word_of_nat (n_chunks (chunk_tree_from_bytes c (concat pieces)))
     \<and> bh_size h' = ct_size (chunk_tree_from_bytes c (concat pieces))
     \<and> update_hasher c piece h' = Some (Inl (js_msg ''hasher already finalized''))
     \<and> finalize_hasher c h' = Inl (js_msg ''hasher already finalized'')
     \<and> id_hex c h = Inl (js_msg ''call finalize first'') \<and> chunk_root_hex h = Inl (js_msg ''call finalize first'')"
proof -
  from update_all_ok [OF blob_hasher_ok_new, of c pieces] obtain h where
      h: "update_all c pieces blob_hasher_new = Some (Inr h)" "blob_hasher_ok c (concat pieces) h"
    by auto
  from finalize_hasher_ok [OF h(2)] obtain h' where
      h': "finalize_hasher c h = Inr h'" "bh_finished h'" "bh_hasher h' = concat pieces"
        "bh_size h' = word_of_nat (length (concat pieces))"
        "bh_leaves h' = ct_leaves (chunk_tree_from_bytes c (concat pieces))"
        "bh_root h' = chunk_tree_root c (chunk_tree_from_bytes c (concat pieces))"
    by blast
  have fresh: "\<not> bh_finished h"
    using h(2) by (simp add: blob_hasher_ok_def)
  show ?thesis
  proof (intro exI conjI)
    show "update_all c pieces blob_hasher_new = Some (Inr h)" by (rule h(1))
    show "finalize_hasher c h = Inr h'" by (rule h'(1))
  qed (use h' fresh in \<open>simp_all add: id_hex_def chunk_root_hex_def hasher_n_chunks_def n_chunks_def
    hash_blob_def update_hasher_def finalize_hasher_def chunk_tree_from_bytes_def\<close>)
qed

end
