(* ===== verification/WasmBindings.thy ===== *)
theory WasmBindings
  imports WasmHasher IdentitySpec Kinds
begin

text \<open>
  The other bindings of \<open>crates/evermesh-wasm/src/lib.rs\<close>: records, keypairs, identity chains,
  derivation statements and chunk proofs over plain byte buffers and JSON strings.

  What JavaScript passes in is already a Rust value here: a \<open>Uint8Array\<close> is its bytes, a string its
  UTF-8 bytes, \<open>observed\<close> the entries of the object with each value that is a number cast to \<open>i64\<close>, and
  \<open>None\<close> for \<open>undefined\<close> or \<open>null\<close>.  \<open>rng\<close> is what the host's randomness gave, \<open>dbg\<close> Rust's debug
  formatting of a value.
\<close>

type_synonym u32 = "32 word"

section \<open>Records\<close>

definition take32 :: "bytes \<Rightarrow> string \<Rightarrow> js_fault + bytes" where
  "take32 bytes what =
     (if length bytes = 32 then Inr bytes
      else Inl (JsError (str what @ str '' must be exactly 32 bytes'')))"

definition wasm_record_id :: "crypto \<Rightarrow> bytes \<Rightarrow> js_fault + bytes" where
  "wasm_record_id c record =
     and_then (js (record_from_cbor record)) (\<lambda>r.
     and_then (js_of_fault (record_id_of c r)) (\<lambda>i. Inr (record_id_bytes i)))"

definition verify_record :: "crypto \<Rightarrow> bytes \<Rightarrow> js_fault + unit" where
  "verify_record c record =
     and_then (js (record_from_cbor record)) (\<lambda>r. js_of_fault (verify c r))"

definition validate_kind :: "crypto \<Rightarrow> bytes \<Rightarrow> js_fault + unit" where
  "validate_kind c record =
     and_then (js (record_from_cbor record)) (\<lambda>r. js (validate c r))"

definition wasm_record_to_json :: "(val \<Rightarrow> bytes) \<Rightarrow> bytes \<Rightarrow> js_fault + bytes" where
  "wasm_record_to_json dbg record =
     and_then (js (record_from_cbor record)) (\<lambda>r. Inr (record_to_json dbg r))"

definition wasm_record_from_json :: "bytes \<Rightarrow> js_fault + bytes" where
  "wasm_record_from_json json =
     and_then (js (record_from_json json)) (\<lambda>r. js_of_fault (to_canonical_cbor r))"

section \<open>Keypairs\<close>

record wasm_keypair =
  wk_inner :: keypair

definition wasm_generate :: "bytes option \<Rightarrow> js_fault + wasm_keypair" where
  "wasm_generate rng = and_then (js (generate rng)) (\<lambda>kp. Inr \<lparr> wk_inner = kp \<rparr>)"

definition wasm_from_secret :: "bytes \<Rightarrow> js_fault + wasm_keypair" where
  "wasm_from_secret secret =
     and_then (take32 secret ''secret'') (\<lambda>secret. Inr \<lparr> wk_inner = from_secret_bytes secret \<rparr>)"

definition wasm_public_key :: "crypto \<Rightarrow> wasm_keypair \<Rightarrow> bytes" where
  "wasm_public_key c kp = public_key_bytes c (wk_inner kp)"

definition wasm_secret :: "wasm_keypair \<Rightarrow> bytes" where
  "wasm_secret kp = secret_bytes (wk_inner kp)"

section \<open>Building records\<close>

definition ref_of_json :: "val \<Rightarrow> js_fault + eref" where
  "ref_of_json e =
     and_then (ok_or (as_array e) (js_msg ''each ref must be [type, hash]'')) (\<lambda>pair.
     if length pair \<noteq> 2 then Inl (js_msg ''each ref must be [type, hash]'')
     else and_then (ok_or (as_u64 (pair ! 0)) (js_msg ''ref type must be 0 or 1'')) (\<lambda>ty.
     if 1 < ty then Inl (js_msg ''ref type must be 0 or 1'')
     else and_then (ok_or (as_bytes (pair ! 1)) (js_msg ''ref hash must be hex bytes'')) (\<lambda>hash.
     and_then (take32 hash ''ref hash'') (\<lambda>hash. Inr \<lparr> ref_type = ty, ref_hash = hash \<rparr>))))"

definition build_record ::
  "crypto \<Rightarrow> wasm_keypair \<Rightarrow> bytes \<Rightarrow> u32 \<Rightarrow> i64 \<Rightarrow> bytes \<Rightarrow> bytes \<Rightarrow> js_fault + bytes" where
  "build_record c kp identity_id kind created_at refs_json body_json =
     and_then (take32 identity_id ''identity_id'') (\<lambda>ident.
     and_then (js (from_json refs_json)) (\<lambda>refs_value.
     and_then (ok_or (as_array refs_value) (js_msg ''refs must be a JSON array'')) (\<lambda>refs_arr.
     and_then (try_map ref_of_json refs_arr) (\<lambda>refs.
     and_then (js (from_json body_json)) (\<lambda>body.
     let builder = builder_body body (builder_refs refs (builder_created_at created_at (builder_new (ucast kind)))) in
     and_then (js_of_fault (sign_as c builder (wk_inner kp) (IdentityId ident))) (\<lambda>record.
     js_of_fault (to_canonical_cbor record)))))))"

section \<open>Identities\<close>

definition recovery_of_json :: "val \<Rightarrow> js_fault + alg_key" where
  "recovery_of_json e =
     and_then (ok_or (as_array e) (js_msg ''each recovery entry must be [alg, key]'')) (\<lambda>pair.
     if length pair \<noteq> 2 then Inl (js_msg ''each recovery entry must be [alg, key]'')
     else and_then (ok_or (as_u64 (pair ! 0)) (js_msg ''recovery alg must be a number'')) (\<lambda>alg.
     and_then (ok_or (as_bytes (pair ! 1)) (js_msg ''recovery key must be hex bytes'')) (\<lambda>key.
     Inr (alg, key))))"

definition parse_recovery :: "bytes \<Rightarrow> js_fault + alg_key list" where
  "parse_recovery json =
     and_then (js (from_json json)) (\<lambda>v.
     and_then (ok_or (as_array v) (js_msg ''recovery must be a JSON array'')) (\<lambda>arr.
     try_map recovery_of_json arr))"

definition genesis_record ::
  "crypto \<Rightarrow> wasm_keypair \<Rightarrow> bytes \<Rightarrow> u32 \<Rightarrow> i64 \<Rightarrow> js_fault + bytes" where
  "genesis_record c kp recovery_json contest_window created_at =
     and_then (parse_recovery recovery_json) (\<lambda>recovery.
     and_then (js_of_fault (genesis c (wk_inner kp) recovery (ucast contest_window) created_at)) (\<lambda>(_, record).
     js_of_fault (to_canonical_cbor record)))"

definition rotate_record ::
  "crypto \<Rightarrow> wasm_keypair \<Rightarrow> bytes \<Rightarrow> bytes \<Rightarrow> bytes \<Rightarrow> u32 \<Rightarrow> bytes \<Rightarrow> u32 \<Rightarrow> i64 \<Rightarrow> js_fault + bytes" where
  "rotate_record c signer identity_id prev_rotation_id new_key new_key_alg recovery_json contest_window created_at =
     and_then (parse_recovery recovery_json) (\<lambda>recovery.
     and_then (take32 identity_id ''identity_id'') (\<lambda>ident.
     and_then (take32 prev_rotation_id ''prev_rotation_id'') (\<lambda>prev.
     and_then (js_of_fault (rotate c (IdentityId ident) (RecordId prev) new_key (ucast new_key_alg) recovery
                 (ucast contest_window) created_at (wk_inner signer))) (\<lambda>record.
     js_of_fault (to_canonical_cbor record)))))"

text \<open>The map of first sightings: later entries win, values that are no number are left out.\<close>

fun observed_map :: "(bytes \<times> i64 option) list \<Rightarrow> (bytes \<Rightarrow> i64 option) \<Rightarrow> (bytes \<Rightarrow> i64 option)" where
  "observed_map [] m = m"
| "observed_map ((k, Some v) # es) m = observed_map es (m(k \<mapsto> v))"
| "observed_map ((k, None) # es) m = observed_map es m"

definition join :: "bytes \<Rightarrow> bytes list \<Rightarrow> bytes" where
  "join sep parts = (case parts of [] \<Rightarrow> [] | p # ps \<Rightarrow> p @ concat (map (\<lambda>q. sep @ q) ps))"

definition recovery_to_json :: "alg_key \<Rightarrow> bytes" where
  "recovery_to_json = (\<lambda>(alg, key). c_lbracket @ nat_decimal (unat alg) @ c_comma @ c_quote @ str ''hex:''
     @ hex_of key @ c_quote @ c_rbracket)"

definition json_member :: "string \<Rightarrow> bytes \<Rightarrow> bytes" where
  "json_member name v = c_quote @ str name @ c_quote @ c_colon @ v"

definition json_hex :: "bytes \<Rightarrow> bytes" where
  "json_hex h = c_quote @ str ''hex:'' @ h @ c_quote"

definition state_to_json :: "identity_state \<Rightarrow> bytes" where
  "state_to_json st =
     c_lbrace @ json_member ''identity_id'' (json_hex (id_to_hex (identity_id_bytes (st_identity_id st))))
     @ c_comma @ json_member ''signing_key'' (json_hex (hex_of (st_signing_key st)))
     @ c_comma @ json_member ''key_alg'' (nat_decimal (unat (st_key_alg st)))
     @ c_comma @ json_member ''recovery''
         (c_lbracket @ join c_comma (map recovery_to_json (st_recovery st)) @ c_rbracket)
     @ c_comma @ json_member ''contest_window'' (nat_decimal (unat (st_contest_window st)))
     @ c_comma @ json_member ''head'' (json_hex (id_to_hex (record_id_bytes (st_head st))))
     @ c_comma @ json_member ''depth'' (nat_decimal (unat (st_depth st))) @ c_rbrace"

definition wasm_verify_chain ::
  "crypto \<Rightarrow> bytes list \<Rightarrow> i64 \<Rightarrow> (bytes \<times> i64 option) list option \<Rightarrow> (js_fault + bytes) option" where
  "wasm_verify_chain c records now observed =
     (case try_map (\<lambda>bytes. js (record_from_cbor bytes)) records of
        Inl e \<Rightarrow> Some (Inl e)
      | Inr parsed \<Rightarrow>
          (let m = (case observed of None \<Rightarrow> (\<lambda>_. None) | Some es \<Rightarrow> observed_map es (\<lambda>_. None));
               observed_at = (\<lambda>i. m (id_to_hex (record_id_bytes i)))
           in map_option (\<lambda>r. and_then (js_of_fault r) (\<lambda>st. Inr (state_to_json st)))
                (verify_chain c parsed observed_at now)))"

section \<open>Blobs\<close>

definition wasm_hash_blob :: "crypto \<Rightarrow> bytes \<Rightarrow> bytes" where
  "wasm_hash_blob c bytes = blob_id_bytes (hash_blob c bytes)"

definition sign_derivation ::
  "crypto \<Rightarrow> wasm_keypair \<Rightarrow> bytes \<Rightarrow> bytes \<Rightarrow> bytes \<Rightarrow> u32 option \<Rightarrow> u32 option \<Rightarrow> u32 \<Rightarrow> js_fault + bytes" where
  "sign_derivation c kp original rendition codec width height bitrate =
     (if (width \<noteq> None) \<noteq> (height \<noteq> None)
      then Inl (js_msg ''width and height must be both present or both absent'')
      else and_then (take32 original ''original blob id'') (\<lambda>orig.
        and_then (take32 rendition ''rendition blob id'') (\<lambda>rend.
        and_then (js (derivation_statement (BlobId orig) (BlobId rend) codec
                        (map_option ucast width) (map_option ucast height) (ucast bitrate))) (\<lambda>stmt.
        let digest = blake3 c stmt;
            msg = DERIVATION_SIG_PREFIX @ digest
        in Inr (sign c (wk_inner kp) msg)))))"

definition wasm_verify_chunk :: "crypto \<Rightarrow> bytes \<Rightarrow> u32 \<Rightarrow> u32 \<Rightarrow> bytes \<Rightarrow> bytes \<Rightarrow> js_fault + unit" where
  "wasm_verify_chunk c root n index chunk proof =
     and_then (take32 root ''root'') (\<lambda>root.
     if length proof mod 32 \<noteq> 0 then Inl (js_msg ''proof must be a concatenation of 32-byte hashes'')
     else js (verify_chunk c root (unat n) (unat index) chunk (chunks 32 proof)))"

end
