(* ===== verification/WasmSpec.thy ===== *)
theory WasmSpec
  imports WasmBindings KindsSpec
begin

text \<open>
  What the bindings promise on top of the kernel: no input makes them trap; what they build, the
  bindings (and so the kernel) accept; proofs and records cross the boundary unchanged.
\<close>

section \<open>No input traps\<close>

definition traps :: "js_fault + 'a \<Rightarrow> bool" where
  "traps r \<longleftrightarrow> (case r of Inl (Trap m) \<Rightarrow> True | _ \<Rightarrow> False)"

lemma traps_simps [simp]:
  "traps (Inl (Trap m)) = True" "traps (Inl (JsError e)) = False" "traps (Inr x) = False"
  "traps (Inl (js_msg m')) = False" "\<not> traps (js q)" "\<not> traps (Inl (js_err ke))"
  by (simp_all add: traps_def js_msg_def js_err_def js_def split: sum.split)

lemma traps_and_then [simp]: "traps (and_then r f) \<longleftrightarrow> traps r \<or> (\<exists>x. r = Inr x \<and> traps (f x))"
  by (cases r) (auto simp: traps_def split: js_fault.splits)

lemma traps_if [simp]: "traps (if b then r else q) \<longleftrightarrow> (if b then traps r else traps q)"
  by simp

lemma traps_ok_or [simp]: "\<not> traps (ok_or x (js_msg m))"
  by (cases x) simp_all

lemma traps_take32 [simp]: "\<not> traps (take32 bytes what)"
  by (simp add: take32_def)

lemma traps_try_map [simp]: "(\<And>x. \<not> traps (f x)) \<Longrightarrow> \<not> traps (try_map f xs)"
  by (induction xs) simp_all

lemma traps_js_of_fault [simp]: "traps (js_of_fault r) \<longleftrightarrow> (\<exists>m. r = Inl (Panic m))"
  by (auto simp: js_of_fault_def js_err_def split: sum.split fault.split)

text \<open>The parsed records are well formed, and the kernel does not panic on those.\<close>

lemma parsed_wf: "js (record_from_cbor bytes) = Inr r \<Longrightarrow> wf_record r"
  by (auto simp: result_simps dest: record_from_cborD)

lemma verify_wf_no_panic: "wf_record r \<Longrightarrow> verify c r \<noteq> Inl (Panic m)"
  by (simp add: verify_def Let_def record_id_of_wf)

lemma records_never_trap:
  "\<not> traps (wasm_record_id c bytes)" "\<not> traps (verify_record c bytes)" "\<not> traps (validate_kind c bytes)"
  "\<not> traps (wasm_record_to_json dbg bytes)" "\<not> traps (wasm_record_from_json json)"
  unfolding wasm_record_id_def verify_record_def validate_kind_def wasm_record_to_json_def wasm_record_from_json_def
  by (auto simp: record_id_of_wf verify_wf_no_panic to_canonical_cbor_wf result_simps
      dest!: record_from_cborD(1) elim!: record_from_jsonD)

lemma signed_no_panic:
  assumes "sign_as c b kp i = Inr r"
  shows "to_canonical_cbor r \<noteq> Inl f" and "record_id_of c r \<noteq> Inl f"
proof -
  from assms have "is_ok (encode_canonical (b_body b))" and r: "r = signed_record c b kp i"
    by (simp_all add: sign_as_cases split: if_splits)
  then have "is_ok (encode_canonical (record_to_value r s))" for s
    by (simp add: record_encodes_iff signed_record_def unsigned_record_def Let_def encode_into_canonical)
  from this [of True] this [of False] show "to_canonical_cbor r \<noteq> Inl f" "record_id_of c r \<noteq> Inl f"
    by (auto simp: to_canonical_cbor_def record_id_of_def is_ok_iff)
qed

lemma sign_as_no_panic: "sign_as c b kp i \<noteq> Inl (Panic m)"
  by (simp add: sign_as_cases)

lemma traps_entries [simp]: "\<not> traps (ref_of_json e)" "\<not> traps (recovery_of_json e)" "\<not> traps (parse_recovery json)"
  by (simp_all add: ref_of_json_def recovery_of_json_def parse_recovery_def)

lemma builders_never_trap:
  "\<not> traps (build_record c kp ident kind t refs_json body_json)"
  "\<not> traps (genesis_record c kp recovery_json w t)"
  "\<not> traps (rotate_record c kp ident prev key alg recovery_json w t)"
  by (auto simp: build_record_def genesis_record_def rotate_record_def genesis_def rotate_def Let_def
      result_simps sign_as_no_panic signed_no_panic)

lemma keys_and_proofs_never_trap:
  "\<not> traps (wasm_generate rng)" "\<not> traps (wasm_from_secret secret)"
  "\<not> traps (sign_derivation c kp original rendition codec width height bitrate)"
  "\<not> traps (wasm_verify_chunk c root n index chunk proof)"
  by (simp_all add: wasm_generate_def wasm_from_secret_def sign_derivation_def wasm_verify_chunk_def Let_def)

text \<open>Nor does it on the chains of such records.\<close>

lemma verify_chain_no_panic:
  assumes wf: "list_all wf_record rs"
  shows "verify_chain c rs observed_at now \<noteq> Some (Inl (Panic m))"
proof
  assume q: "verify_chain c rs observed_at now = Some (Inl (Panic m))"
  then obtain g where g: "geneses c rs = [g]"
    by (auto simp: verify_chain_wf [OF wf] split: list.splits)
  let ?st = "genesis_state (rid c g) (projr (rotation_body_parse g))"
  have id: "st_identity_id ?st = IdentityId (record_id_bytes (rid c g))"
    by (simp add: genesis_state_def)
  from q g have "walk c observed_at now (child_table c (st_identity_id ?st) rs) ?st = Some (Inl (Panic m))"
    unfolding id by (simp add: verify_chain_wf [OF wf])
  from walk_maximal [OF wf this] show False
    by auto
qed

lemma chain_never_traps:
  assumes "wasm_verify_chain c records now observed = Some r"
  shows "\<not> traps r"
proof (cases "try_map (\<lambda>bytes. js (record_from_cbor bytes)) records")
  case (Inl e)
  have "\<not> traps (try_map (\<lambda>bytes. js (record_from_cbor bytes)) records)"
    by simp
  with assms Inl show ?thesis
    by (cases e) (auto simp: wasm_verify_chain_def)
next
  case (Inr parsed)
  then have "list_all wf_record parsed"
    by (auto simp: result_simps list_all_length list_all2_conv_all_nth dest!: record_from_cborD(1))
  from verify_chain_no_panic [OF this] assms Inr show ?thesis
    by (auto simp: wasm_verify_chain_def Let_def)
qed

section \<open>What is built is accepted\<close>

lemma texts_valid_json_ok: "json_ok v \<Longrightarrow> texts_valid v"
proof (induction v rule: val_induct)
  case (Map es)
  have "json_key k \<Longrightarrow> texts_valid k" for k
    by (cases k) simp_all
  with Map show ?case
    by (auto simp: list_all_iff)
qed (auto simp: list_all_iff)

lemma ref_of_json_wf: "ref_of_json e = Inr r \<Longrightarrow> wf_ref r"
  by (auto simp: result_simps ref_of_json_def take32_def wf_ref_def not_less split: if_splits)

lemma refs_of_json: "try_map ref_of_json arr = Inr refs \<Longrightarrow> list_all wf_ref refs"
  by (auto simp: result_simps list_all_length list_all2_conv_all_nth dest: ref_of_json_wf)

text \<open>
  A record that \<open>buildRecord\<close> returns is, within the decoder's limits, one that \<open>verifyRecord\<close> accepts,
  with the kind, time and refs it was called with; its author key is the keypair's.
\<close>

lemma built_record_verifies:
  assumes "crypto_laws c" and "keypair_ok (wk_inner kp)"
    and "build_record c kp ident kind t refs_json body_json = Inr bytes"
    and "utf8_valid body_json" and "addressable bytes"
    and "\<And>body. from_json body_json = Inr body \<Longrightarrow> vdepth body < 64"
  shows "\<exists>r. record_from_cbor bytes = Inr r \<and> verify_record c bytes = Inr ()
    \<and> r_kind r = ucast kind \<and> r_created_at r = t
    \<and> r_author r = \<lparr> author_id = IdentityId ident, author_key = wasm_public_key c kp \<rparr>
    \<and> (\<exists>body. from_json body_json = Inr body \<and> r_body r = into_canonical body)"
proof -
  let ?b = "\<lambda>refs body. builder_body body (builder_refs refs (builder_created_at t (builder_new (ucast kind))))"
  from assms(3) obtain arr refs body r where
      parts: "length ident = 32" "try_map ref_of_json arr = Inr refs" "from_json body_json = Inr body"
    and signed: "sign_as c (?b refs body) (wk_inner kp) (IdentityId ident) = Inr r"
    and wire: "to_canonical_cbor r = Inr bytes"
    unfolding build_record_def take32_def Let_def by (simp add: result_simps split: if_splits) blast
  from signed have map: "as_map body \<noteq> None" and ok: "is_ok (encode_canonical body)"
      and r: "r = signed_record c (?b refs body) (wk_inner kp) (IdentityId ident)"
    by (simp_all add: sign_as_cases builder_body_def split: if_splits)
  have b: "b_body (?b refs body) = body" "b_refs (?b refs body) = refs" "b_kind (?b refs body) = ucast kind"
      "b_created_at (?b refs body) = t"
    by (simp_all add: builder_body_def builder_refs_def builder_created_at_def builder_new_def)
  have texts: "texts_valid body"
    using from_json_ok [OF parts(3) assms(4)] texts_valid_json_ok by blast
  have wf: "wf_record r"
    unfolding r using map ok texts refs_of_json [OF parts(2)] parts(1)
    by (intro wf_signed_record) (simp_all add: b)
  have fields: "r_kind r = ucast kind" "r_created_at r = t" "r_body r = into_canonical body"
      "r_author r = \<lparr> author_id = IdentityId ident, author_key = wasm_public_key c kp \<rparr>"
    by (simp_all add: r signed_record_def unsigned_record_def Let_def b wasm_public_key_def)
  have "record_from_cbor bytes = Inr r"
    using wf fields(3) assms(6) [OF parts(3)] wire assms(5) by (intro read_back) simp_all
  moreover have "verify c r = Inr ()"
    unfolding r using assms(1,2) ok by (intro verify_signed_record) (simp_all add: b)
  ultimately show ?thesis
    using fields parts(3) by (auto simp: verify_record_def)
qed

text \<open>A signed derivation is one that the kernel verifies for the rendition it describes.\<close>

lemma sign_derivation_verifies:
  assumes "crypto_laws c" and "keypair_ok (wk_inner kp)"
    and "sign_derivation c kp original rendition codec width height bitrate = Inr sg"
    and "md_blob (rd_media rd) = BlobId rendition" and "md_codec (rd_media rd) = codec"
    and "md_width (rd_media rd) = map_option ucast width" and "md_height (rd_media rd) = map_option ucast height"
    and "rd_bitrate rd = ucast bitrate" and "snd (rd_produced_by rd) = wasm_public_key c kp"
    and "rd_derivation_sig rd = sg"
  shows "verify_derivation c rd (BlobId original) = Inr ()"
proof -
  from assms(3) obtain stmt where "derivation_statement (BlobId original) (BlobId rendition) codec
        (map_option ucast width) (map_option ucast height) (ucast bitrate) = Inr stmt"
      and "sg = sign c (wk_inner kp) (DERIVATION_SIG_PREFIX @ blake3 c stmt)"
    by (auto simp: sign_derivation_def take32_def Let_def result_simps split: if_splits)
  then show ?thesis
    using assms sign_ok [OF assms(1,2)]
    by (simp add: verify_derivation_def to_array32_def Let_def wasm_public_key_def)
qed

section \<open>What crosses the boundary\<close>

lemma secret_round_trip: "keypair_ok (wk_inner kp) \<Longrightarrow> wasm_from_secret (wasm_secret kp) = Inr kp"
  by (simp add: wasm_from_secret_def take32_def wasm_secret_def secret_bytes_def from_secret_bytes_def keypair_ok_def)

lemma chunks_concat: "\<lbrakk>0 < n; \<forall>x\<in>set xs. length x = n\<rbrakk> \<Longrightarrow> chunks n (concat xs) = xs"
  by (induction xs) (simp_all add: chunks_nonempty)

text \<open>A proof is passed as the concatenation of its hashes, and is the proof that the kernel checks.\<close>

lemma verify_chunk_agrees:
  assumes "length root = 32" and "\<forall>h\<in>set siblings. length h = 32"
  shows "wasm_verify_chunk c root n index chunk (concat siblings)
    = js (verify_chunk c root (unat n) (unat index) chunk siblings)"
proof -
  have "length (concat siblings) = 32 * length siblings"
    using assms(2) by (induction siblings) simp_all
  then show ?thesis
    using assms by (simp add: wasm_verify_chunk_def take32_def chunks_concat)
qed

lemma record_json_boundary:
  assumes "record_from_cbor bytes = Inr r" and "json_ok (r_body r)" and "addressable bytes"
  shows "and_then (wasm_record_to_json dbg bytes) wasm_record_from_json = Inr bytes"
proof -
  note r = record_from_cborD [OF assms(1)]
  have "record_from_json (record_to_json dbg r) = Inr r"
    using r assms by (intro record_json_round_trip) simp_all
  then show ?thesis
    using assms(1) r by (simp add: wasm_record_to_json_def wasm_record_from_json_def to_canonical_cbor_wf)
qed

end
