(* ===== verification/NodeVerify.thy ===== *)
theory NodeVerify
  imports KernelText BlobSpec Kinds
begin

text \<open>
  The checks of the desktop node, \<open>crates/evermesh-node/src/verify.rs\<close>: a record with its signature and
  kind, a manifest with the derivation signatures of its renditions, and a downloaded file against the
  blob id and chunk root that a manifest claims.

  A path is what \<open>File::open\<close> gives for it: the text of an I/O error, or a reader.  A panic of the
  kernel is a \<open>NodePanic\<close>; that the checks never panic is proved.
\<close>

section \<open>Errors as text\<close>

datatype node_fault = NodePanic string | NodeErr bytes

definition node_err :: "string \<Rightarrow> error + 'a \<Rightarrow> node_fault + 'a" where
  "node_err lead r = (case r of Inl e \<Rightarrow> Inl (NodeErr (str lead @ display_error e)) | Inr x \<Rightarrow> Inr x)"

definition node_fault_err :: "string \<Rightarrow> fault + 'a \<Rightarrow> node_fault + 'a" where
  "node_fault_err lead r =
     (case r of
        Inl (Panic m) \<Rightarrow> Inl (NodePanic m)
      | Inl (Err e) \<Rightarrow> Inl (NodeErr (str lead @ display_error e))
      | Inr x \<Rightarrow> Inr x)"

lemma node_err_simps [simp]:
  "node_err p (Inl e) = Inl (NodeErr (str p @ display_error e))" "node_err p (Inr x) = Inr x"
  "node_fault_err p (Inl (Panic m)) = Inl (NodePanic m)"
  "node_fault_err p (Inl (Err e)) = Inl (NodeErr (str p @ display_error e))"
  "node_fault_err p (Inr x) = Inr x"
  by (simp_all add: node_err_def node_fault_err_def)

lemma node_err_eq [result_simps]:
  "node_err p r = Inr x \<longleftrightarrow> r = Inr x" "node_fault_err p q = Inr x \<longleftrightarrow> q = Inr x"
  "node_err p r \<noteq> Inl (NodePanic m)" "node_fault_err p q = Inl (NodePanic m) \<longleftrightarrow> q = Inl (Panic m)"
  by (cases r; simp) (auto simp: node_err_def node_fault_err_def split: sum.splits fault.splits)

section \<open>Records\<close>

datatype verify_verdict =
    Verified (v_record_id: bytes) (v_short_id: bytes) (v_kind: u64) (v_kind_name: "bytes option")
  | VerdictFailed (v_reason: bytes)

text \<open>The early returns of \<open>verify_record_cbor\<close>: what failed, with its reason.\<close>

definition verify_record_cbor :: "crypto \<Rightarrow> bytes \<Rightarrow> fault + verify_verdict" where
  "verify_record_cbor c cbor =
     (case record_from_cbor cbor of
        Inl e \<Rightarrow> Inr (VerdictFailed (str ''malformed record envelope: '' @ display_error e))
      | Inr record \<Rightarrow>
          (case verify c record of
             Inl (Panic m) \<Rightarrow> Inl (Panic m)
           | Inl (Err e) \<Rightarrow> Inr (VerdictFailed (str ''signature verification failed: '' @ display_error e))
           | Inr _ \<Rightarrow>
               (case validate c record of
                  Inl e \<Rightarrow> Inr (VerdictFailed (str ''kind validation failed: '' @ display_error e))
                | Inr _ \<Rightarrow>
                    and_then (record_id_of c record) (\<lambda>i.
                      let hex = id_to_hex (record_id_bytes i)
                      in Inr (Verified hex (take 12 hex) (r_kind record)
                           (map_option str (kind_name (r_kind record))))))))"

definition verify_and_parse_manifest :: "crypto \<Rightarrow> bytes \<Rightarrow> node_fault + erecord \<times> manifest" where
  "verify_and_parse_manifest c cbor =
     and_then (node_err ''malformed record envelope: '' (record_from_cbor cbor)) (\<lambda>record.
     and_then (node_fault_err ''signature verification failed: '' (verify c record)) (\<lambda>_.
     if r_kind record \<noteq> KIND_MANIFEST
     then Inl (NodeErr (str ''record kind '' @ nat_decimal (unat (r_kind record))
            @ str '' is not a manifest (kind '' @ nat_decimal (unat KIND_MANIFEST) @ str '')''))
     else
       and_then (node_err ''manifest kind validation failed: '' (manifest_parse record)) (\<lambda>manifest.
       and_then (node_err ''rendition derivation signature invalid: ''
                   (try_map (\<lambda>rendition. verify_derivation c rendition (md_blob (mf_original manifest)))
                      (mf_renditions manifest))) (\<lambda>_.
       Inr (record, manifest)))))"

section \<open>Files\<close>

type_synonym opened_file = "bytes + read_event list"

definition rehash_blob_file :: "crypto \<Rightarrow> opened_file \<Rightarrow> bytes + blob_id" where
  "rehash_blob_file c opened =
     and_then opened (\<lambda>reader.
       case hash_stream c reader of Inl e \<Rightarrow> Inl (display_error e) | Inr (i, _) \<Rightarrow> Inr i)"

definition chunk_root_of_file :: "crypto \<Rightarrow> opened_file \<Rightarrow> bytes + bytes option" where
  "chunk_root_of_file c opened =
     and_then opened (\<lambda>reader.
       case chunk_tree_build c reader of
         Inl e \<Rightarrow> Inl (display_error e)
       | Inr tree \<Rightarrow> Inr (chunk_tree_root c tree))"

text \<open>The file is opened once to hash it and, if a chunk root is expected, once more.\<close>

definition verify_downloaded_blob ::
  "crypto \<Rightarrow> opened_file \<Rightarrow> opened_file \<Rightarrow> blob_id \<Rightarrow> bytes option \<Rightarrow> bytes + unit" where
  "verify_downloaded_blob c opened reopened expected_blob expected_chunk_root =
     (case rehash_blob_file c opened of
        Inl e \<Rightarrow> Inl (str ''could not re-hash downloaded file: '' @ e)
      | Inr actual \<Rightarrow>
          if actual \<noteq> expected_blob
          then Inl (str ''content-address mismatch: downloaded bytes hash to ''
                 @ id_to_hex (blob_id_bytes actual) @ str '', manifest claims ''
                 @ id_to_hex (blob_id_bytes expected_blob))
          else
            (case expected_chunk_root of
               None \<Rightarrow> Inr ()
             | Some expected_root \<Rightarrow>
                 (case chunk_root_of_file c reopened of
                    Inl e \<Rightarrow> Inl (str ''could not recompute chunk-tree root: '' @ e)
                  | Inr None \<Rightarrow>
                      Inl (str ''manifest declares a chunk_root but the downloaded file has zero chunks'')
                  | Inr (Some actual_root) \<Rightarrow>
                      if actual_root \<noteq> expected_root
                      then Inl (str (''chunk-tree root mismatch: downloaded bytes do not match ''
                             @ ''the manifest's chunk_root''))
                      else Inr ())))"

section \<open>What the checks establish\<close>

text \<open>A verdict always comes, and it is \<open>Verified\<close> exactly for what the kernel accepts.\<close>

lemma verify_no_panic: "wf_record r \<Longrightarrow> verify c r \<noteq> Inl (Panic m)"
  by (simp add: verify_def Let_def record_id_of_wf)

lemma verify_record_cbor_cases:
  "\<exists>v. verify_record_cbor c cbor = Inr v
    \<and> ((\<exists>r. record_from_cbor cbor = Inr r \<and> verify c r = Inr () \<and> validate c r = Inr ()
          \<and> v = (let hex = id_to_hex (blake3 c (keybuf (record_to_value r False)))
                 in Verified hex (take 12 hex) (r_kind r) (map_option str (kind_name (r_kind r)))))
       \<or> (\<exists>reason. v = VerdictFailed reason)
         \<and> \<not> (\<exists>r. record_from_cbor cbor = Inr r \<and> verify c r = Inr () \<and> validate c r = Inr ()))"
proof (cases "record_from_cbor cbor")
  case (Inr r)
  note wf = record_from_cborD(1) [OF Inr]
  show ?thesis
    using Inr verify_no_panic [OF wf, of c] record_id_of_wf [OF wf, of c]
    by (auto simp: verify_record_cbor_def Let_def split: sum.splits fault.splits)
qed (simp add: verify_record_cbor_def)

lemma verified_iff:
  "(\<exists>i s k n. verify_record_cbor c cbor = Inr (Verified i s k n))
    \<longleftrightarrow> (\<exists>r. record_from_cbor cbor = Inr r \<and> verify c r = Inr () \<and> validate c r = Inr ())"
  using verify_record_cbor_cases [of c cbor] by (auto simp: Let_def)

lemma manifest_no_panic: "verify_and_parse_manifest c cbor \<noteq> Inl (NodePanic m)"
proof
  assume "verify_and_parse_manifest c cbor = Inl (NodePanic m)"
  then show False
    by (cases "record_from_cbor cbor")
      (auto simp: verify_and_parse_manifest_def result_simps verify_no_panic and_then_def
        split: sum.splits if_splits dest!: record_from_cborD(1))
qed

text \<open>The manifest that is returned belongs to a record that the kernel's own validation accepts.\<close>

lemma try_map_units: "(\<exists>us. try_map f xs = Inr (us :: unit list)) \<longleftrightarrow> (\<forall>x\<in>set xs. f x = Inr ())"
proof (induction xs)
  case (Cons x xs)
  then show ?case
    by (cases "f x") (auto simp: result_simps)
qed simp

lemma verify_and_parse_manifest_iff:
  "verify_and_parse_manifest c cbor = Inr (r, m) \<longleftrightarrow>
     record_from_cbor cbor = Inr r \<and> verify c r = Inr () \<and> r_kind r = KIND_MANIFEST
     \<and> manifest_parse r = Inr m \<and> (\<forall>rd\<in>set (mf_renditions m). verify_derivation c rd (md_blob (mf_original m)) = Inr ())"
proof (cases "record_from_cbor cbor = Inr r \<and> verify c r = Inr () \<and> r_kind r = KIND_MANIFEST \<and> manifest_parse r = Inr m")
  case True
  show ?thesis
    using True try_map_units [of "\<lambda>rd. verify_derivation c rd (md_blob (mf_original m))" "mf_renditions m"]
    by (cases "try_map (\<lambda>rd. verify_derivation c rd (md_blob (mf_original m))) (mf_renditions m)")
      (auto simp: verify_and_parse_manifest_def)
next
  case False
  then show ?thesis
    by (auto simp: verify_and_parse_manifest_def and_then_eq_Inr node_err_eq split: if_splits)
qed

lemma manifest_validates:
  assumes "verify_and_parse_manifest c cbor = Inr (r, m)"
  shows "validate c r = Inr ()"
proof -
  from assms have r: "r_kind r = KIND_MANIFEST" "manifest_parse r = Inr m"
      "\<forall>rd\<in>set (mf_renditions m). verify_derivation c rd (md_blob (mf_original m)) = Inr ()"
    by (simp_all add: verify_and_parse_manifest_iff)
  then obtain us where "try_map (\<lambda>rd. verify_derivation c rd (md_blob (mf_original m))) (mf_renditions m) = Inr us"
    using try_map_units by blast
  then have "validate_manifest c r = Inr ()"
    using r by (simp add: validate_manifest_def)
  then show ?thesis
    using r(1) by (simp add: validate_def kind_defs)
qed

text \<open>
  What a file's reader delivers, however it is cut: what passes the check has the content that the
  manifest names, and what has it passes.
\<close>

lemma rehash_blob_file_live:
  assumes "live es"
  shows "rehash_blob_file c (Inr es) =
    (if Failed \<in> set es then Inl (display_error stream_error) else Inr (hash_blob c (delivered es)))"
  using hash_loop_live [OF assms] by (simp add: rehash_blob_file_def hash_stream_def hash_blob_def)

lemma chunk_root_of_file_live:
  assumes "live es"
  shows "chunk_root_of_file c (Inr es) =
    (if Failed \<in> set es then Inl (display_error stream_error)
     else Inr (chunk_tree_root c (chunk_tree_from_bytes c (delivered es))))"
  using build_loop_live [OF assms]
  by (simp add: chunk_root_of_file_def chunk_tree_build_def chunk_tree_from_bytes_def)

lemma verify_downloaded_blob_iff:
  assumes "live es" and "live es'"
  shows "verify_downloaded_blob c (Inr es) (Inr es') i root = Inr () \<longleftrightarrow>
    Failed \<notin> set es \<and> hash_blob c (delivered es) = i
    \<and> (case root of None \<Rightarrow> True
       | Some x \<Rightarrow> Failed \<notin> set es' \<and> chunk_tree_root c (chunk_tree_from_bytes c (delivered es')) = Some x)"
  using assms
  by (auto simp: verify_downloaded_blob_def rehash_blob_file_live chunk_root_of_file_live
      split: option.splits)

end
