(* ===== verification/NodeClient.thy ===== *)
theory NodeClient
  imports NodeVerify
begin

text \<open>
  The node's HTTP client for a gateway, \<open>crates/evermesh-node/src/gateway_client.rs\<close>: the check of the
  gateway's URL, the requests, and the download of a blob to a file.

  The URL parser (\<open>url\<close>), the HTTP library (\<open>reqwest\<close>), the JSON library (\<open>serde_json\<close>) and the
  file system are a record of functions: how a text parses, what a request for a URL is answered, how a
  body reads as a value of a named type (here its text), and what goes wrong.  One such \<open>world\<close> holds for
  one command, which asks for a URL at most once; the next command has its own.
\<close>

section \<open>The outside\<close>

record parsed_url =
  url_text :: bytes
  url_scheme :: bytes
  url_host :: "bytes option"
  url_origin :: bytes

text \<open>
  What happens while a body is written to a file: a piece arrives and is written, the transfer breaks
  off, or writing fails after part of a piece.
\<close>

datatype download_event = Piece bytes | TransferFails bytes | WriteFails bytes bytes

record http_response =
  hr_status :: nat
  hr_bytes :: "bytes + bytes"
  hr_text :: "bytes + bytes"
  hr_stream :: "download_event list"

record world =
  w_parse :: "bytes \<Rightarrow> parsed_url option"
  w_join :: "parsed_url \<Rightarrow> bytes \<Rightarrow> parsed_url option"
  w_send :: "bytes \<Rightarrow> bytes + http_response"
  w_error_message :: "bytes \<Rightarrow> bytes option"
  w_status_text :: "nat \<Rightarrow> bytes"
  w_json :: "string \<Rightarrow> bytes \<Rightarrow> bytes + bytes"
  w_debug :: "val \<Rightarrow> bytes"
  w_mkdir :: "bytes option"
  w_create :: "bytes option"
  w_open :: "nat \<Rightarrow> bytes option \<Rightarrow> opened_file"
  w_remove_ok :: bool
  w_sql :: "bytes option"
  w_now :: i64

text \<open>
  A file that opens is read completely or a read fails; a read that delivers nothing is the end of the
  file; a missing file does not open.
\<close>

definition world_ok :: "world \<Rightarrow> bool" where
  "world_ok w \<longleftrightarrow>
     (\<forall>k d es. w_open w k (Some d) = Inr es \<longrightarrow> live es \<and> (Failed \<notin> set es \<longrightarrow> delivered es = d))
     \<and> (\<forall>k es. w_open w k None \<noteq> Inr es)"

section \<open>Errors\<close>

datatype gateway_error =
    InvalidUrl bytes
  | Transport bytes
  | Api nat bytes
  | GatewayIo bytes

definition display_gateway_error :: "gateway_error \<Rightarrow> bytes" where
  "display_gateway_error e =
     (case e of
        InvalidUrl u \<Rightarrow> str ''invalid gateway URL: '' @ u
      | Transport m \<Rightarrow> str ''gateway request failed: '' @ m
      | Api status m \<Rightarrow> str ''gateway returned '' @ nat_decimal status @ str '': '' @ m
      | GatewayIo m \<Rightarrow> str ''local i/o error: '' @ m)"

section \<open>URLs\<close>

definition validate_base_url :: "world \<Rightarrow> bytes \<Rightarrow> gateway_error + parsed_url" where
  "validate_base_url w gateway_url =
     and_then (ok_or (w_parse w gateway_url) (InvalidUrl gateway_url)) (\<lambda>url.
     if url_scheme url \<noteq> str ''http'' \<and> url_scheme url \<noteq> str ''https'' then Inl (InvalidUrl gateway_url)
     else if url_host url = None then Inl (InvalidUrl gateway_url)
     else Inr url)"

text \<open>A client is the parsed URL it is bound to.\<close>

definition client_new :: "world \<Rightarrow> bytes \<Rightarrow> gateway_error + parsed_url" where
  "client_new w gateway_url = and_then (validate_base_url w gateway_url) (\<lambda>base. Inr base)"

definition client_origin :: "parsed_url \<Rightarrow> bytes" where
  "client_origin base = url_origin base"

definition client_url :: "world \<Rightarrow> parsed_url \<Rightarrow> bytes \<Rightarrow> parsed_url" where
  "client_url w base path = (case w_join w base path of Some u \<Rightarrow> u | None \<Rightarrow> base)"

definition client_resolve :: "world \<Rightarrow> parsed_url \<Rightarrow> bytes \<Rightarrow> bytes" where
  "client_resolve w base maybe_relative =
     (case w_parse w maybe_relative of
        Some absolute \<Rightarrow> url_text absolute
      | None \<Rightarrow> url_text (client_url w base maybe_relative))"

definition HEX_UPPER :: bytes where
  "HEX_UPPER = str ''0123456789ABCDEF''"

definition unreserved :: "u8 \<Rightarrow> bool" where
  "unreserved b \<longleftrightarrow> (0x41 \<le> b \<and> b \<le> 0x5A) \<or> (0x61 \<le> b \<and> b \<le> 0x7A) \<or> (0x30 \<le> b \<and> b \<le> 0x39)
     \<or> b = 0x2D \<or> b = 0x5F \<or> b = 0x2E \<or> b = 0x7E"

fun urlencode :: "bytes \<Rightarrow> bytes" where
  "urlencode [] = []"
| "urlencode (b # bs) =
     (if unreserved b then [b]
      else [0x25, HEX_UPPER ! unat (drop_bit 4 b), HEX_UPPER ! unat (b AND 0x0F)]) @ urlencode bs"

section \<open>Requests\<close>

definition is_success :: "nat \<Rightarrow> bool" where
  "is_success status \<longleftrightarrow> 200 \<le> status \<and> status < 300"

definition read_error_body :: "world \<Rightarrow> http_response \<Rightarrow> bytes" where
  "read_error_body w resp =
     (case hr_text resp of
        Inr body \<Rightarrow>
          (case w_error_message w body of
             Some m \<Rightarrow> m
           | None \<Rightarrow> if body = [] then w_status_text w (hr_status resp) else body)
      | Inl _ \<Rightarrow> w_status_text w (hr_status resp))"

definition http_get :: "world \<Rightarrow> bytes \<Rightarrow> gateway_error + http_response" where
  "http_get w url =
     (case w_send w url of
        Inl e \<Rightarrow> Inl (Transport e)
      | Inr resp \<Rightarrow>
          if \<not> is_success (hr_status resp) then Inl (Api (hr_status resp) (read_error_body w resp))
          else Inr resp)"

definition get_json :: "world \<Rightarrow> parsed_url \<Rightarrow> string \<Rightarrow> bytes \<Rightarrow> gateway_error + bytes" where
  "get_json w base type path =
     and_then (http_get w (url_text (client_url w base path))) (\<lambda>resp.
     case hr_bytes resp of
       Inl e \<Rightarrow> Inl (Transport e)
     | Inr body \<Rightarrow> (case w_json w type body of Inl e \<Rightarrow> Inl (Transport e) | Inr v \<Rightarrow> Inr v))"

definition catalog_path :: "bytes option \<Rightarrow> bytes option \<Rightarrow> bytes" where
  "catalog_path cursor media_kind =
     str ''/api/videos?limit=30''
     @ (case cursor of None \<Rightarrow> [] | Some s \<Rightarrow> str ''&cursor='' @ urlencode s)
     @ (case media_kind of None \<Rightarrow> [] | Some k \<Rightarrow> str ''&mediaKind='' @ urlencode k)"

definition list_videos :: "world \<Rightarrow> parsed_url \<Rightarrow> bytes option \<Rightarrow> bytes option \<Rightarrow> gateway_error + bytes" where
  "list_videos w base cursor media_kind = get_json w base ''CatalogPage'' (catalog_path cursor media_kind)"

definition get_video :: "world \<Rightarrow> parsed_url \<Rightarrow> bytes \<Rightarrow> gateway_error + bytes" where
  "get_video w base manifest_id =
     get_json w base ''VideoDetail'' (str ''/api/videos/'' @ urlencode manifest_id)"

definition get_playlist :: "world \<Rightarrow> parsed_url \<Rightarrow> bytes \<Rightarrow> gateway_error + bytes" where
  "get_playlist w base record_id =
     get_json w base ''PlaylistView'' (str ''/api/playlists/'' @ urlencode record_id)"

definition get_record_cbor :: "world \<Rightarrow> parsed_url \<Rightarrow> bytes \<Rightarrow> gateway_error + bytes" where
  "get_record_cbor w base record_id =
     and_then (http_get w (url_text (client_url w base
                 (str ''/api/records/'' @ urlencode record_id @ str ''/cbor'')))) (\<lambda>resp.
     case hr_bytes resp of Inl e \<Rightarrow> Inl (Transport e) | Inr bytes \<Rightarrow> Inr bytes)"

section \<open>Downloads\<close>

type_synonym blob_files = "bytes \<Rightarrow> bytes option"

text \<open>The loop over the body: its result, and what is in the file.\<close>

fun download_loop :: "download_event list \<Rightarrow> u64 \<Rightarrow> bytes \<Rightarrow> (gateway_error + u64) \<times> bytes" where
  "download_loop [] received written = (Inr received, written)"
| "download_loop (Piece chunk # es) received written =
     download_loop es (received + word_of_nat (length chunk)) (written @ chunk)"
| "download_loop (TransferFails e # es) received written = (Inl (Transport e), written)"
| "download_loop (WriteFails part e # es) received written = (Inl (GatewayIo e), written @ part)"

text \<open>Creating the file truncates one that is there.\<close>

definition download_to_file ::
  "world \<Rightarrow> parsed_url \<Rightarrow> bytes \<Rightarrow> bytes \<Rightarrow> blob_files \<Rightarrow> (gateway_error + u64) \<times> blob_files" where
  "download_to_file w base url_or_path dest fs =
     (case http_get w (client_resolve w base url_or_path) of
        Inl e \<Rightarrow> (Inl e, fs)
      | Inr resp \<Rightarrow>
          (case w_mkdir w of
             Some e \<Rightarrow> (Inl (GatewayIo e), fs)
           | None \<Rightarrow>
               (case w_create w of
                  Some e \<Rightarrow> (Inl (GatewayIo e), fs)
                | None \<Rightarrow>
                    let (r, written) = download_loop (hr_stream resp) 0 []
                    in (r, fs(dest \<mapsto> written)))))"

section \<open>Facts\<close>

text \<open>The client is bound to an absolute HTTP URL with a host.\<close>

lemma client_new_Inr:
  "client_new w s = Inr base \<longleftrightarrow>
     w_parse w s = Some base \<and> (url_scheme base = str ''http'' \<or> url_scheme base = str ''https'')
     \<and> url_host base \<noteq> None"
proof (cases "w_parse w s")
  case (Some u)
  then have "client_new w s =
      (if url_scheme u \<noteq> str ''http'' \<and> url_scheme u \<noteq> str ''https'' \<or> url_host u = None then Inl (InvalidUrl s)
       else Inr u)"
    by (simp add: client_new_def validate_base_url_def ok_or_def)
  with Some show ?thesis
    by (metis option.inject sum.distinct(1) sum.inject(2))
qed (simp add: client_new_def validate_base_url_def ok_or_def)

text \<open>Ids in hex go into a URL as they are, and nothing else than unreserved characters and escapes does.\<close>

lemma unreserved_hex_char: "n < 16 \<Longrightarrow> unreserved (hex_char n)"
  by (cases "n < 10")
    (simp_all add: unreserved_def hex_char_def word_le_nat_alt word_less_nat_alt unat_word_ariths)

lemma urlencode_unreserved: "list_all unreserved bs \<Longrightarrow> urlencode bs = bs"
  by (induction bs) simp_all

lemma urlencode_hex: "urlencode (id_to_hex bs) = id_to_hex bs"
  by (rule urlencode_unreserved)
    (induction bs; simp add: id_to_hex_def unreserved_hex_char nibbles_less)

lemma download_touches_dest:
  "download_to_file w base url dest fs = (r, fs') \<Longrightarrow> b \<noteq> dest \<Longrightarrow> fs' b = fs b"
  by (auto simp: download_to_file_def split: sum.splits option.splits prod.splits)

lemma download_complete:
  assumes "download_to_file w base url dest fs = (Inr n, fs')"
  shows "\<exists>d. fs' dest = Some d \<and> n = word_of_nat (length d)"
proof -
  have "download_loop es t written = (Inr m, out) \<Longrightarrow>
      t = word_of_nat (length written) \<Longrightarrow> m = word_of_nat (length out)" for es t written m out
    by (induction es t written rule: download_loop.induct) auto
  from this [where t = 0 and written = "[]"] show ?thesis
    using assms by (auto simp: download_to_file_def split: sum.splits option.splits prod.splits)
qed

end
