(* ===== verification/NodePins.thy ===== *)
theory NodePins
  imports KernelText
begin

text \<open>
  The pin store of the desktop node, \<open>crates/evermesh-node/src/pinning.rs\<close>: what is pinned and why, the
  budget, and the cache of verified manifests, three tables of one SQLite database.

  A table is the list of its rows in insertion order; a statement is translated as the operation on
  tables that it denotes.  Statements are atomic: \<open>sq\<close> is the engine's error if it fails the call, which
  then leaves the tables alone.  \<open>now\<close> is what \<open>now_unix\<close> returns.  Rows with equal times are listed in
  table order, which SQL leaves open and no theorem uses.
\<close>

section \<open>Types\<close>

datatype pin_error = PinIo bytes | Sqlite bytes

definition display_pin_error :: "pin_error \<Rightarrow> bytes" where
  "display_pin_error e =
     (case e of
        PinIo m \<Rightarrow> str ''pin store i/o error: '' @ m
      | Sqlite m \<Rightarrow> str ''pin store database error: '' @ m)"

datatype pin_reason = Explicit | Subscription

definition reason_as_db_str :: "pin_reason \<Rightarrow> bytes" where
  "reason_as_db_str r = (case r of Explicit \<Rightarrow> str ''explicit'' | Subscription \<Rightarrow> str ''subscription'')"

definition reason_from_db_str :: "bytes \<Rightarrow> pin_reason option" where
  "reason_from_db_str s =
     (if s = str ''explicit'' then Some Explicit
      else if s = str ''subscription'' then Some Subscription
      else None)"

record pinned_item =
  pi_blob_id :: bytes
  pi_manifest_id :: "bytes option"
  pi_reason :: pin_reason
  pi_pinned_at :: i64

record budget =
  bg_disk_gb :: u64
  bg_bandwidth_mbps :: u64

definition budget_default :: budget where
  "budget_default = \<lparr> bg_disk_gb = 0, bg_bandwidth_mbps = 0 \<rparr>"

datatype media_kind = Video | Audio

definition media_as_db_str :: "media_kind \<Rightarrow> bytes" where
  "media_as_db_str k = (case k of Video \<Rightarrow> str ''video'' | Audio \<Rightarrow> str ''audio'')"

definition media_from_db_str :: "bytes \<Rightarrow> media_kind" where
  "media_from_db_str s = (if s = str ''video'' then Video else Audio)"

record cache_entry =
  ce_record_id :: bytes
  ce_author :: bytes
  ce_title :: bytes
  ce_media_kind :: media_kind
  ce_duration_ms :: u64
  ce_cover :: "bytes option"
  ce_original :: "bytes option"
  ce_body_json :: bytes
  ce_cached_at :: i64
  ce_pinned :: bool

record cache_write =
  cw_record_id :: record_id
  cw_author :: identity_id
  cw_title :: bytes
  cw_media_kind :: media_kind
  cw_duration_ms :: u64
  cw_cover :: "blob_id option"
  cw_original :: blob_id
  cw_body_json :: bytes

section \<open>The tables\<close>

record pin_row =
  pr_blob_id :: bytes
  pr_manifest_id :: "bytes option"
  pr_reason :: bytes
  pr_pinned_at :: i64

record budget_row =
  br_disk_gb :: i64
  br_bandwidth_mbps :: i64
  br_updated_at :: i64

record cache_row =
  cr_record_id :: bytes
  cr_author :: bytes
  cr_title :: bytes
  cr_media_kind :: bytes
  cr_duration_ms :: i64
  cr_cover :: "bytes option"
  cr_original :: "bytes option"
  cr_body_json :: bytes
  cr_cached_at :: i64

text \<open>The \<open>budget\<close> table admits one row, with \<open>id = 0\<close>.\<close>

record pin_db =
  db_pins :: "pin_row list"
  db_budget :: "budget_row option"
  db_cache :: "cache_row list"

definition empty_db :: pin_db where
  "empty_db = \<lparr> db_pins = [], db_budget = None, db_cache = [] \<rparr>"

text \<open>An \<open>INSERT \<dots> ON CONFLICT(key) DO UPDATE\<close>: \<open>merge\<close> is what the update makes of the old row.\<close>

fun upsert :: "('r \<Rightarrow> 'k) \<Rightarrow> ('r \<Rightarrow> 'r \<Rightarrow> 'r) \<Rightarrow> 'r \<Rightarrow> 'r list \<Rightarrow> 'r list" where
  "upsert key merge new [] = [new]"
| "upsert key merge new (r # rs) =
     (if key r = key new then merge r new # rs else r # upsert key merge new rs)"

text \<open>
  Integers of the engine are \<open>i64\<close>; \<open>rusqlite\<close> converts a \<open>u64\<close> or fails, with a text that is its own
  and on which nothing depends.
\<close>

definition u64_param :: "u64 \<Rightarrow> pin_error + i64" where
  "u64_param n = (if n \<le> i64_max then Inr n else Inl (Sqlite (str ''out of range integral type conversion attempted'')))"

definition u64_column :: "i64 \<Rightarrow> pin_error + u64" where
  "u64_column x = (if 0 \<le> sint x then Inr x else Inl (Sqlite (str ''integer out of range'')))"

definition statement :: "bytes option \<Rightarrow> pin_error + 'a \<Rightarrow> pin_error + 'a" where
  "statement sq r = (case sq of Some m \<Rightarrow> Inl (Sqlite m) | None \<Rightarrow> r)"

text \<open>\<open>MIGRATIONS\<close> creates only the tables that are missing; opening creates the directory first.\<close>

definition open_store :: "bytes option \<Rightarrow> bytes option \<Rightarrow> pin_db option \<Rightarrow> pin_error + pin_db" where
  "open_store io sq existing =
     (case io of
        Some m \<Rightarrow> Inl (PinIo m)
      | None \<Rightarrow> statement sq (Inr (case existing of Some db \<Rightarrow> db | None \<Rightarrow> empty_db)))"

section \<open>Pins\<close>

definition pin_merge :: "pin_row \<Rightarrow> pin_row \<Rightarrow> pin_row" where
  "pin_merge old new = old\<lparr> pr_manifest_id := pr_manifest_id new, pr_reason := pr_reason new \<rparr>"

definition pin_blob :: "bytes option \<Rightarrow> i64 \<Rightarrow> blob_id \<Rightarrow> record_id option \<Rightarrow> pin_reason \<Rightarrow> pin_db \<Rightarrow> pin_error + pin_db" where
  "pin_blob sq now blob_id manifest_id reason db =
     statement sq (Inr (db\<lparr> db_pins := upsert pr_blob_id pin_merge
       \<lparr> pr_blob_id = id_to_hex (blob_id_bytes blob_id),
         pr_manifest_id = map_option (\<lambda>i. id_to_hex (record_id_bytes i)) manifest_id,
         pr_reason = reason_as_db_str reason, pr_pinned_at = now \<rparr> (db_pins db) \<rparr>))"

definition item_of_row :: "pin_row \<Rightarrow> pinned_item" where
  "item_of_row r =
     \<lparr> pi_blob_id = pr_blob_id r, pi_manifest_id = pr_manifest_id r,
       pi_reason = (case reason_from_db_str (pr_reason r) of Some x \<Rightarrow> x | None \<Rightarrow> Subscription),
       pi_pinned_at = pr_pinned_at r \<rparr>"

definition list_pins :: "bytes option \<Rightarrow> pin_db \<Rightarrow> pin_error + pinned_item list" where
  "list_pins sq db = statement sq (Inr (map item_of_row (sort_key (\<lambda>r. - sint (pr_pinned_at r)) (db_pins db))))"

definition pinned_count :: "bytes option \<Rightarrow> pin_db \<Rightarrow> pin_error + u64" where
  "pinned_count sq db = statement sq (Inr (word_of_nat (length (db_pins db))))"

definition unpin :: "bytes option \<Rightarrow> blob_id \<Rightarrow> pin_db \<Rightarrow> pin_error + bool \<times> pin_db" where
  "unpin sq blob_id db =
     (let hex = id_to_hex (blob_id_bytes blob_id);
          n = length (filter (\<lambda>r. pr_blob_id r = hex) (db_pins db))
      in statement sq (Inr (0 < n, db\<lparr> db_pins := filter (\<lambda>r. pr_blob_id r \<noteq> hex) (db_pins db) \<rparr>)))"

definition is_pinned :: "bytes option \<Rightarrow> blob_id \<Rightarrow> pin_db \<Rightarrow> pin_error + bool" where
  "is_pinned sq blob_id db =
     statement sq (Inr (list_ex (\<lambda>r. pr_blob_id r = id_to_hex (blob_id_bytes blob_id)) (db_pins db)))"

section \<open>The budget\<close>

definition get_budget :: "bytes option \<Rightarrow> pin_db \<Rightarrow> pin_error + budget" where
  "get_budget sq db =
     statement sq
       (case db_budget db of
          None \<Rightarrow> Inr budget_default
        | Some row \<Rightarrow>
            and_then (u64_column (br_disk_gb row)) (\<lambda>disk_gb.
            and_then (u64_column (br_bandwidth_mbps row)) (\<lambda>bandwidth_mbps.
            Inr \<lparr> bg_disk_gb = disk_gb, bg_bandwidth_mbps = bandwidth_mbps \<rparr>)))"

definition set_budget :: "bytes option \<Rightarrow> i64 \<Rightarrow> budget \<Rightarrow> pin_db \<Rightarrow> pin_error + pin_db" where
  "set_budget sq now b db =
     and_then (u64_param (bg_disk_gb b)) (\<lambda>disk_gb.
     and_then (u64_param (bg_bandwidth_mbps b)) (\<lambda>bandwidth_mbps.
     statement sq (Inr (db\<lparr> db_budget := Some
       \<lparr> br_disk_gb = disk_gb, br_bandwidth_mbps = bandwidth_mbps, br_updated_at = now \<rparr> \<rparr>))))"

section \<open>The manifest cache\<close>

definition cache_merge :: "cache_row \<Rightarrow> cache_row \<Rightarrow> cache_row" where
  "cache_merge old new =
     old\<lparr> cr_author := cr_author new, cr_title := cr_title new, cr_media_kind := cr_media_kind new,
          cr_duration_ms := cr_duration_ms new, cr_cover := cr_cover new, cr_original := cr_original new,
          cr_body_json := cr_body_json new, cr_cached_at := cr_cached_at new \<rparr>"

definition cache_row_of :: "i64 \<Rightarrow> cache_write \<Rightarrow> i64 \<Rightarrow> cache_row" where
  "cache_row_of now entry duration_ms =
     \<lparr> cr_record_id = id_to_hex (record_id_bytes (cw_record_id entry)),
       cr_author = id_to_hex (identity_id_bytes (cw_author entry)), cr_title = cw_title entry,
       cr_media_kind = media_as_db_str (cw_media_kind entry), cr_duration_ms = duration_ms,
       cr_cover = map_option (\<lambda>b. id_to_hex (blob_id_bytes b)) (cw_cover entry),
       cr_original = Some (id_to_hex (blob_id_bytes (cw_original entry))),
       cr_body_json = cw_body_json entry, cr_cached_at = now \<rparr>"

definition cache_manifest :: "bytes option \<Rightarrow> i64 \<Rightarrow> cache_write \<Rightarrow> pin_db \<Rightarrow> pin_error + pin_db" where
  "cache_manifest sq now entry db =
     and_then (u64_param (cw_duration_ms entry)) (\<lambda>duration_ms.
     statement sq (Inr (db\<lparr> db_cache :=
       upsert cr_record_id cache_merge (cache_row_of now entry duration_ms) (db_cache db) \<rparr>)))"

definition entry_of_row :: "pin_row list \<Rightarrow> cache_row \<Rightarrow> pin_error + cache_entry" where
  "entry_of_row pins m =
     and_then (u64_column (cr_duration_ms m)) (\<lambda>duration_ms.
     Inr \<lparr> ce_record_id = cr_record_id m, ce_author = cr_author m, ce_title = cr_title m,
           ce_media_kind = media_from_db_str (cr_media_kind m), ce_duration_ms = duration_ms,
           ce_cover = cr_cover m, ce_original = cr_original m, ce_body_json = cr_body_json m,
           ce_cached_at = cr_cached_at m,
           ce_pinned = list_ex (\<lambda>p. pr_manifest_id p = Some (cr_record_id m)) pins \<rparr>)"

definition list_cached_manifests :: "bytes option \<Rightarrow> pin_db \<Rightarrow> pin_error + cache_entry list" where
  "list_cached_manifests sq db =
     statement sq (try_map (entry_of_row (db_pins db)) (sort_key (\<lambda>m. - sint (cr_cached_at m)) (db_cache db)))"

definition get_cached_manifest :: "bytes option \<Rightarrow> bytes \<Rightarrow> pin_db \<Rightarrow> pin_error + cache_entry option" where
  "get_cached_manifest sq record_id_hex db =
     and_then (list_cached_manifests sq db) (\<lambda>entries.
     Inr (find (\<lambda>e. map ascii_lower (ce_record_id e) = map ascii_lower record_id_hex) entries))"

end
