(* ===== verification/NodeApp.thy ===== *)
theory NodeApp
  imports NodeClient NodePins
begin

text \<open>
  The commands of the desktop node, \<open>crates/evermesh-node/src/main.rs\<close>, over the pin store and the
  directory of blobs: fetching and verifying a manifest, pinning it (download, check, record, cache),
  unpinning, and the queries.

  A file of the blob directory is named by the hex of its blob id.  A command is a function from the
  node's state to its result and the state after it, errors being the text that the user is shown.
\<close>

section \<open>State\<close>

record node =
  nd_db :: pin_db
  nd_blobs :: blob_files

definition new_node :: node where
  "new_node = \<lparr> nd_db = empty_db, nd_blobs = (\<lambda>_. None) \<rparr>"

definition blob_name :: "blob_id \<Rightarrow> bytes" where
  "blob_name b = id_to_hex (blob_id_bytes b)"

text \<open>\<open>map_err(|e| e.to_string())\<close> on errors of the client and of the store.\<close>

definition client_err :: "gateway_error + 'a \<Rightarrow> node_fault + 'a" where
  "client_err r = (case r of Inl e \<Rightarrow> Inl (NodeErr (display_gateway_error e)) | Inr x \<Rightarrow> Inr x)"

definition store_err :: "pin_error + 'a \<Rightarrow> node_fault + 'a" where
  "store_err r = (case r of Inl e \<Rightarrow> Inl (NodeErr (display_pin_error e)) | Inr x \<Rightarrow> Inr x)"

definition text_err :: "bytes + 'a \<Rightarrow> node_fault + 'a" where
  "text_err r = (case r of Inl e \<Rightarrow> Inl (NodeErr e) | Inr x \<Rightarrow> Inr x)"

text \<open>A panic of the kernel ends the command.\<close>

definition panics :: "fault + 'a \<Rightarrow> node_fault + 'a" where
  "panics r = node_fault_err [] r"

section \<open>Queries and settings\<close>

record status_view =
  ns_version :: bytes
  ns_pinned_count :: u64
  ns_seeding :: bool
  ns_db_path :: bytes

definition node_status :: "bytes \<Rightarrow> bytes \<Rightarrow> world \<Rightarrow> node \<Rightarrow> node_fault + status_view" where
  "node_status version db_path w n =
     and_then (store_err (pinned_count (w_sql w) (nd_db n))) (\<lambda>k.
     Inr \<lparr> ns_version = version, ns_pinned_count = k, ns_seeding = False, ns_db_path = db_path \<rparr>)"

definition get_budgets :: "world \<Rightarrow> node \<Rightarrow> node_fault + budget" where
  "get_budgets w n = store_err (get_budget (w_sql w) (nd_db n))"

definition set_budget_command :: "world \<Rightarrow> budget \<Rightarrow> node \<Rightarrow> (node_fault + budget) \<times> node" where
  "set_budget_command w b n =
     (case set_budget (w_sql w) (w_now w) b (nd_db n) of
        Inl e \<Rightarrow> (Inl (NodeErr (display_pin_error e)), n)
      | Inr db \<Rightarrow> let n' = n\<lparr> nd_db := db \<rparr> in (get_budgets w n', n'))"

definition list_library :: "world \<Rightarrow> node \<Rightarrow> node_fault + cache_entry list" where
  "list_library w n = store_err (list_cached_manifests (w_sql w) (nd_db n))"

definition list_pins_command :: "world \<Rightarrow> node \<Rightarrow> node_fault + pinned_item list" where
  "list_pins_command w n = store_err (list_pins (w_sql w) (nd_db n))"

definition get_cached_entry :: "world \<Rightarrow> bytes \<Rightarrow> node \<Rightarrow> node_fault + cache_entry option" where
  "get_cached_entry w record_id n = store_err (get_cached_manifest (w_sql w) record_id (nd_db n))"

definition fetch_catalog :: "world \<Rightarrow> bytes \<Rightarrow> bytes option \<Rightarrow> bytes option \<Rightarrow> node_fault + bytes" where
  "fetch_catalog w gateway_url cursor media_kind =
     and_then (client_err (client_new w gateway_url)) (\<lambda>client.
     client_err (list_videos w client cursor media_kind))"

definition fetch_playlist :: "world \<Rightarrow> bytes \<Rightarrow> bytes \<Rightarrow> node_fault + bytes" where
  "fetch_playlist w gateway_url i =
     and_then (client_err (client_new w gateway_url)) (\<lambda>client. client_err (get_playlist w client i))"

definition validate_gateway_url :: "world \<Rightarrow> bytes \<Rightarrow> node_fault + bytes" where
  "validate_gateway_url w gateway_url =
     and_then (client_err (client_new w gateway_url)) (\<lambda>client. Inr (client_origin client))"

definition parse_blob :: "bytes \<Rightarrow> node_fault + blob_id" where
  "parse_blob s = ok_or (map_option BlobId (id_from_hex s)) (NodeErr (str ''not a valid blob id: '' @ s))"

definition is_blob_pinned :: "world \<Rightarrow> bytes \<Rightarrow> node \<Rightarrow> node_fault + bool" where
  "is_blob_pinned w s n =
     and_then (parse_blob s) (\<lambda>blob. store_err (is_pinned (w_sql w) blob (nd_db n)))"

definition local_media_path :: "bytes \<Rightarrow> node \<Rightarrow> node_fault + bytes option" where
  "local_media_path s n =
     and_then (parse_blob s) (\<lambda>blob.
     Inr (if nd_blobs n (blob_name blob) \<noteq> None then Some (blob_name blob) else None))"

section \<open>Manifests\<close>

definition media_kind_of :: "manifest \<Rightarrow> media_kind" where
  "media_kind_of m = (if md_width (mf_original m) \<noteq> None then Video else Audio)"

definition cache_write_of :: "record_id \<Rightarrow> erecord \<Rightarrow> manifest \<Rightarrow> bytes \<Rightarrow> cache_write" where
  "cache_write_of i r m body_json =
     \<lparr> cw_record_id = i, cw_author = IdentityId (author_identity_id r), cw_title = mf_title m,
       cw_media_kind = media_kind_of m, cw_duration_ms = md_duration_ms (mf_original m),
       cw_cover = mf_thumbnail m, cw_original = md_blob (mf_original m), cw_body_json = body_json \<rparr>"

text \<open>Best effort: a failure of the store is dropped.\<close>

definition cache_best_effort :: "world \<Rightarrow> cache_write \<Rightarrow> node \<Rightarrow> node" where
  "cache_best_effort w cw n =
     (case cache_manifest (w_sql w) (w_now w) cw (nd_db n) of Inl _ \<Rightarrow> n | Inr db \<Rightarrow> n\<lparr> nd_db := db \<rparr>)"

record manifest_fetch =
  fr_detail :: bytes
  fr_verdict :: verify_verdict
  fr_original :: "bytes option"

definition fetch_and_verify_manifest ::
  "crypto \<Rightarrow> world \<Rightarrow> bytes \<Rightarrow> bytes \<Rightarrow> node \<Rightarrow> (node_fault + manifest_fetch) \<times> node" where
  "fetch_and_verify_manifest c w gateway_url i n =
     (case and_then (client_err (client_new w gateway_url)) (\<lambda>client.
           and_then (client_err (get_video w client i)) (\<lambda>detail.
           and_then (client_err (get_record_cbor w client i)) (\<lambda>cbor.
           and_then (panics (verify_record_cbor c cbor)) (\<lambda>verdict. Inr (detail, cbor, verdict))))) of
        Inl e \<Rightarrow> (Inl e, n)
      | Inr (detail, cbor, verdict) \<Rightarrow>
          (case (verdict, verify_and_parse_manifest c cbor) of
             (Verified _ _ _ _, Inr (record, manifest)) \<Rightarrow>
               (case record_id_of c record of
                  Inl f \<Rightarrow> (panics (Inl f), n)
                | Inr rid \<Rightarrow>
                    (Inr \<lparr> fr_detail = detail, fr_verdict = verdict,
                           fr_original = Some (blob_name (md_blob (mf_original manifest))) \<rparr>,
                     cache_best_effort w (cache_write_of rid record manifest detail) n))
           | _ \<Rightarrow> (Inr \<lparr> fr_detail = detail, fr_verdict = verdict, fr_original = None \<rparr>, n)))"

section \<open>Pinning\<close>

definition remove_file :: "world \<Rightarrow> bytes \<Rightarrow> blob_files \<Rightarrow> blob_files" where
  "remove_file w f fs = (if w_remove_ok w then fs(f := None) else fs)"

definition check_file :: "crypto \<Rightarrow> world \<Rightarrow> blob_id \<Rightarrow> bytes option \<Rightarrow> blob_files \<Rightarrow> bytes + unit" where
  "check_file c w b root fs =
     verify_downloaded_blob c (w_open w 0 (fs (blob_name b))) (w_open w 1 (fs (blob_name b))) b root"

text \<open>
  Download and check the media blob.  A file that fails the check is removed; a download that fails
  returns at once.
\<close>

definition fetch_original ::
  "crypto \<Rightarrow> world \<Rightarrow> parsed_url \<Rightarrow> blob_id \<Rightarrow> bytes option \<Rightarrow> blob_files \<Rightarrow> (node_fault + u64) \<times> blob_files" where
  "fetch_original c w client b root fs =
     (case download_to_file w client (client_origin client @ str ''/media/blob/'' @ blob_name b) (blob_name b) fs of
        (Inl e, fs1) \<Rightarrow> (Inl (NodeErr (display_gateway_error e)), fs1)
      | (Inr bytes_written, fs1) \<Rightarrow>
          (case check_file c w b root fs1 of
             Inl e \<Rightarrow> (Inl (NodeErr e), remove_file w (blob_name b) fs1)
           | Inr _ \<Rightarrow> (Inr bytes_written, fs1)))"

text \<open>The thumbnail is fetched only if no file of that name exists; nothing about it fails the pin.\<close>

definition fetch_thumbnail :: "crypto \<Rightarrow> world \<Rightarrow> parsed_url \<Rightarrow> blob_id option \<Rightarrow> blob_files \<Rightarrow> blob_files" where
  "fetch_thumbnail c w client thumbnail fs =
     (case thumbnail of
        None \<Rightarrow> fs
      | Some thumb \<Rightarrow>
          if fs (blob_name thumb) \<noteq> None then fs
          else
            (case download_to_file w client (client_origin client @ str ''/media/thumb/'' @ blob_name thumb)
                    (blob_name thumb) fs of
               (Inl _, fs1) \<Rightarrow> fs1
             | (Inr _, fs1) \<Rightarrow>
                 (case check_file c w thumb None fs1 of
                    Inl _ \<Rightarrow> remove_file w (blob_name thumb) fs1
                  | Inr _ \<Rightarrow> fs1)))"

record pin_outcome =
  po_blob_id :: bytes
  po_bytes_written :: u64
  po_verdict :: verify_verdict

text \<open>What follows once the pin is in the store.\<close>

definition finish_pin ::
  "crypto \<Rightarrow> world \<Rightarrow> parsed_url \<Rightarrow> bytes \<Rightarrow> record_id \<Rightarrow> erecord \<Rightarrow> manifest \<Rightarrow> node \<Rightarrow> node" where
  "finish_pin c w client i rid record manifest n =
     (let n1 = n\<lparr> nd_blobs := fetch_thumbnail c w client (mf_thumbnail manifest) (nd_blobs n) \<rparr>;
          body_json = (case get_video w client i of
                         Inr detail \<Rightarrow> detail
                       | Inl _ \<Rightarrow> to_json (w_debug w) (manifest_to_body manifest))
      in cache_best_effort w (cache_write_of rid record manifest body_json) n1)"

definition pin_manifest ::
  "crypto \<Rightarrow> world \<Rightarrow> bytes \<Rightarrow> bytes \<Rightarrow> node \<Rightarrow> (node_fault + pin_outcome) \<times> node" where
  "pin_manifest c w gateway_url i n =
     (case and_then (client_err (client_new w gateway_url)) (\<lambda>client.
           and_then (client_err (get_record_cbor w client i)) (\<lambda>cbor.
           and_then (panics (verify_record_cbor c cbor)) (\<lambda>verdict.
           and_then (verify_and_parse_manifest c cbor) (\<lambda>(record, manifest).
           and_then (panics (record_id_of c record)) (\<lambda>rid. Inr (client, verdict, record, manifest, rid)))))) of
        Inl e \<Rightarrow> (Inl e, n)
      | Inr (client, verdict, record, manifest, rid) \<Rightarrow>
          let blob_id = md_blob (mf_original manifest) in
          (case fetch_original c w client blob_id (md_chunk_root (mf_original manifest)) (nd_blobs n) of
             (Inl e, fs) \<Rightarrow> (Inl e, n\<lparr> nd_blobs := fs \<rparr>)
           | (Inr bytes_written, fs) \<Rightarrow>
               let n1 = n\<lparr> nd_blobs := fs \<rparr> in
               (case pin_blob (w_sql w) (w_now w) blob_id (Some rid) Explicit (nd_db n1) of
                  Inl e \<Rightarrow> (Inl (NodeErr (display_pin_error e)), n1)
                | Inr db \<Rightarrow>
                    (Inr \<lparr> po_blob_id = blob_name blob_id, po_bytes_written = bytes_written,
                           po_verdict = verdict \<rparr>,
                     finish_pin c w client i rid record manifest (n1\<lparr> nd_db := db \<rparr>)))))"

definition unpin_blob :: "world \<Rightarrow> bytes \<Rightarrow> node \<Rightarrow> (node_fault + bool) \<times> node" where
  "unpin_blob w s n =
     (case parse_blob s of
        Inl e \<Rightarrow> (Inl e, n)
      | Inr blob \<Rightarrow>
          (case unpin (w_sql w) blob (nd_db n) of
             Inl e \<Rightarrow> (Inl (NodeErr (display_pin_error e)), n)
           | Inr (existed, db) \<Rightarrow>
               (Inr existed, \<lparr> nd_db = db, nd_blobs = remove_file w (blob_name blob) (nd_blobs n) \<rparr>)))"

section \<open>Runs\<close>

text \<open>The commands that change the node; whether one succeeded, and the state after it.\<close>

datatype node_command =
    FetchManifest bytes bytes
  | PinManifest bytes bytes
  | UnpinBlob bytes
  | SetBudget budget

definition run_command :: "crypto \<Rightarrow> world \<Rightarrow> node_command \<Rightarrow> node \<Rightarrow> bool \<times> node" where
  "run_command c w cmd n =
     (case cmd of
        FetchManifest url i \<Rightarrow> apfst is_ok (fetch_and_verify_manifest c w url i n)
      | PinManifest url i \<Rightarrow> apfst is_ok (pin_manifest c w url i n)
      | UnpinBlob s \<Rightarrow> apfst is_ok (unpin_blob w s n)
      | SetBudget b \<Rightarrow> apfst is_ok (set_budget_command w b n))"

end
