(* ===== verification/NodePinsSpec.thy ===== *)
theory NodePinsSpec
  imports NodePins
begin

text \<open>
  The pin store as maps.  A table with a primary key denotes a map from keys to rows; \<open>keyed_table\<close> is
  what an upsert promises for a merge that keeps the key, and the \<open>pins\<close> and \<open>manifest_cache\<close> tables
  are its two interpretations.  On top of it: the pin store refines a map from blobs to their reason and
  manifest, the invariants of its tables, and what is read back of what was written.
\<close>

section \<open>Tables with a primary key\<close>

definition row_at :: "('r \<Rightarrow> 'k) \<Rightarrow> 'r list \<Rightarrow> 'k \<Rightarrow> 'r option" where
  "row_at key rs k = find (\<lambda>r. key r = k) rs"

lemma row_at_simps [simp]:
  "row_at key [] k = None" "row_at key (r # rs) k = (if key r = k then Some r else row_at key rs k)"
  by (simp_all add: row_at_def)

lemma row_at_SomeD: "row_at key rs k = Some r \<Longrightarrow> r \<in> set rs \<and> key r = k"
  by (induction rs) (auto split: if_splits)

lemma row_at_None_iff: "row_at key rs k = None \<longleftrightarrow> k \<notin> key ` set rs"
  by (induction rs) auto

lemma row_at_member: "\<lbrakk>distinct (map key rs); r \<in> set rs\<rbrakk> \<Longrightarrow> row_at key rs (key r) = Some r"
  by (induction rs) auto

lemma row_at_filter: "row_at key (filter (\<lambda>r. key r \<noteq> k) rs) = (row_at key rs)(k := None)"
  by (induction rs) (auto simp: fun_eq_iff)

locale keyed_table =
  fixes key :: "'r \<Rightarrow> 'k" and merge :: "'r \<Rightarrow> 'r \<Rightarrow> 'r"
  assumes merge_key: "key old = key new \<Longrightarrow> key (merge old new) = key new"
begin

lemma upsert_keys: "key ` set (upsert key merge new rs) = insert (key new) (key ` set rs)"
  by (induction rs) (auto simp: merge_key)

lemma upsert_distinct: "distinct (map key rs) \<Longrightarrow> distinct (map key (upsert key merge new rs))"
  by (induction rs) (use upsert_keys in \<open>auto simp: merge_key\<close>)

lemma row_at_upsert:
  "row_at key (upsert key merge new rs) =
     (row_at key rs)(key new \<mapsto> case row_at key rs (key new) of None \<Rightarrow> new | Some old \<Rightarrow> merge old new)"
  by (induction rs) (auto simp: fun_eq_iff merge_key)

lemma upsert_length:
  "length (upsert key merge new rs) = (if key new \<in> key ` set rs then length rs else Suc (length rs))"
  by (induction rs) auto

lemma upsert_rows:
  "r \<in> set (upsert key merge new rs) \<Longrightarrow>
     r \<in> set rs \<or> r = new \<or> (\<exists>old\<in>set rs. key old = key new \<and> r = merge old new)"
  by (induction rs) (auto split: if_splits)

lemma upsert_twice:
  assumes "\<And>old. key old = key new \<Longrightarrow> merge (merge old new) new = merge old new" and "merge new new = new"
  shows "upsert key merge new (upsert key merge new rs) = upsert key merge new rs"
  using assms by (induction rs) (auto simp: merge_key)

end

interpretation pins_table: keyed_table pr_blob_id pin_merge
  by unfold_locales (simp add: pin_merge_def)

interpretation cache_table: keyed_table cr_record_id cache_merge
  by unfold_locales (simp add: cache_merge_def)

section \<open>The specification\<close>

text \<open>A pinned blob with the reason, the manifest that named it, and the time of its first pin.\<close>

type_synonym pin_map = "bytes \<Rightarrow> (pin_reason \<times> bytes option \<times> i64) option"

definition pins_of :: "pin_db \<Rightarrow> pin_map" where
  "pins_of db b = map_option (\<lambda>r. (pi_reason (item_of_row r), pr_manifest_id r, pr_pinned_at r))
     (row_at pr_blob_id (db_pins db) b)"

definition spec_pin :: "i64 \<Rightarrow> bytes \<Rightarrow> bytes option \<Rightarrow> pin_reason \<Rightarrow> pin_map \<Rightarrow> pin_map" where
  "spec_pin now b m reason P = P(b \<mapsto> (reason, m, case P b of None \<Rightarrow> now | Some (_, _, t) \<Rightarrow> t))"

definition pin_db_ok :: "pin_db \<Rightarrow> bool" where
  "pin_db_ok db \<longleftrightarrow> distinct (map pr_blob_id (db_pins db)) \<and> distinct (map cr_record_id (db_cache db))
     \<and> list_all (\<lambda>r. reason_from_db_str (pr_reason r) \<noteq> None) (db_pins db)
     \<and> list_all (\<lambda>m. 0 \<le> sint (cr_duration_ms m)) (db_cache db)
     \<and> (case db_budget db of None \<Rightarrow> True | Some b \<Rightarrow> 0 \<le> sint (br_disk_gb b) \<and> 0 \<le> sint (br_bandwidth_mbps b))"

lemma pin_db_ok_empty: "pin_db_ok empty_db"
  by (simp add: pin_db_ok_def empty_db_def)

lemma reason_round_trip [simp]: "reason_from_db_str (reason_as_db_str r) = Some r"
  by (cases r) (simp_all add: reason_from_db_str_def reason_as_db_str_def str_def)

lemma media_round_trip [simp]: "media_from_db_str (media_as_db_str k) = k"
  by (cases k) (simp_all add: media_from_db_str_def media_as_db_str_def str_def)

lemma statement_simps [simp]: "statement (Some m) r = Inl (Sqlite m)" "statement None r = r"
  by (simp_all add: statement_def)

lemma statement_eq_Inr [result_simps]: "statement sq r = Inr x \<longleftrightarrow> sq = None \<and> r = Inr x"
  by (cases sq) simp_all

lemma u64_param_Inr [result_simps]: "u64_param n = Inr x \<longleftrightarrow> n \<le> i64_max \<and> x = n"
  by (auto simp: u64_param_def)

lemma i64_max_sint: "n \<le> i64_max \<longleftrightarrow> 0 \<le> sint n"
  for n :: u64
proof
  assume "n \<le> i64_max"
  then show "0 \<le> sint n"
    using sint_word_of_int_i64 [of "uint n"] uint_ge_0 [of n] by (simp add: i64_max_iff)
next
  assume "0 \<le> sint n"
  then show "n \<le> i64_max"
    using i64_nonneg [of n] i64_range(2) [of n] by (simp add: i64_max_iff)
qed

lemma u64_column_param: "n \<le> i64_max \<Longrightarrow> u64_column n = Inr n"
  by (simp add: u64_column_def i64_max_sint)

section \<open>The operations\<close>

lemma pin_blob_refines:
  assumes "pin_blob None now b m reason db = Inr db'"
  shows "pins_of db' = spec_pin now (id_to_hex (blob_id_bytes b)) (map_option (\<lambda>i. id_to_hex (record_id_bytes i)) m)
      reason (pins_of db)"
  using assms
  by (auto simp: pin_blob_def pins_of_def spec_pin_def fun_eq_iff pins_table.row_at_upsert item_of_row_def
      pin_merge_def split: option.splits)

lemma pin_blob_ok:
  assumes "pin_blob sq now b m reason db = Inr db'" and "pin_db_ok db"
  shows "pin_db_ok db'" and "db_cache db' = db_cache db" and "db_budget db' = db_budget db"
proof -
  from assms(1) have db': "db' = db\<lparr> db_pins := upsert pr_blob_id pin_merge
       \<lparr> pr_blob_id = id_to_hex (blob_id_bytes b), pr_manifest_id = map_option (\<lambda>i. id_to_hex (record_id_bytes i)) m,
         pr_reason = reason_as_db_str reason, pr_pinned_at = now \<rparr> (db_pins db) \<rparr>"
    by (simp add: pin_blob_def result_simps)
  then show "db_cache db' = db_cache db" "db_budget db' = db_budget db"
    by simp_all
  have "list_all (\<lambda>r. reason_from_db_str (pr_reason r) \<noteq> None) (db_pins db')"
    using assms(2) unfolding list_all_iff pin_db_ok_def db'
    by (auto dest!: pins_table.upsert_rows simp: pin_merge_def)
  with assms(2) show "pin_db_ok db'"
    unfolding pin_db_ok_def by (simp add: db' pins_table.upsert_distinct)
qed

lemma unpin_refines:
  assumes "unpin None b db = Inr (existed, db')"
  shows "pins_of db' = (pins_of db)(id_to_hex (blob_id_bytes b) := None)"
    and "existed \<longleftrightarrow> pins_of db (id_to_hex (blob_id_bytes b)) \<noteq> None"
  using assms
  by (auto simp: unpin_def pins_of_def row_at_filter Let_def fun_eq_iff row_at_None_iff filter_empty_conv image_iff
      eq_commute [of "id_to_hex (blob_id_bytes b)"])

lemma is_pinned_refines:
  "is_pinned None b db = Inr (pins_of db (id_to_hex (blob_id_bytes b)) \<noteq> None)"
  by (auto simp: is_pinned_def pins_of_def list_ex_iff row_at_None_iff image_iff) (metis)

lemma list_pins_refines:
  assumes "pin_db_ok db"
  obtains items where "list_pins None db = Inr items"
    and "sorted (map (\<lambda>i. - sint (pi_pinned_at i)) items)" and "distinct (map pi_blob_id items)"
    and "\<And>i. i \<in> set items \<longleftrightarrow> pins_of db (pi_blob_id i) = Some (pi_reason i, pi_manifest_id i, pi_pinned_at i)"
proof
  let ?rows = "sort_key (\<lambda>r. - sint (pr_pinned_at r)) (db_pins db)"
  show "list_pins None db = Inr (map item_of_row ?rows)"
    by (simp add: list_pins_def)
  have "map (\<lambda>i. - sint (pi_pinned_at i)) (map item_of_row ?rows) = map (\<lambda>r. - sint (pr_pinned_at r)) ?rows"
    by (simp add: item_of_row_def)
  then show "sorted (map (\<lambda>i. - sint (pi_pinned_at i)) (map item_of_row ?rows))"
    by (simp only: sorted_sort_key)
  have keys: "map pi_blob_id (map item_of_row rs) = map pr_blob_id rs" for rs
    by (simp add: item_of_row_def)
  have "mset (map pr_blob_id ?rows) = mset (map pr_blob_id (db_pins db))"
    by simp
  then show "distinct (map pi_blob_id (map item_of_row ?rows))"
    unfolding keys using assms by (metis mset_eq_imp_distinct_iff pin_db_ok_def)
  show "i \<in> set (map item_of_row ?rows) \<longleftrightarrow> pins_of db (pi_blob_id i) = Some (pi_reason i, pi_manifest_id i, pi_pinned_at i)" for i
  proof
    assume "i \<in> set (map item_of_row ?rows)"
    then obtain r where "r \<in> set (db_pins db)" "i = item_of_row r"
      by auto
    then show "pins_of db (pi_blob_id i) = Some (pi_reason i, pi_manifest_id i, pi_pinned_at i)"
      using assms row_at_member [of pr_blob_id "db_pins db" r]
      by (auto simp: pin_db_ok_def pins_of_def item_of_row_def)
  next
    assume "pins_of db (pi_blob_id i) = Some (pi_reason i, pi_manifest_id i, pi_pinned_at i)"
    then obtain r where r: "row_at pr_blob_id (db_pins db) (pi_blob_id i) = Some r"
        "pi_reason (item_of_row r) = pi_reason i" "pr_manifest_id r = pi_manifest_id i" "pr_pinned_at r = pi_pinned_at i"
      by (auto simp: pins_of_def)
    from row_at_SomeD [OF r(1)] r have "r \<in> set (db_pins db)" "i = item_of_row r"
      by (simp_all add: item_of_row_def)
    then show "i \<in> set (map item_of_row ?rows)"
      by simp
  qed
qed

section \<open>Budget and cache\<close>

lemma budget_round_trip:
  "set_budget sq now b db = Inr db' \<Longrightarrow> get_budget None db' = Inr b \<and> pins_of db' = pins_of db \<and> db_cache db' = db_cache db"
  by (auto simp: set_budget_def get_budget_def result_simps u64_column_param pins_of_def fun_eq_iff)

text \<open>A budget beyond \<open>i64\<close> cannot be stored: the call fails and the store is unchanged.\<close>

lemma set_budget_refuses:
  "i64_max < bg_disk_gb b \<Longrightarrow> \<exists>e. set_budget sq now b db = Inl e"
  by (auto simp: set_budget_def u64_param_def not_less [symmetric])

lemma set_budget_ok: "\<lbrakk>set_budget sq now b db = Inr db'; pin_db_ok db\<rbrakk> \<Longrightarrow> pin_db_ok db'"
  by (auto simp: set_budget_def result_simps pin_db_ok_def i64_max_sint)

lemma cache_manifest_ok:
  assumes "cache_manifest sq now entry db = Inr db'" and "pin_db_ok db"
  shows "pin_db_ok db'" and "db_pins db' = db_pins db" and "db_budget db' = db_budget db"
proof -
  from assms(1) have fits: "0 \<le> sint (cw_duration_ms entry)" and db': "db' = db\<lparr> db_cache :=
       upsert cr_record_id cache_merge (cache_row_of now entry (cw_duration_ms entry)) (db_cache db) \<rparr>"
    by (auto simp: cache_manifest_def result_simps i64_max_sint)
  then show "db_pins db' = db_pins db" "db_budget db' = db_budget db"
    by simp_all
  have "list_all (\<lambda>m. 0 \<le> sint (cr_duration_ms m)) (db_cache db')"
    using assms(2) fits unfolding list_all_iff pin_db_ok_def db'
    by (auto dest!: cache_table.upsert_rows simp: cache_merge_def cache_row_of_def)
  with assms(2) show "pin_db_ok db'"
    unfolding pin_db_ok_def by (simp add: db' cache_table.upsert_distinct)
qed

text \<open>Reading the library never fails on a store that the node wrote, and lists it newest first.\<close>

lemma list_cached_manifests_ok:
  assumes "pin_db_ok db"
  obtains entries where "list_cached_manifests None db = Inr entries"
    and "map ce_record_id entries = map cr_record_id (sort_key (\<lambda>m. - sint (cr_cached_at m)) (db_cache db))"
proof -
  let ?rows = "sort_key (\<lambda>m. - sint (cr_cached_at m)) (db_cache db)"
  let ?entry = "\<lambda>m. \<lparr> ce_record_id = cr_record_id m, ce_author = cr_author m, ce_title = cr_title m,
           ce_media_kind = media_from_db_str (cr_media_kind m), ce_duration_ms = cr_duration_ms m,
           ce_cover = cr_cover m, ce_original = cr_original m, ce_body_json = cr_body_json m,
           ce_cached_at = cr_cached_at m,
           ce_pinned = list_ex (\<lambda>p. pr_manifest_id p = Some (cr_record_id m)) (db_pins db) \<rparr>"
  have "try_map (entry_of_row (db_pins db)) rs = Inr (map ?entry rs)" if "set rs \<subseteq> set (db_cache db)" for rs
    using that assms
    by (induction rs) (auto simp: entry_of_row_def u64_column_def pin_db_ok_def list_all_iff)
  then have "list_cached_manifests None db = Inr (map ?entry ?rows)"
    by (simp add: list_cached_manifests_def)
  then show thesis
    by (rule that) simp
qed

section \<open>The pinned flag of the library\<close>

text \<open>
  The flag is joined on the manifest that a pin names, not on the media blob: of two manifests with the
  same media blob only the one pinned last is flagged, although the blob of both is pinned.
\<close>

definition shared_blob :: blob_id where
  "shared_blob = BlobId (replicate 32 1)"

definition shared_entry :: "u8 \<Rightarrow> cache_write" where
  "shared_entry k =
     \<lparr> cw_record_id = RecordId (replicate 32 k), cw_author = IdentityId (replicate 32 9), cw_title = str ''T'',
       cw_media_kind = Audio, cw_duration_ms = 5, cw_cover = None, cw_original = shared_blob, cw_body_json = [] \<rparr>"

definition shared_db :: "pin_error + pin_db" where
  "shared_db =
     and_then (pin_blob None 1 shared_blob (Some (RecordId (replicate 32 2))) Explicit empty_db) (\<lambda>db.
     and_then (cache_manifest None 1 (shared_entry 2) db) (\<lambda>db.
     and_then (pin_blob None 2 shared_blob (Some (RecordId (replicate 32 3))) Explicit db) (\<lambda>db.
     cache_manifest None 2 (shared_entry 3) db)))"

lemma pinned_flag_misses_shared_blob:
  "and_then shared_db (\<lambda>db. and_then (list_cached_manifests None db) (\<lambda>es. and_then (is_pinned None shared_blob db)
     (\<lambda>p. Inr (p, map (\<lambda>e. (ce_original e = Some (id_to_hex (blob_id_bytes shared_blob)), ce_pinned e)) es))))
   = Inr (True, [(True, True), (True, False)])"
  by code_simp

end
