(* ===== verification/NodeSpec.thy ===== *)
theory NodeSpec
  imports NodeApp NodePinsSpec
begin

text \<open>
  The node's promises over runs of its commands: the library holds only manifests that verified, and a
  pinned blob's file has the content that its name says, unless a failed command has changed that file
  since; and the pin that shows the exception is needed.
\<close>

section \<open>The invariants\<close>

definition named_by_content :: "crypto \<Rightarrow> bytes \<Rightarrow> bytes option \<Rightarrow> bool" where
  "named_by_content c name f \<longleftrightarrow> (\<exists>d. f = Some d \<and> blob_name (hash_blob c d) = name)"

definition library_verified :: "crypto \<Rightarrow> pin_db \<Rightarrow> bool" where
  "library_verified c db \<longleftrightarrow>
     (\<forall>m\<in>set (db_cache db). \<exists>cbor r mf i. verify_and_parse_manifest c cbor = Inr (r, mf)
        \<and> record_id_of c r = Inr i \<and> cr_record_id m = id_to_hex (record_id_bytes i)
        \<and> cr_author m = id_to_hex (author_identity_id r) \<and> cr_title m = mf_title mf
        \<and> cr_media_kind m = media_as_db_str (media_kind_of mf)
        \<and> cr_duration_ms m = md_duration_ms (mf_original mf)
        \<and> cr_cover m = map_option blob_name (mf_thumbnail mf)
        \<and> cr_original m = Some (blob_name (md_blob (mf_original mf))))"

definition pinned :: "node \<Rightarrow> bytes \<Rightarrow> bool" where
  "pinned n b \<longleftrightarrow> b \<in> pr_blob_id ` set (db_pins (nd_db n))"

definition pins_genuine :: "crypto \<Rightarrow> bytes set \<Rightarrow> node \<Rightarrow> bool" where
  "pins_genuine c lost n \<longleftrightarrow> (\<forall>b. pinned n b \<and> b \<notin> lost \<longrightarrow> named_by_content c b (nd_blobs n b))"

lemma hex_inj: "id_to_hex a = id_to_hex b \<longleftrightarrow> a = b"
  by (metis from_hex_pairs_id_to_hex option.inject)

lemma blob_name_inj [simp]: "blob_name a = blob_name b \<longleftrightarrow> a = b"
  by (auto simp: blob_name_def hex_inj intro: blob_id.expand)

section \<open>Checked files\<close>

lemma check_file_Inr:
  assumes "world_ok w" and "check_file c w b root fs = Inr ()"
  shows "named_by_content c (blob_name b) (fs (blob_name b))"
proof -
  let ?o = "w_open w 0 (fs (blob_name b))"
  from assms(2) obtain es where es: "?o = Inr es"
    by (cases ?o) (auto simp: check_file_def verify_downloaded_blob_def rehash_blob_file_def)
  with assms(1) obtain d where d: "fs (blob_name b) = Some d"
    by (cases "fs (blob_name b)") (auto simp: world_ok_def)
  with es assms(1) have live: "live es" "Failed \<notin> set es \<Longrightarrow> delivered es = d"
    by (auto simp: world_ok_def)
  from assms(2) have "rehash_blob_file c (Inr es) = Inr b"
    by (auto simp: check_file_def verify_downloaded_blob_def es split: sum.splits if_splits)
  then have "hash_blob c d = b"
    using live by (auto simp: rehash_blob_file_live split: if_splits)
  with d show ?thesis
    by (auto simp: named_by_content_def)
qed

lemma remove_file_other: "b \<noteq> f \<Longrightarrow> remove_file w f fs b = fs b"
  by (simp add: remove_file_def)

lemma fetch_original_other:
  "\<lbrakk>fetch_original c w client b root fs = (r, fs'); x \<noteq> blob_name b\<rbrakk> \<Longrightarrow> fs' x = fs x"
  by (auto simp: fetch_original_def remove_file_other split: prod.splits sum.splits dest: download_touches_dest)

lemma fetch_original_ok:
  assumes "world_ok w" and "fetch_original c w client b root fs = (Inr k, fs')"
  shows "named_by_content c (blob_name b) (fs' (blob_name b))"
    and "\<exists>d. fs' (blob_name b) = Some d \<and> k = word_of_nat (length d)"
proof -
  from assms(2) have dl: "download_to_file w client (client_origin client @ str ''/media/blob/'' @ blob_name b) (blob_name b) fs
      = (Inr k, fs')" and "check_file c w b root fs' = Inr ()"
    by (auto simp: fetch_original_def split: prod.splits sum.splits)
  with assms(1) show "named_by_content c (blob_name b) (fs' (blob_name b))"
    by (intro check_file_Inr)
  from dl show "\<exists>d. fs' (blob_name b) = Some d \<and> k = word_of_nat (length d)"
    by (rule download_complete)
qed

lemma fetch_thumbnail_keeps:
  "fs x \<noteq> None \<Longrightarrow> fetch_thumbnail c w client t fs x = fs x"
  by (auto simp: fetch_thumbnail_def remove_file_def split: option.splits prod.splits sum.splits
      dest: download_touches_dest)

section \<open>The store under the commands\<close>

lemma cache_best_effort_keeps [simp]:
  "nd_blobs (cache_best_effort w e n) = nd_blobs n"
  "db_pins (nd_db (cache_best_effort w e n)) = db_pins (nd_db n)"
  by (auto simp: cache_best_effort_def cache_manifest_def result_simps split: sum.split)

lemma cache_best_effort_ok: "pin_db_ok (nd_db n) \<Longrightarrow> pin_db_ok (nd_db (cache_best_effort w e n))"
  by (auto simp: cache_best_effort_def dest: cache_manifest_ok split: sum.split)

lemma cache_best_effort_verified:
  assumes "library_verified c (nd_db n)" and "verify_and_parse_manifest c cbor = Inr (r, mf)"
    and "record_id_of c r = Inr i"
  shows "library_verified c (nd_db (cache_best_effort w (cache_write_of i r mf body) n))"
proof (cases "cache_manifest (w_sql w) (w_now w) (cache_write_of i r mf body) (nd_db n)")
  case (Inr db)
  let ?new = "cache_row_of (w_now w) (cache_write_of i r mf body) (md_duration_ms (mf_original mf))"
  from Inr have db: "db_cache db = upsert cr_record_id cache_merge ?new (db_cache (nd_db n))"
    by (auto simp: cache_manifest_def result_simps cache_write_of_def)
  have new: "cache_merge old ?new = ?new" if "cr_record_id old = cr_record_id ?new" for old
    using that by (simp add: cache_merge_def cache_row_of_def)
  have "m \<in> set (db_cache (nd_db n)) \<or> m = ?new" if "m \<in> set (db_cache db)" for m
    using that new unfolding db by (auto dest!: cache_table.upsert_rows)
  moreover have "cr_record_id ?new = id_to_hex (record_id_bytes i)"
      "cr_author ?new = id_to_hex (author_identity_id r)" "cr_title ?new = mf_title mf"
      "cr_media_kind ?new = media_as_db_str (media_kind_of mf)"
      "cr_duration_ms ?new = md_duration_ms (mf_original mf)"
      "cr_cover ?new = map_option blob_name (mf_thumbnail mf)"
      "cr_original ?new = Some (blob_name (md_blob (mf_original mf)))"
    by (simp_all add: cache_row_of_def cache_write_of_def blob_name_def [abs_def])
  ultimately have "library_verified c db"
    using assms unfolding library_verified_def by blast
  with Inr show ?thesis
    by (simp add: cache_best_effort_def)
qed (simp add: cache_best_effort_def assms)

lemma library_verified_cong: "db_cache db' = db_cache db \<Longrightarrow> library_verified c db' = library_verified c db"
  by (simp add: library_verified_def)

section \<open>The commands\<close>

lemma node_results [simp]:
  "client_err r = Inr x \<longleftrightarrow> r = Inr x" "store_err q = Inr y \<longleftrightarrow> q = Inr y" "panics p = Inr z \<longleftrightarrow> p = Inr z"
  by (auto simp: client_err_def store_err_def panics_def result_simps split: sum.splits)

text \<open>The three ways in which \<open>pin_manifest\<close> ends.\<close>

lemma pin_manifest_cases:
  assumes "pin_manifest c w url i n = (res, n')"
  obtains (refused) e where "res = Inl e" and "n' = n"
  | (failed) client cbor r mf rid r1 fs e where
      "verify_and_parse_manifest c cbor = Inr (r, mf)"
      "fetch_original c w client (md_blob (mf_original mf)) (md_chunk_root (mf_original mf)) (nd_blobs n) = (r1, fs)"
      "res = Inl e" "n' = n\<lparr> nd_blobs := fs \<rparr>"
  | (success) client cbor r mf rid k fs db v where
      "verify_and_parse_manifest c cbor = Inr (r, mf)" "record_id_of c r = Inr rid"
      "verify_record_cbor c cbor = Inr v"
      "fetch_original c w client (md_blob (mf_original mf)) (md_chunk_root (mf_original mf)) (nd_blobs n) = (Inr k, fs)"
      "pin_blob (w_sql w) (w_now w) (md_blob (mf_original mf)) (Some rid) Explicit (nd_db n) = Inr db"
      "res = Inr \<lparr> po_blob_id = blob_name (md_blob (mf_original mf)), po_bytes_written = k, po_verdict = v \<rparr>"
      "n' = finish_pin c w client i rid r mf (n\<lparr> nd_blobs := fs, nd_db := db \<rparr>)"
proof (cases "and_then (client_err (client_new w url)) (\<lambda>client.
           and_then (client_err (get_record_cbor w client i)) (\<lambda>cbor.
           and_then (panics (verify_record_cbor c cbor)) (\<lambda>verdict.
           and_then (verify_and_parse_manifest c cbor) (\<lambda>(record, manifest).
           and_then (panics (record_id_of c record)) (\<lambda>rid. Inr (client, verdict, record, manifest, rid))))))")
  case (Inl e)
  with assms show thesis
    by (intro refused [of e]) (simp_all add: pin_manifest_def)
next
  case (Inr x)
  then obtain client cbor v r mf rid where x: "x = (client, v, r, mf, rid)"
      and parts: "verify_record_cbor c cbor = Inr v" "verify_and_parse_manifest c cbor = Inr (r, mf)"
        "record_id_of c r = Inr rid"
    by (auto simp: and_then_eq_Inr split: prod.splits)
  obtain r1 fs where fo: "fetch_original c w client (md_blob (mf_original mf)) (md_chunk_root (mf_original mf)) (nd_blobs n) = (r1, fs)"
    by (cases "fetch_original c w client (md_blob (mf_original mf)) (md_chunk_root (mf_original mf)) (nd_blobs n)")
  note run = assms [unfolded pin_manifest_def Inr x sum.case prod.case Let_def fo]
  show thesis
  proof (cases r1)
    case (Inl e)
    with run show thesis
      by (intro failed [OF parts(2) fo, of e]) simp_all
  next
    case r1: (Inr k)
    show thesis
    proof (cases "pin_blob (w_sql w) (w_now w) (md_blob (mf_original mf)) (Some rid) Explicit (nd_db n)")
      case (Inl e)
      with run r1 show thesis
        by (intro failed [OF parts(2) fo, of "NodeErr (display_pin_error e)"]) simp_all
    next
      case (Inr db)
      with run r1 show thesis
        by (intro success [OF parts(2,3,1) fo [unfolded r1] Inr]) simp_all
    qed
  qed
qed

lemma fetch_manifest_cases:
  assumes "fetch_and_verify_manifest c w url i n = (res, n')"
  obtains "n' = n"
  | cbor r mf rid body where "verify_and_parse_manifest c cbor = Inr (r, mf)" "record_id_of c r = Inr rid"
      "n' = cache_best_effort w (cache_write_of rid r mf body) n"
proof (cases "and_then (client_err (client_new w url)) (\<lambda>client.
           and_then (client_err (get_video w client i)) (\<lambda>detail.
           and_then (client_err (get_record_cbor w client i)) (\<lambda>cbor.
           and_then (panics (verify_record_cbor c cbor)) (\<lambda>verdict. Inr (detail, cbor, verdict)))))")
  case (Inl e)
  with assms that(1) show thesis
    by (simp add: fetch_and_verify_manifest_def)
next
  case (Inr x)
  obtain detail cbor v where x: "x = (detail, cbor, v)"
    by (cases x)
  note run = assms [unfolded fetch_and_verify_manifest_def Inr x sum.case prod.case]
  show thesis
  proof (cases "\<exists>rid r mf. verify_and_parse_manifest c cbor = Inr (r, mf) \<and> record_id_of c r = Inr rid")
    case True
    then obtain rid r mf where "verify_and_parse_manifest c cbor = Inr (r, mf)" "record_id_of c r = Inr rid"
      by blast
    with run that show thesis
      by (cases v) auto
  next
    case False
    with run that(1) show thesis
      by (cases v; cases "verify_and_parse_manifest c cbor")
        (auto split: sum.splits)
  qed
qed

lemma finish_pin_blobs: "nd_blobs (finish_pin c w client i rid r mf n) = fetch_thumbnail c w client (mf_thumbnail mf) (nd_blobs n)"
  by (simp add: finish_pin_def Let_def)

lemma finish_pin_pins: "db_pins (nd_db (finish_pin c w client i rid r mf n)) = db_pins (nd_db n)"
  by (simp add: finish_pin_def Let_def)

lemma pinned_after_pin:
  assumes "pin_blob sq now b m reason (nd_db n) = Inr db" and "db_pins (nd_db n') = db_pins db"
  shows "pinned n' x \<longleftrightarrow> pinned n x \<or> x = blob_name b"
proof -
  let ?row = "\<lparr> pr_blob_id = blob_name b, pr_manifest_id = map_option (\<lambda>i. id_to_hex (record_id_bytes i)) m,
       pr_reason = reason_as_db_str reason, pr_pinned_at = now \<rparr>"
  from assms(1) have "db_pins db = upsert pr_blob_id pin_merge ?row (db_pins (nd_db n))"
    by (auto simp: pin_blob_def statement_eq_Inr blob_name_def)
  then have "pr_blob_id ` set (db_pins db) = insert (blob_name b) (pr_blob_id ` set (db_pins (nd_db n)))"
    by (simp add: pins_table.upsert_keys)
  then show ?thesis
    using assms(2) by (auto simp: pinned_def)
qed

text \<open>A successful pin: the file holds what the manifest claims, and every other pinned file is untouched.\<close>

lemma pin_manifest_done:
  assumes "world_ok w" and "pin_manifest c w url i n = (Inr out, n')"
  shows "pinned n' (po_blob_id out)" and "named_by_content c (po_blob_id out) (nd_blobs n' (po_blob_id out))"
    and "\<And>b. b \<noteq> po_blob_id out \<Longrightarrow> pinned n' b \<longleftrightarrow> pinned n b"
    and "\<And>b. \<lbrakk>b \<noteq> po_blob_id out; nd_blobs n b \<noteq> None\<rbrakk> \<Longrightarrow> nd_blobs n' b = nd_blobs n b"
proof -
  from assms(2) obtain client cbor r mf rid k fs db v where
      fo: "fetch_original c w client (md_blob (mf_original mf)) (md_chunk_root (mf_original mf)) (nd_blobs n) = (Inr k, fs)"
    and pin: "pin_blob (w_sql w) (w_now w) (md_blob (mf_original mf)) (Some rid) Explicit (nd_db n) = Inr db"
    and out: "po_blob_id out = blob_name (md_blob (mf_original mf))"
    and n': "n' = finish_pin c w client i rid r mf (n\<lparr> nd_blobs := fs, nd_db := db \<rparr>)"
    by (cases rule: pin_manifest_cases) auto
  have pins: "pinned n' x \<longleftrightarrow> pinned n x \<or> x = po_blob_id out" for x
    unfolding out by (rule pinned_after_pin [OF pin]) (simp add: n' finish_pin_pins)
  then show "pinned n' (po_blob_id out)" and "\<And>b. b \<noteq> po_blob_id out \<Longrightarrow> pinned n' b \<longleftrightarrow> pinned n b"
    by simp_all
  have kept: "nd_blobs n' b = fs b" if "fs b \<noteq> None" for b
    using fetch_thumbnail_keeps [of fs b] that by (simp add: n' finish_pin_blobs)
  have good: "named_by_content c (po_blob_id out) (fs (po_blob_id out))"
    using fetch_original_ok(1) [OF assms(1) fo] by (simp add: out)
  moreover from this have "fs (po_blob_id out) \<noteq> None"
    by (auto simp: named_by_content_def)
  ultimately show "named_by_content c (po_blob_id out) (nd_blobs n' (po_blob_id out))"
    by (simp add: kept)
  show "nd_blobs n' b = nd_blobs n b" if "b \<noteq> po_blob_id out" "nd_blobs n b \<noteq> None" for b
    using that fetch_original_other [OF fo, of b] kept [of b] by (simp add: out)
qed

lemma finish_pin_form:
  obtains body n1 where "finish_pin c w client i rid r mf n = cache_best_effort w (cache_write_of rid r mf body) n1"
    and "nd_db n1 = nd_db n"
proof
  show "finish_pin c w client i rid r mf n = cache_best_effort w (cache_write_of rid r mf
      (case get_video w client i of Inr detail \<Rightarrow> detail | Inl _ \<Rightarrow> to_json (w_debug w) (manifest_to_body mf)))
      (n\<lparr> nd_blobs := fetch_thumbnail c w client (mf_thumbnail mf) (nd_blobs n) \<rparr>)"
    unfolding finish_pin_def Let_def by (rule refl)
qed simp

lemma pin_manifest_store:
  assumes "pin_manifest c w url i n = (res, n')" and "pin_db_ok (nd_db n)" and "library_verified c (nd_db n)"
  shows "pin_db_ok (nd_db n') \<and> library_verified c (nd_db n')"
  using assms(1)
proof (cases rule: pin_manifest_cases)
  case (success client cbor r mf rid k fs db v)
  note pin = pin_blob_ok [OF success(5) assms(2)]
  obtain body n1 where form: "finish_pin c w client i rid r mf (n\<lparr> nd_blobs := fs, nd_db := db \<rparr>)
        = cache_best_effort w (cache_write_of rid r mf body) n1"
      and n1: "nd_db n1 = nd_db (n\<lparr> nd_blobs := fs, nd_db := db \<rparr>)"
    by (rule finish_pin_form)
  have n': "n' = cache_best_effort w (cache_write_of rid r mf body) n1"
    unfolding success(7) by (rule form)
  have "library_verified c (nd_db n1)"
    using assms(3) library_verified_cong [OF pin(2)] by (simp add: n1)
  from cache_best_effort_verified [OF this success(1,2)] cache_best_effort_ok [of n1] pin(1)
  show ?thesis
    unfolding n' by (simp add: n1)
qed (use assms(2,3) in simp_all)

section \<open>Runs\<close>

text \<open>
  \<open>lost\<close> collects the pinned blobs whose file a failed command changed.  A command finds the world as it
  is then.
\<close>

inductive node_run :: "crypto \<Rightarrow> bytes set \<Rightarrow> node \<Rightarrow> bool" for c where
  start: "node_run c {} new_node"
| command: "\<lbrakk>node_run c lost n; world_ok w; run_command c w cmd n = (ok, n')\<rbrakk> \<Longrightarrow>
    node_run c (if ok then lost else lost \<union> {b. pinned n b \<and> nd_blobs n' b \<noteq> nd_blobs n b}) n'"

definition node_ok :: "crypto \<Rightarrow> bytes set \<Rightarrow> node \<Rightarrow> bool" where
  "node_ok c lost n \<longleftrightarrow> pin_db_ok (nd_db n) \<and> library_verified c (nd_db n) \<and> pins_genuine c lost n"

lemma pins_genuine_same:
  assumes "pins_genuine c lost n" and "lost \<subseteq> lost'" and "\<And>b. pinned n' b \<Longrightarrow> pinned n b"
    and "\<And>b. \<lbrakk>pinned n' b; b \<notin> lost'\<rbrakk> \<Longrightarrow> nd_blobs n' b = nd_blobs n b"
  shows "pins_genuine c lost' n'"
  using assms unfolding pins_genuine_def by (metis subsetD)

lemma unpin_blob_ok:
  assumes "node_ok c lost n" and "unpin_blob w s n = (res, n')"
  shows "node_ok c lost n'"
proof (cases "\<exists>blob existed db. unpin (w_sql w) blob (nd_db n) = Inr (existed, db)
    \<and> n' = \<lparr> nd_db = db, nd_blobs = remove_file w (blob_name blob) (nd_blobs n) \<rparr>")
  case True
  then obtain blob existed db where u: "unpin (w_sql w) blob (nd_db n) = Inr (existed, db)"
      and n': "n' = \<lparr> nd_db = db, nd_blobs = remove_file w (blob_name blob) (nd_blobs n) \<rparr>"
    by blast
  from u have db: "db = (nd_db n)\<lparr> db_pins := filter (\<lambda>r. pr_blob_id r \<noteq> blob_name blob) (db_pins (nd_db n)) \<rparr>"
    by (auto simp: unpin_def Let_def result_simps blob_name_def)
  have pins: "pinned n' b \<longleftrightarrow> pinned n b \<and> b \<noteq> blob_name blob" for b
    by (auto simp: pinned_def n' db)
  have "pin_db_ok db"
    using assms(1) unfolding node_ok_def pin_db_ok_def db by (auto simp: list_all_iff distinct_map_filter)
  moreover have "library_verified c db"
    using assms(1) by (simp add: node_ok_def db library_verified_def)
  moreover have "pins_genuine c lost n'"
    using assms(1) pins by (intro pins_genuine_same [of c lost n lost n']) (auto simp: node_ok_def n' remove_file_def)
  ultimately show ?thesis
    by (simp add: node_ok_def n')
next
  case False
  then have "n' = n"
    using assms(2) by (auto simp: unpin_blob_def split: sum.splits prod.splits)
  with assms(1) show ?thesis by simp
qed

lemma set_budget_command_ok:
  assumes "node_ok c lost n" and "set_budget_command w b n = (res, n')"
  shows "node_ok c lost n'"
proof (cases "set_budget (w_sql w) (w_now w) b (nd_db n)")
  case (Inl e)
  with assms show ?thesis
    by (simp add: set_budget_command_def)
next
  case (Inr db)
  with assms(2) have n': "n' = n\<lparr> nd_db := db \<rparr>"
    by (auto simp: set_budget_command_def Let_def)
  moreover from Inr have "db_pins db = db_pins (nd_db n)" "db_cache db = db_cache (nd_db n)"
    by (auto simp: set_budget_def result_simps)
  moreover have "pin_db_ok db"
    using set_budget_ok [OF Inr] assms(1) by (simp add: node_ok_def)
  ultimately show ?thesis
    using assms(1) by (simp add: node_ok_def library_verified_def pins_genuine_def pinned_def)
qed

lemma fetch_manifest_ok:
  assumes "node_ok c lost n" and "fetch_and_verify_manifest c w url i n = (res, n')"
  shows "node_ok c lost n'"
  using assms(2)
proof (cases rule: fetch_manifest_cases)
  case (2 cbor r mf rid body)
  then show ?thesis
    using assms(1) cache_best_effort_ok [of n] cache_best_effort_verified [OF _ 2(1,2)]
    by (simp add: node_ok_def pins_genuine_def pinned_def)
qed (use assms(1) in simp)

lemma pin_manifest_ok:
  assumes "node_ok c lost n" and "world_ok w" and "pin_manifest c w url i n = (res, n')"
  shows "node_ok c (if is_ok res then lost else lost \<union> {b. pinned n b \<and> nd_blobs n' b \<noteq> nd_blobs n b}) n'"
proof -
  from assms have store: "pin_db_ok (nd_db n')" "library_verified c (nd_db n')" and gen: "pins_genuine c lost n"
    using pin_manifest_store [OF assms(3)] by (simp_all add: node_ok_def)
  show ?thesis
  proof (cases res)
    case (Inl e)
    with assms(3) have "nd_db n' = nd_db n"
      by (cases rule: pin_manifest_cases) simp_all
    then have "pinned n' b \<longleftrightarrow> pinned n b" for b
      by (simp add: pinned_def)
    then have "pins_genuine c (lost \<union> {b. pinned n b \<and> nd_blobs n' b \<noteq> nd_blobs n b}) n'"
      by (intro pins_genuine_same [OF gen]) auto
    with store Inl show ?thesis
      by (simp add: node_ok_def is_ok_def)
  next
    case (Inr out)
    note d = pin_manifest_done [OF assms(2) assms(3) [unfolded Inr]]
    have "named_by_content c b (nd_blobs n' b)" if "pinned n' b" "b \<notin> lost" for b
    proof (cases "b = po_blob_id out")
      case False
      with that d(3) gen have "named_by_content c b (nd_blobs n b)"
        by (simp add: pins_genuine_def)
      moreover from this have "nd_blobs n b \<noteq> None"
        by (auto simp: named_by_content_def)
      ultimately show ?thesis
        using d(4) False by simp
    qed (use d(2) in simp)
    with store Inr show ?thesis
      by (simp add: node_ok_def pins_genuine_def is_ok_def)
  qed
qed

lemma run_command_ok:
  assumes "node_ok c lost n" and "world_ok w" and "run_command c w cmd n = (ok, n')"
  shows "node_ok c (if ok then lost else lost \<union> {b. pinned n b \<and> nd_blobs n' b \<noteq> nd_blobs n b}) n'"
proof -
  have more: "node_ok c lost n' \<Longrightarrow> node_ok c (lost \<union> X) n'" for X
    by (auto simp: node_ok_def pins_genuine_def)
  show ?thesis
  proof (cases cmd)
    case (PinManifest url i)
    then obtain res where "pin_manifest c w url i n = (res, n')" "ok = is_ok res"
      using assms(3) by (cases "pin_manifest c w url i n") (simp add: run_command_def)
    with pin_manifest_ok [OF assms(1,2)] show ?thesis
      by blast
  next
    case (FetchManifest url i)
    then have "node_ok c lost n'"
      using assms fetch_manifest_ok by (cases "fetch_and_verify_manifest c w url i n") (auto simp: run_command_def)
    with more show ?thesis by simp
  next
    case (UnpinBlob s)
    then have "node_ok c lost n'"
      using assms unpin_blob_ok by (cases "unpin_blob w s n") (auto simp: run_command_def)
    with more show ?thesis by simp
  next
    case (SetBudget b)
    then have "node_ok c lost n'"
      using assms set_budget_command_ok by (cases "set_budget_command w b n") (auto simp: run_command_def)
    with more show ?thesis by simp
  qed
qed

lemma node_run_ok: "node_run c lost n \<Longrightarrow> node_ok c lost n"
proof (induction rule: node_run.induct)
  case start
  show ?case
    by (simp add: node_ok_def pins_genuine_def pinned_def new_node_def pin_db_ok_def library_verified_def empty_db_def)
next
  case (command lost n w cmd ok n')
  then show ?case
    by (intro run_command_ok)
qed


end
