(* ===== verification/NodeExamples.thy ===== *)
theory NodeExamples
  imports NodeSpec
begin

text \<open>
  The node on a concrete manifest: a pin that succeeds, and the same pin repeated over a transfer that
  breaks off, after which the blob is still pinned and its file is not its content.
\<close>

section \<open>A manifest\<close>

definition demo_blob :: bytes where
  "demo_blob = [1, 2, 3]"

definition demo_manifest :: manifest where
  "demo_manifest =
     \<lparr> mf_title = str ''T'', mf_description = None, mf_tags = [], mf_language = None,
       mf_original = \<lparr> md_blob = hash_blob toy_crypto demo_blob, md_size = 3, md_chunk_root = None,
         md_codec = str ''mp3'', md_duration_ms = 60, md_width = None, md_height = None,
         md_wrapped_blob_key = None \<rparr>,
       mf_renditions = [], mf_captions = [], mf_thumbnail = None, mf_encryption = None,
       mf_license = str ''CC0-1.0'', mf_sponsorship = [], mf_payment = [], mf_hints = [], mf_channel = None \<rparr>"

definition demo_record :: erecord where
  "demo_record = signed_record toy_crypto
     (builder_body (manifest_to_body demo_manifest) (builder_created_at 5 (builder_new KIND_MANIFEST)))
     sample_keys identity_zero"

definition demo_wire :: bytes where
  "demo_wire = (case to_canonical_cbor demo_record of Inr b \<Rightarrow> b | Inl _ \<Rightarrow> [])"

lemma demo_record_ok: "wf_record demo_record" "vdepth (r_body demo_record) < 64" "r_kind demo_record = KIND_MANIFEST"
  "manifest_parse demo_record = Inr demo_manifest"
  by code_simp+

lemma demo_wire_short: "length demo_wire < 400"
  by code_simp

lemma demo_verifies: "verify toy_crypto demo_record = Inr ()"
  unfolding demo_record_def
proof (rule verify_signed_record)
  show "keypair_ok sample_keys"
    by code_simp
  show "is_ok (encode_canonical (b_body (builder_body (manifest_to_body demo_manifest) (builder_created_at 5 (builder_new KIND_MANIFEST)))))"
    by code_simp
qed (rule crypto_laws_toy)

lemma demo_checked: "verify_and_parse_manifest toy_crypto demo_wire = Inr (demo_record, demo_manifest)"
proof -
  have wire: "to_canonical_cbor demo_record = Inr demo_wire"
    using to_canonical_cbor_wf [OF demo_record_ok(1)] by (simp add: demo_wire_def)
  have "record_from_cbor demo_wire = Inr demo_record"
    using demo_record_ok demo_wire_short wire by (intro read_back) (simp_all add: addressable_def usize_max_def)
  then show ?thesis
    using demo_record_ok demo_verifies by (simp add: verify_and_parse_manifest_iff) (simp add: demo_manifest_def)
qed

section \<open>A world\<close>

text \<open>One gateway that answers every request with the manifest's record, and downloads with \<open>stream\<close>.\<close>

definition demo_world :: "download_event list \<Rightarrow> world" where
  "demo_world stream =
     \<lparr> w_parse = (\<lambda>s. Some \<lparr> url_text = s, url_scheme = str ''http'', url_host = Some (str ''g''), url_origin = str ''http://g'' \<rparr>),
       w_join = (\<lambda>base path. Some (base\<lparr> url_text := url_origin base @ path \<rparr>)),
       w_send = (\<lambda>_. Inr \<lparr> hr_status = 200, hr_bytes = Inr demo_wire, hr_text = Inr [], hr_stream = stream \<rparr>),
       w_error_message = (\<lambda>_. None), w_status_text = nat_decimal, w_json = (\<lambda>_ _. Inl []), w_debug = (\<lambda>_. []),
       w_mkdir = None, w_create = None,
       w_open = (\<lambda>_ f. case f of None \<Rightarrow> Inl (str ''not found'') | Some d \<Rightarrow> Inr (if d = [] then [] else [Data d])),
       w_remove_ok = True, w_sql = None, w_now = 100 \<rparr>"

lemma demo_world_ok: "world_ok (demo_world stream)"
  by (simp add: world_ok_def demo_world_def)

definition demo_name :: bytes where
  "demo_name = blob_name (hash_blob toy_crypto demo_blob)"

lemma demo_fetch:
  "download_to_file (demo_world stream) client url dest fs = (r, fs') \<longleftrightarrow>
     (\<exists>written. download_loop stream 0 [] = (r, written) \<and> fs' = fs(dest \<mapsto> written))"
  by (auto simp: download_to_file_def http_get_def demo_world_def is_success_def split: prod.splits)

lemma demo_pin:
  "\<exists>client v rid. pin_manifest toy_crypto (demo_world stream) url i n =
     (case fetch_original toy_crypto (demo_world stream) client (hash_blob toy_crypto demo_blob) None (nd_blobs n) of
        (Inl e, fs) \<Rightarrow> (Inl e, n\<lparr> nd_blobs := fs \<rparr>)
      | (Inr k, fs) \<Rightarrow>
          (case pin_blob None 100 (hash_blob toy_crypto demo_blob) (Some rid) Explicit (nd_db n) of
             Inl e \<Rightarrow> (Inl (NodeErr (display_pin_error e)), n\<lparr> nd_blobs := fs \<rparr>)
           | Inr db \<Rightarrow> (Inr \<lparr> po_blob_id = demo_name, po_bytes_written = k, po_verdict = v \<rparr>,
                finish_pin toy_crypto (demo_world stream) client i rid demo_record demo_manifest
                  (n\<lparr> nd_blobs := fs, nd_db := db \<rparr>))))"
proof -
  obtain v where v: "verify_record_cbor toy_crypto demo_wire = Inr v"
    using verify_record_cbor_cases by blast
  obtain rid where rid: "record_id_of toy_crypto demo_record = Inr rid"
    using record_id_of_wf [OF demo_record_ok(1)] by blast
  obtain client where client: "client_new (demo_world stream) url = Inr client"
    by (simp add: client_new_Inr demo_world_def)
  have cbor: "get_record_cbor (demo_world stream) client i = Inr demo_wire"
    by (simp add: get_record_cbor_def http_get_def demo_world_def is_success_def)
  have store: "w_sql (demo_world stream) = None" "w_now (demo_world stream) = 100"
    by (simp_all add: demo_world_def)
  have media: "md_blob (mf_original demo_manifest) = hash_blob toy_crypto demo_blob"
      "md_chunk_root (mf_original demo_manifest) = None"
    by (simp_all add: demo_manifest_def)
  show ?thesis
    by (intro exI [of _ client] exI [of _ v] exI [of _ rid])
      (simp add: pin_manifest_def client cbor v rid demo_checked store media demo_name_def client_err_def panics_def
        Let_def cong: sum.case_cong prod.case_cong)
qed

section \<open>The pin, and the pin lost\<close>

lemma demo_original:
  "fetch_original toy_crypto (demo_world [Piece [1, 2], Piece [3]]) client (hash_blob toy_crypto demo_blob) None fs
    = (Inr 3, fs(demo_name \<mapsto> demo_blob))"
proof -
  let ?w = "demo_world [Piece [1, 2], Piece [3]]"
  have "check_file toy_crypto ?w (hash_blob toy_crypto demo_blob) None (fs(demo_name \<mapsto> demo_blob)) = Inr ()"
    by (simp add: check_file_def demo_world_def demo_name_def demo_blob_def verify_downloaded_blob_def rehash_blob_file_live)
  moreover have "download_to_file ?w client url demo_name fs = (Inr 3, fs(demo_name \<mapsto> demo_blob))" for url
    by (simp add: demo_fetch demo_blob_def)
  ultimately show ?thesis
    by (simp add: fetch_original_def demo_name_def [symmetric])
qed

definition demo_node :: node where
  "demo_node = snd (pin_manifest toy_crypto (demo_world [Piece [1, 2], Piece [3]]) (str ''http://g'') (str ''a'') new_node)"

lemma demo_pinned:
  obtains out where
    "pin_manifest toy_crypto (demo_world [Piece [1, 2], Piece [3]]) (str ''http://g'') (str ''a'') new_node = (Inr out, demo_node)"
    and "po_blob_id out = demo_name"
proof -
  obtain out n' where "pin_manifest toy_crypto (demo_world [Piece [1, 2], Piece [3]]) (str ''http://g'') (str ''a'') new_node
      = (Inr out, n')" "po_blob_id out = demo_name"
    using demo_pin [of "[Piece [1, 2], Piece [3]]" "str ''http://g''" "str ''a''" new_node]
    by (auto simp: demo_original pin_blob_def statement_def)
  then show thesis
    by (intro that [of out]) (simp_all add: demo_node_def)
qed

lemma demo_node_run: "node_run toy_crypto {} demo_node"
proof -
  obtain out where out: "pin_manifest toy_crypto (demo_world [Piece [1, 2], Piece [3]]) (str ''http://g'') (str ''a'') new_node
      = (Inr out, demo_node)"
    by (rule demo_pinned)
  have "run_command toy_crypto (demo_world [Piece [1, 2], Piece [3]]) (PinManifest (str ''http://g'') (str ''a'')) new_node
      = (True, demo_node)"
    by (simp add: run_command_def out is_ok_def)
  from node_run.command [OF node_run.start demo_world_ok this] show ?thesis
    by simp
qed

text \<open>
  The same command again, with a transfer that breaks off after one byte: it fails, the blob is still
  pinned, the file that had been checked is cut short, and the node hands out its path.
\<close>

lemma failed_repin_loses_the_blob:
  "\<exists>e n'. pin_manifest toy_crypto (demo_world [Piece [1], TransferFails (str ''reset'')]) (str ''http://g'') (str ''a'') demo_node
      = (Inl e, n')
    \<and> pinned n' demo_name \<and> nd_blobs n' demo_name = Some [1]
    \<and> \<not> named_by_content toy_crypto demo_name (nd_blobs n' demo_name)
    \<and> local_media_path demo_name n' = Inr (Some demo_name)"
proof -
  let ?w = "demo_world [Piece [1], TransferFails (str ''reset'')]"
  let ?n' = "demo_node\<lparr> nd_blobs := (nd_blobs demo_node)(demo_name \<mapsto> [1]) \<rparr>"
  obtain out where out: "pin_manifest toy_crypto (demo_world [Piece [1, 2], Piece [3]]) (str ''http://g'') (str ''a'') new_node
      = (Inr out, demo_node)" "po_blob_id out = demo_name"
    by (rule demo_pinned)
  have "fetch_original toy_crypto ?w client (hash_blob toy_crypto demo_blob) None (nd_blobs demo_node)
      = (Inl (NodeErr (display_gateway_error (Transport (str ''reset'')))), (nd_blobs demo_node)(demo_name \<mapsto> [1]))" for client
  proof -
    have "download_to_file ?w client url demo_name (nd_blobs demo_node)
        = (Inl (Transport (str ''reset'')), (nd_blobs demo_node)(demo_name \<mapsto> [1]))" for url
      by (simp add: demo_fetch)
    then show ?thesis
      by (simp add: fetch_original_def demo_name_def [symmetric])
  qed
  then have "\<exists>e. pin_manifest toy_crypto ?w (str ''http://g'') (str ''a'') demo_node = (Inl e, ?n')"
    using demo_pin [of "[Piece [1], TransferFails (str ''reset'')]" "str ''http://g''" "str ''a''" demo_node] by auto
  moreover have "pinned ?n' demo_name"
    using pin_manifest_done(1) [OF demo_world_ok out(1)] by (simp add: out(2) pinned_def)
  moreover have "hash_blob toy_crypto [1] \<noteq> hash_blob toy_crypto demo_blob"
    by code_simp
  then have "\<not> named_by_content toy_crypto demo_name (Some [1])"
    by (simp add: named_by_content_def demo_name_def)
  moreover have "id_from_hex demo_name = Some (toy_hash demo_blob)"
    by (simp add: demo_name_def blob_name_def id_from_hex_def hash_blob_def toy_crypto_def)
  then have "local_media_path demo_name ?n' = Inr (Some demo_name)"
    by (simp add: local_media_path_def parse_blob_def) (simp add: demo_name_def hash_blob_def toy_crypto_def)
  ultimately show ?thesis
    by auto
qed


end
