(* ===== verification/Dmtap.thy ===== *)
theory Dmtap
  imports BlobSpec Envelope
begin

text \<open>
  The bridge to DMTAP-PUB objects, \<open>crates/evermesh-kernel/src/dmtap_pub.rs\<close> (behind the feature
  \<open>dmtap-pub\<close>): addresses, keys, blobs and records in the form of the other substrate, announces, and
  the feed of an author.

  The objects' own code is the external crate \<open>dmtap_core\<close>: \<open>dmtap\<close> is what the bridge calls of it.
  Signing fills in the signature of an object; of a manifest the bridge reads only the id.
  \<open>dmtap_laws\<close> is what the module's documentation says the crate computes.  The external records have
  the fields that the bridge fills in or reads, the external enumerations the variants it uses.  The
  sequence number of a feed wraps as in a release build.
\<close>

section \<open>The external objects\<close>

datatype content_id = ContentId (content_id_bytes: bytes)

datatype suite = Classical

datatype cv = CvU64 u64 | CvBytes bytes

record pub_manifest =
  pm_id :: content_id

record pub_announce =
  pa_v :: u64
  pa_suite :: suite
  pa_publisher :: bytes
  pa_roots :: "content_id list"
  pa_meta :: "(bytes \<times> cv) list"
  pa_supersedes :: "content_id option"
  pa_ts :: u64
  pa_signer :: bytes
  pa_sig :: bytes

record feed_entry =
  fe_seq :: u64
  fe_announce :: content_id
  fe_prev :: "content_id option"
  fe_ts :: u64

record feed_head =
  fh_v :: u64
  fh_suite :: suite
  fh_publisher :: bytes
  fh_seq :: u64
  fh_tip :: content_id
  fh_ts :: u64
  fh_signer :: bytes
  fh_sig :: bytes
  fh_topic :: bytes

record dmtap =
  dm_pub_v0 :: u64
  dm_chunk_hash :: "bytes \<Rightarrow> content_id"
  dm_manifest_new :: "u64 \<Rightarrow> 32 word \<Rightarrow> content_id list \<Rightarrow> suite \<Rightarrow> pub_manifest"
  dm_from_seed :: "bytes \<Rightarrow> bytes"
  dm_public :: "bytes \<Rightarrow> bytes"
  dm_sign_announce :: "bytes \<Rightarrow> pub_announce \<Rightarrow> bytes"
  dm_announce_id :: "pub_announce \<Rightarrow> content_id"
  dm_entry_id :: "feed_entry \<Rightarrow> content_id"
  dm_sign_head :: "bytes \<Rightarrow> feed_head \<Rightarrow> bytes"

definition MH_BLAKE3_256 :: u8 where
  "MH_BLAKE3_256 = 0x1e"

section \<open>Addresses\<close>

definition content_id_from_digest :: "bytes \<Rightarrow> content_id" where
  "content_id_from_digest digest = ContentId (MH_BLAKE3_256 # digest)"

definition digest_from_content_id :: "content_id \<Rightarrow> bytes option" where
  "digest_from_content_id i =
     (let b = content_id_bytes i in
      if length b \<noteq> 33 \<or> b ! 0 \<noteq> MH_BLAKE3_256 then None else Some (drop 1 b))"

definition blob_id_to_content_id :: "blob_id \<Rightarrow> content_id" where
  "blob_id_to_content_id i = content_id_from_digest (blob_id_bytes i)"

definition record_id_to_content_id :: "record_id \<Rightarrow> content_id" where
  "record_id_to_content_id i = content_id_from_digest (record_id_bytes i)"

definition content_id_to_blob_id :: "content_id \<Rightarrow> blob_id option" where
  "content_id_to_blob_id i = map_option BlobId (digest_from_content_id i)"

section \<open>Keys and blobs\<close>

definition keypair_to_identity_key :: "dmtap \<Rightarrow> keypair \<Rightarrow> bytes" where
  "keypair_to_identity_key d kp = dm_from_seed d (secret_bytes kp)"

definition pub_chunk_hashes :: "dmtap \<Rightarrow> bytes \<Rightarrow> content_id list" where
  "pub_chunk_hashes d bytes =
     (if bytes = [] then [] else map (dm_chunk_hash d) (chunks CHUNK_SIZE bytes))"

definition pub_manifest_for_bytes :: "dmtap \<Rightarrow> bytes \<Rightarrow> pub_manifest option" where
  "pub_manifest_for_bytes d bytes =
     (let hashes = pub_chunk_hashes d bytes in
      if hashes = [] then None
      else Some (dm_manifest_new d (word_of_nat (length bytes)) (word_of_nat CHUNK_SIZE) hashes Classical))"

definition roots_for :: "crypto \<Rightarrow> dmtap \<Rightarrow> bytes \<Rightarrow> (bytes \<times> content_id) option" where
  "roots_for c d bytes =
     Option.bind (chunk_tree_root c (chunk_tree_from_bytes c bytes)) (\<lambda>native.
     Option.bind (pub_manifest_for_bytes d bytes) (\<lambda>pubm. Some (native, pm_id pubm)))"

definition chunk_digests_for :: "crypto \<Rightarrow> dmtap \<Rightarrow> bytes \<Rightarrow> bytes \<times> content_id" where
  "chunk_digests_for c d chunk = (leaf_hash c chunk, dm_chunk_hash d chunk)"

section \<open>Announces\<close>

definition META_KEY_EVERMESH_KIND :: bytes where
  "META_KEY_EVERMESH_KIND = str ''evermesh.kind''"

definition META_KEY_EVERMESH_RECORD :: bytes where
  "META_KEY_EVERMESH_RECORD = str ''evermesh.record''"

definition meta_for_record :: "crypto \<Rightarrow> erecord \<Rightarrow> fault + (bytes \<times> cv) list" where
  "meta_for_record c r =
     and_then (record_id_of c r) (\<lambda>i.
     Inr [(META_KEY_EVERMESH_KIND, CvU64 (r_kind r)),
          (META_KEY_EVERMESH_RECORD, CvBytes (content_id_bytes (record_id_to_content_id i)))])"

definition build_announce ::
  "dmtap \<Rightarrow> keypair \<Rightarrow> content_id list \<Rightarrow> (bytes \<times> cv) list \<Rightarrow> u64 \<Rightarrow> content_id option \<Rightarrow> pub_announce" where
  "build_announce d kp roots meta ts supersedes =
     (let key = keypair_to_identity_key d kp;
          pk = dm_public d key;
          a = \<lparr> pa_v = dm_pub_v0 d, pa_suite = Classical, pa_publisher = pk, pa_roots = roots, pa_meta = meta,
                pa_supersedes = supersedes, pa_ts = ts, pa_signer = pk, pa_sig = [] \<rparr>
      in a\<lparr> pa_sig := dm_sign_announce d key a \<rparr>)"

definition announce_for_record_blob ::
  "crypto \<Rightarrow> dmtap \<Rightarrow> keypair \<Rightarrow> erecord \<Rightarrow> bytes \<Rightarrow> u64 \<Rightarrow> fault + (pub_manifest \<times> pub_announce) option" where
  "announce_for_record_blob c d kp r blob_bytes ts =
     (case pub_manifest_for_bytes d blob_bytes of
        None \<Rightarrow> Inr None
      | Some m \<Rightarrow>
          and_then (meta_for_record c r) (\<lambda>meta.
          Inr (Some (m, build_announce d kp [pm_id m] meta ts None))))"

section \<open>Feeds\<close>

definition feed_genesis :: "dmtap \<Rightarrow> pub_announce \<Rightarrow> u64 \<Rightarrow> feed_entry" where
  "feed_genesis d a ts = \<lparr> fe_seq = 0, fe_announce = dm_announce_id d a, fe_prev = None, fe_ts = ts \<rparr>"

definition feed_append :: "dmtap \<Rightarrow> feed_entry \<Rightarrow> pub_announce \<Rightarrow> u64 \<Rightarrow> feed_entry" where
  "feed_append d prev a ts =
     \<lparr> fe_seq = fe_seq prev + 1, fe_announce = dm_announce_id d a, fe_prev = Some (dm_entry_id d prev), fe_ts = ts \<rparr>"

definition build_feed_head :: "dmtap \<Rightarrow> keypair \<Rightarrow> feed_entry \<Rightarrow> u64 \<Rightarrow> feed_head" where
  "build_feed_head d kp tip ts =
     (let key = keypair_to_identity_key d kp;
          pk = dm_public d key;
          h = \<lparr> fh_v = dm_pub_v0 d, fh_suite = Classical, fh_publisher = pk, fh_seq = fe_seq tip,
                fh_tip = dm_entry_id d tip, fh_ts = ts, fh_signer = pk, fh_sig = [], fh_topic = [] \<rparr>
      in h\<lparr> fh_sig := dm_sign_head d key h \<rparr>)"

section \<open>What the bridge keeps\<close>

definition dmtap_laws :: "crypto \<Rightarrow> dmtap \<Rightarrow> bool" where
  "dmtap_laws c d \<longleftrightarrow>
     (\<forall>m. dm_chunk_hash d m = content_id_from_digest (blake3 c m))
     \<and> (\<forall>seed. length seed = 32 \<longrightarrow> dm_public d (dm_from_seed d seed) = sk_verifying_key c seed)"

text \<open>An address keeps its digest, and only addresses of the right hash have one.\<close>

lemma content_id_round_trip:
  assumes "length digest = 32"
  shows "digest_from_content_id (content_id_from_digest digest) = Some digest"
  using assms by (simp add: digest_from_content_id_def content_id_from_digest_def)

lemma digest_from_content_id_iff:
  "digest_from_content_id i = Some digest \<longleftrightarrow> length digest = 32 \<and> i = content_id_from_digest digest"
proof
  assume i: "digest_from_content_id i = Some digest"
  then obtain x xs where "content_id_bytes i = x # xs" "x = MH_BLAKE3_256" "xs = digest" "length xs = 32"
    by (cases "content_id_bytes i") (auto simp: digest_from_content_id_def Let_def split: if_splits)
  then show "length digest = 32 \<and> i = content_id_from_digest digest"
    by (cases i) (simp add: content_id_from_digest_def)
qed (simp add: content_id_round_trip)

lemma blob_address_round_trip:
  "length (blob_id_bytes b) = 32 \<Longrightarrow> content_id_to_blob_id (blob_id_to_content_id b) = Some b"
  by (simp add: content_id_to_blob_id_def blob_id_to_content_id_def content_id_round_trip)

text \<open>The same seed is the same public key on both sides.\<close>

lemma identity_key_material_is_shared:
  "\<lbrakk>dmtap_laws c d; keypair_ok kp\<rbrakk> \<Longrightarrow> dm_public d (keypair_to_identity_key d kp) = public_key_bytes c kp"
  by (simp add: dmtap_laws_def keypair_to_identity_key_def secret_bytes_def public_key_bytes_def keypair_ok_def)

text \<open>Same chunking: as many addresses as the native tree has leaves, none only for the empty blob.\<close>

lemma length_pub_chunk_hashes: "length (pub_chunk_hashes d bytes) = n_chunks (chunk_tree_from_bytes c bytes)"
  by (simp add: pub_chunk_hashes_def n_chunks_def chunk_tree_from_bytes_def)

lemma pub_manifest_None_iff: "pub_manifest_for_bytes d bytes = None \<longleftrightarrow> bytes = []"
proof -
  have "bytes \<noteq> [] \<Longrightarrow> chunks CHUNK_SIZE bytes \<noteq> []"
    by (subst chunks.simps) (simp add: CHUNK_SIZE_def)
  then show ?thesis
    by (auto simp: pub_manifest_for_bytes_def pub_chunk_hashes_def Let_def)
qed

lemma roots_for_None_iff: "roots_for c d bytes = None \<longleftrightarrow> bytes = []"
proof -
  have "bytes \<noteq> [] \<Longrightarrow> chunks CHUNK_SIZE bytes \<noteq> []"
    by (subst chunks.simps) (simp add: CHUNK_SIZE_def)
  then show ?thesis
    using pub_manifest_None_iff [of d bytes]
    by (auto simp: roots_for_def chunk_tree_root_def chunk_tree_from_bytes_def bind_eq_None_conv)
qed

text \<open>
  What was stored per chunk is not the address that the other side needs: its digest is the leaf's only
  if the hash collides on the chunk with and without the leaf tag.
\<close>

lemma stored_leaf_is_not_the_address:
  assumes "dmtap_laws c d" and "inj_on (blake3 c) {chunk, [0x00] @ chunk}"
    and "chunk_digests_for c d chunk = (leaf, address)"
  shows "address \<noteq> content_id_from_digest leaf"
proof
  assume "address = content_id_from_digest leaf"
  then have "blake3 c chunk = blake3 c ([0x00] @ chunk)"
    using assms(1,3) by (simp add: chunk_digests_for_def dmtap_laws_def content_id_from_digest_def leaf_hash_def)
  from inj_onD [OF assms(2) this] have "chunk = [0x00] @ chunk"
    by simp
  then show False by simp
qed

text \<open>A record that was parsed has an announce for every blob but the empty one, without a panic.\<close>

lemma announce_for_parsed_record:
  assumes "record_from_cbor bs = Inr r" and "blob_bytes \<noteq> []"
  obtains m a where "announce_for_record_blob c d kp r blob_bytes ts = Inr (Some (m, a))"
    and "pub_manifest_for_bytes d blob_bytes = Some m" and "pa_roots a = [pm_id m]"
    and "pa_publisher a = pa_signer a" and "pa_sig a = dm_sign_announce d (keypair_to_identity_key d kp) (a\<lparr> pa_sig := [] \<rparr>)"
proof -
  from assms(2) obtain m where m: "pub_manifest_for_bytes d blob_bytes = Some m"
    using pub_manifest_None_iff by blast
  have "record_id_of c r = Inr (RecordId (blake3 c (keybuf (record_to_value r False))))"
    using record_id_of_wf [OF record_from_cborD(1) [OF assms(1)]] .
  with m show thesis
    by (intro that) (auto simp: announce_for_record_blob_def meta_for_record_def build_announce_def Let_def)
qed

text \<open>A feed: the entries for a list of announces, each chained to the one before it.\<close>

fun feed_from :: "dmtap \<Rightarrow> feed_entry \<Rightarrow> (pub_announce \<times> u64) list \<Rightarrow> feed_entry list" where
  "feed_from d tip [] = [tip]"
| "feed_from d tip ((a, ts) # rest) = tip # feed_from d (feed_append d tip a ts) rest"

lemma feed_from_nth:
  "i \<le> length rest \<Longrightarrow> fe_seq (feed_from d tip rest ! i) = fe_seq tip + word_of_nat i"
  by (induction d tip rest arbitrary: i rule: feed_from.induct)
    (auto simp: nth_Cons feed_append_def split: nat.split)

lemma length_feed_from: "length (feed_from d tip rest) = Suc (length rest)"
  by (induction d tip rest rule: feed_from.induct) simp_all

lemma feed_from_hd: "feed_from d tip rest ! 0 = tip"
  by (cases rest) auto

lemma feed_from_chain:
  "i < length rest \<Longrightarrow> fe_prev (feed_from d tip rest ! Suc i) = Some (dm_entry_id d (feed_from d tip rest ! i))"
proof (induction d tip rest arbitrary: i rule: feed_from.induct)
  case (2 d tip a ts rest)
  then show ?case
    by (cases i) (simp_all add: feed_from_hd feed_append_def)
qed simp

lemma feed_is_chained:
  assumes "feed = feed_from d (feed_genesis d a ts) rest"
  shows "length feed = Suc (length rest)" and "fe_prev (feed ! 0) = None"
    and "\<And>i. i \<le> length rest \<Longrightarrow> fe_seq (feed ! i) = word_of_nat i"
    and "\<And>i. i < length rest \<Longrightarrow> fe_prev (feed ! Suc i) = Some (dm_entry_id d (feed ! i))"
  using assms feed_from_nth [of _ rest d "feed_genesis d a ts"]
  by (simp_all add: length_feed_from feed_from_hd feed_from_chain feed_genesis_def)

lemma feed_head_commits:
  "fh_tip (build_feed_head d kp tip ts) = dm_entry_id d tip \<and> fh_seq (build_feed_head d kp tip ts) = fe_seq tip
   \<and> fh_topic (build_feed_head d kp tip ts) = []"
  by (simp add: build_feed_head_def Let_def)

end
