(* ===== verification/Spec2Isabelle.thy ===== *)
theory Spec2Isabelle
  imports IdentityExamples KindsSpec BundleTrip JsonSpec RelayExamples RelayBlobsSpec RelayInfo RelayRate WasmSpec NodeExamples Dmtap
begin

text \<open>
  A model of Evermesh, a substrate of signed records and content-addressed blobs, with the theorems
  that make it correct.  The Rust sources are under \<open>crates/\<close>; \<open>kernel\<close> below stands for
  \<open>crates/evermesh-kernel/src\<close>, \<open>relay\<close> for \<open>crates/evermesh-relay/src\<close>, \<open>node\<close> for
  \<open>crates/evermesh-node/src\<close> and \<open>wasm\<close> for \<open>crates/evermesh-wasm/src\<close>.

  \<^bold>\<open>The program.\<close>  A record is an envelope (kind, author, time, references, body, signature) written as
  canonical CBOR; its id is the hash of the unsigned envelope.  Identities are chains of rotation
  records.  Blobs are addressed by their hash and cut into chunks under a hash tree.  The kinds give
  record bodies their meaning.  Bundles carry records and blobs in a file.  A
  relay stores the records that clients publish and its peers send, answers subscriptions from the store
  and then live, and keeps blobs; it reads nothing of a record but its envelope.  A node on a desktop
  pins manifests of a gateway with their files, after checking them against the author's signature.  The
  bindings give JavaScript the kernel.  The bridge states records and blobs as objects of another substrate.

  \<^bold>\<open>Theories and sources.\<close>
  \<^item> \<open>Prelude\<close>, \<open>Utf8\<close>: results as sums, big-endian bytes, slices; the validity of Rust strings.
  \<^item> \<open>Codec\<close>, \<open>CodecLaws\<close>, \<open>CodecSpec\<close>: \<open>kernel/codec.rs\<close>, the value tree, the canonical encoder and the
    strict decoder.  The decoder's depth limit of 64 bounds its recursion, so it is a total function.
    C1--C5: decoding inverts encoding, only canonical bytes decode, \<open>into_canonical\<close> keeps the encoding,
    decoded values are small, the one encoding error.
  \<^item> \<open>Json\<close>, \<open>JsonSpec\<close>: the JSON form of \<open>kernel/codec.rs\<close>.  A character is its UTF-8 bytes, the parser's
    state the characters left; every step consumes, which gives termination.  C34.
  \<^item> \<open>Ids\<close>: \<open>kernel/ids.rs\<close>.  C7: hex and URI forms.
  \<^item> \<open>Crypto\<close>, \<open>Envelope\<close>: keypairs of \<open>kernel/identity.rs\<close> and \<open>kernel/record.rs\<close>.  C8--C13: the wire form
    is exact, parsed records never make the code panic, ids commit to the content, signing verifies.
  \<^item> \<open>IdentityChain\<close>, \<open>IdentityLaws\<close>, \<open>IdentitySpec\<close>, \<open>IdentityExamples\<close>: \<open>kernel/identity.rs\<close>.  The walk along
    the chain is a partial function of the records; C18 proves that it ends.  C14--C22: the choice between
    rival rotations, recovery precedence, the contest window, maximality, independence of the order.
  \<^item> \<open>Blob\<close>, \<open>BlobSpec\<close>: \<open>kernel/blob.rs\<close>.  A reader is the list of what its \<open>read\<close> calls return.  C23--C25:
    streaming equals hashing at once, proofs verify, and only the right chunk verifies.
  \<^item> \<open>KindsBase\<close> and the other \<open>Kinds\<close> theories: \<open>kernel/kinds\<close>.  The locale \<open>kind_wrapper\<close> is the
    interface of a typed kind, interpreted for every kind of the registry.  C26--C28,
    C30, C31.
  \<^item> \<open>Bundle\<close>, \<open>BundleFrame\<close>, \<open>BundleSpec\<close>, \<open>BundleTrip\<close>: \<open>kernel/bundle.rs\<close>.  The loops consume the reader,
    which gives termination.  C32, C33: import keeps only what verifies, and reads back what export wrote.
  \<^item> \<open>Frames\<close>, \<open>FramesSpec\<close>, \<open>RelayFrames\<close>, \<open>RelayFramesSpec\<close>: \<open>relay/frames.rs\<close> and \<open>relay/filter.rs\<close>.  The
    relay has a CBOR codec of its own; C35: it is the kernel's, but for the depth limit it lacks.  C36: the
    typed frames are read back, and relay frames have one spelling.
  \<^item> \<open>RelayConfig\<close>, \<open>RelayStore\<close>, \<open>RelayStoreSpec\<close>: \<open>relay/config.rs\<close>, \<open>relay/store.rs\<close>, \<open>relay/pow.rs\<close>.  A
    table is the list of its rows and an SQL statement the operation on tables that its text denotes.  The
    abstraction is the log of accepted records (\<open>represents\<close>); C37: insertion extends it and a query is
    the live filter over it, newest first.
  \<^item> \<open>Relay\<close>, \<open>RelaySpec\<close>, \<open>RelayExamples\<close>: \<open>relay/sync.rs\<close>, \<open>relay/gossip.rs\<close>, \<open>relay/lib.rs\<close>.  A task is at one
    of its suspension points, an event is what one task does up to the next, and a run is any interleaving
    (\<open>step\<close>, \<open>reachable\<close>).  C38: only verified records are stored, sent and forwarded.  C39: a subscriber
    misses no record, a liveness property: the steps that deliver are enabled in every state.
  \<^item> \<open>RelayBlobs\<close>, \<open>RelayBlobsSpec\<close>, \<open>RelayInfo\<close>: \<open>relay/blobs.rs\<close>, \<open>relay/info.rs\<close>.  C40: the sidecar is
    content-addressed and its ranges are inside the blob.
  \<^item> \<open>RelayRate\<close>: \<open>relay/rate.rs\<close> and the reconnection of \<open>relay/gossip.rs\<close>.  Of a burst at one instant exactly
    the first \<open>limit\<close> records of an identity pass; failures double the delay up to a minute.
  \<^item> \<open>KernelText\<close>: the texts of \<open>kernel/error.rs\<close> and the JSON form of \<open>kernel/record.rs\<close>.
  \<^item> \<open>WasmHasher\<close>, \<open>WasmBindings\<close>, \<open>WasmSpec\<close>: \<open>wasm/lib.rs\<close>.  C6: the incremental hasher computes the
    kernel's id and tree, however the bytes are split.  The exported functions never trap and agree with
    the kernel's.
  \<^item> \<open>NodeVerify\<close>, \<open>NodeClient\<close>, \<open>NodePins\<close>, \<open>NodePinsSpec\<close>, \<open>NodeApp\<close>, \<open>NodeSpec\<close>, \<open>NodeExamples\<close>:
    \<open>node/verify.rs\<close>, \<open>node/gateway_client.rs\<close>, \<open>node/pinning.rs\<close>, \<open>node/main.rs\<close>.  The locale
    \<open>keyed_table\<close> refines both tables of the pin store to maps; the commands run over a world that answers
    requests.  C29: after any commands every pinned file is the one its author signed.
  \<^item> \<open>Dmtap\<close>: \<open>kernel/dmtap_pub.rs\<close>.  Addresses and keys are kept, feeds are chained.

  \<^bold>\<open>Parameters.\<close>  BLAKE3 and Ed25519 are the record \<open>crypto\<close>, with \<open>crypto_laws\<close> for what the code relies on
  (lengths, and that signing verifies); a property about commitment has the absence of a collision on the
  messages it names as a hypothesis.  Random bytes, writers, clocks and the \<open>Debug\<close> rendering of values are
  arguments.  Panics are values: \<open>fault\<close> is an error of the program or a panic.  In the relay, the number of
  parameters an SQL statement may have and the failure of a store task, of a file operation or of a stream
  are arguments, the rate limiter's answer is part of the event, and the broadcast channel is a queue per
  receiver that drops the oldest records past its capacity and says so.  The limiter's floating-point
  operations are the record \<open>f64\<close>, with \<open>f64_laws\<close> for the exactness of small integers.  The gateway, the file
  system and the URL and JSON libraries of the node are its \<open>world\<close>, the objects of the other substrate
  the record \<open>dmtap\<close>.

  \<^bold>\<open>Not modelled.\<close>  The conformance tools (\<open>tools/conformance\<close>: a generator of test vectors and their
  runner), the HTTP and desktop shells, the spawning of tasks, the TypeScript applications, and the JSON
  views of the gateway, which the node passes on as they are.  The hasher's size as a float is left out.
\<close>

end
